(* ===== verification/Prelude.thy ===== *)
theory Prelude
  imports Main "HOL-Library.Word" "HOL-Library.Sublist"
begin

text \<open>
  What every other theory of the development shares: the machine integers and byte strings of
  the Go program, fallible operations over an explicit state, and the lemmas on lists of
  bytes that carry the proofs about paths, URLs and protocol lines.

  A Go \<open>string\<close> and a \<open>[]byte\<close> are both sequences of bytes, and an Isabelle
  \<open>char\<close> is one byte, so both are \<open>string\<close> here. A Go \<open>int64\<close> is a 64-bit word read
  with \<open>sint\<close>; where the code only compares, and never computes, the reading is all that
  is used.
\<close>

section \<open>Types\<close>

type_synonym byte = char
type_synonym bytes = string
type_synonym int64 = "64 word"
type_synonym uint32 = "32 word"

text \<open>
  A Go function that returns a value and an error, and may change what it was given a pointer
  to: from a state to an error or a value, and the state left behind.
\<close>

type_synonym ('s, 'e, 'a) op = "'s \<Rightarrow> ('e + 'a) \<times> 's"

definition returnE :: "'a \<Rightarrow> ('s, 'e, 'a) op" where
  "returnE x s = (Inr x, s)"

definition failE :: "'e \<Rightarrow> ('s, 'e, 'a) op" where
  "failE e s = (Inl e, s)"

text \<open>\<open>x, err := m(); if err != nil { return err }\<close>, then the rest.\<close>

definition bindE :: "('s, 'e, 'a) op \<Rightarrow> ('a \<Rightarrow> ('s, 'e, 'b) op) \<Rightarrow> ('s, 'e, 'b) op" where
  "bindE m k s = (case m s of (Inl e, s') \<Rightarrow> (Inl e, s') | (Inr x, s') \<Rightarrow> k x s')"

text \<open>A value already at hand that may be an error, as an operation that changes nothing.\<close>

definition liftE :: "'e + 'a \<Rightarrow> ('s, 'e, 'a) op" where
  "liftE r s = (r, s)"

lemma returnE_app [simp]: "returnE x s = (Inr x, s)"
  by (simp add: returnE_def)

lemma failE_app [simp]: "failE e s = (Inl e, s)"
  by (simp add: failE_def)

lemma liftE_app [simp]: "liftE r s = (r, s)"
  by (simp add: liftE_def)

lemma bindE_app:
  "bindE m k s = (case m s of (Inl e, s') \<Rightarrow> (Inl e, s') | (Inr x, s') \<Rightarrow> k x s')"
  by (simp add: bindE_def)

lemma bindE_Inl [simp]: "m s = (Inl e, s') \<Longrightarrow> bindE m k s = (Inl e, s')"
  by (simp add: bindE_def)

lemma bindE_Inr [simp]: "m s = (Inr x, s') \<Longrightarrow> bindE m k s = k x s'"
  by (simp add: bindE_def)

lemma bindE_liftE_Inr [simp]: "bindE (liftE (Inr x)) k = k x"
  by (simp add: bindE_def fun_eq_iff)

lemma bindE_liftE_Inl [simp]: "bindE (liftE (Inl e)) k = failE e"
  by (simp add: bindE_def fun_eq_iff)

lemma bindE_Inr_iff:
  "bindE m k s = (Inr y, t) \<longleftrightarrow> (\<exists>x s'. m s = (Inr x, s') \<and> k x s' = (Inr y, t))"
  by (auto simp: bindE_def split: prod.splits sum.splits)

lemma bindE_cong:
  assumes "m = m'" and "\<And>x. k x = k' x"
  shows "bindE m k = bindE m' k'"
proof -
  have "k = k'" using assms(2) by (rule ext)
  with assms(1) show ?thesis by simp
qed

text \<open>
  An invariant an operation keeps, whether it returns a value or an error. The rules of
  the collection \<open>keeps\<close> reduce the goal for a whole handler to the operations it calls.
\<close>

definition keeps :: "('s \<Rightarrow> bool) \<Rightarrow> ('s \<Rightarrow> 'r \<times> 's) \<Rightarrow> bool" where
  "keeps P m \<longleftrightarrow> (\<forall>s. P s \<longrightarrow> P (snd (m s)))"

named_theorems keeps_rules

lemma keepsI: "(\<And>s. P s \<Longrightarrow> P (snd (m s))) \<Longrightarrow> keeps P m"
  by (simp add: keeps_def)

lemma keepsD: "keeps P m \<Longrightarrow> P s \<Longrightarrow> P (snd (m s))"
  by (simp add: keeps_def)

lemma keepsD': "keeps P m \<Longrightarrow> P s \<Longrightarrow> m s = (r, t) \<Longrightarrow> P t"
  by (metis keepsD snd_conv)

lemma keeps_returnE [keeps_rules]: "keeps P (returnE x)"
  by (simp add: keeps_def)

lemma keeps_failE [keeps_rules]: "keeps P (failE e)"
  by (simp add: keeps_def)

lemma keeps_liftE [keeps_rules]: "keeps P (liftE r)"
  by (simp add: keeps_def)

lemma keeps_bindE [keeps_rules]:
  assumes "keeps P m" and "\<And>x. keeps P (k x)"
  shows "keeps P (bindE m k)"
proof (rule keepsI)
  fix s
  assume "P s"
  then have "P (snd (m s))"
    using assms(1) by (rule keepsD [rotated])
  then show "P (snd (bindE m k s))"
    using assms(2) by (auto simp: bindE_app keeps_def split: prod.splits sum.splits)
qed

lemma keeps_if [keeps_rules]: "keeps P a \<Longrightarrow> keeps P b \<Longrightarrow> keeps P (if c then a else b)"
  by simp

text \<open>The same for handlers that tell results apart with \<open>case\<close>, and for calls whose result is dropped.\<close>

lemma keeps_same [keeps_rules]: "keeps P (\<lambda>s. (r, s))"
  by (simp add: keeps_def)

lemma keeps_result [keeps_rules]: "keeps P m \<Longrightarrow> keeps P (\<lambda>s. (r, snd (m s)))"
  by (simp add: keeps_def)

lemma keeps_after [keeps_rules]: "keeps P m \<Longrightarrow> keeps P k \<Longrightarrow> keeps P (\<lambda>s. k (snd (m s)))"
  by (simp add: keeps_def)

lemma keeps_case_prod [keeps_rules]:
  "keeps P m \<Longrightarrow> (\<And>x. keeps P (k x)) \<Longrightarrow> keeps P (\<lambda>s. case m s of (x, t) \<Rightarrow> k x t)"
  by (auto simp: keeps_def split: prod.splits)

lemma keeps_case_sum [keeps_rules]:
  "(\<And>e. keeps P (f e)) \<Longrightarrow> (\<And>x. keeps P (g x)) \<Longrightarrow>
     keeps P (\<lambda>s. case r of Inl e \<Rightarrow> f e s | Inr x \<Rightarrow> g x s)"
  by (cases r) simp_all

lemma keeps_case_option [keeps_rules]:
  "keeps P f \<Longrightarrow> (\<And>x. keeps P (g x)) \<Longrightarrow>
     keeps P (\<lambda>s. case r of None \<Rightarrow> f s | Some x \<Rightarrow> g x s)"
  by (cases r) simp_all

lemma keeps_case_tuple [keeps_rules]:
  "(\<And>x y. keeps P (g x y)) \<Longrightarrow> keeps P (\<lambda>s. case r of (x, y) \<Rightarrow> g x y s)"
  by (cases r) simp

lemma keeps_if_app [keeps_rules]:
  "keeps P f \<Longrightarrow> keeps P g \<Longrightarrow> keeps P (\<lambda>s. if c then f s else g s)"
  by (cases c) simp_all

section \<open>Go's strings package, for a one-byte separator\<close>

abbreviation slash :: char where "slash \<equiv> CHR ''/''"
abbreviation nul :: char where "nul \<equiv> CHR 0x00"
abbreviation newline :: char where "newline \<equiv> CHR 0x0A"
abbreviation backslash :: char where "backslash \<equiv> CHR 0x5C"
abbreviation space :: char where "space \<equiv> CHR '' ''"

text \<open>\<open>strings.Split\<close>: one more piece than there are separators, so never none.\<close>

fun split_on :: "'a \<Rightarrow> 'a list \<Rightarrow> 'a list list" where
  "split_on c [] = [[]]"
| "split_on c (x # xs) =
     (if x = c then [] # split_on c xs
      else (case split_on c xs of [] \<Rightarrow> [[x]] | w # ws \<Rightarrow> (x # w) # ws))"

text \<open>\<open>strings.Join\<close>.\<close>

fun join_with :: "'a \<Rightarrow> 'a list list \<Rightarrow> 'a list" where
  "join_with c [] = []"
| "join_with c [w] = w"
| "join_with c (w # v # ws) = w @ c # join_with c (v # ws)"

text \<open>\<open>strings.Cut\<close>: what is before the first separator, what is after, and whether there is one.\<close>

definition cut :: "'a \<Rightarrow> 'a list \<Rightarrow> 'a list \<times> 'a list \<times> bool" where
  "cut c s = (takeWhile (\<lambda>x. x \<noteq> c) s, drop 1 (dropWhile (\<lambda>x. x \<noteq> c) s), c \<in> set s)"

text \<open>\<open>strings.TrimPrefix\<close> and \<open>strings.TrimSuffix\<close>.\<close>

definition trim_prefix :: "'a list \<Rightarrow> 'a list \<Rightarrow> 'a list" where
  "trim_prefix p s = (if prefix p s then drop (length p) s else s)"

definition trim_suffix :: "'a list \<Rightarrow> 'a list \<Rightarrow> 'a list" where
  "trim_suffix p s = (if suffix p s then take (length s - length p) s else s)"

text \<open>\<open>strings.Trim\<close> for one byte: every leading and every trailing one goes.\<close>

definition trim_all :: "'a \<Rightarrow> 'a list \<Rightarrow> 'a list" where
  "trim_all c s = rev (dropWhile (\<lambda>x. x = c) (rev (dropWhile (\<lambda>x. x = c) s)))"

text \<open>\<open>strings.ToLower\<close> on the ASCII letters, which is where the code uses it.\<close>

definition lower_char :: "char \<Rightarrow> char" where
  "lower_char c = (if 65 \<le> (of_char c :: nat) \<and> (of_char c :: nat) \<le> 90
                   then char_of ((of_char c :: nat) + 32) else c)"

definition to_lower :: "string \<Rightarrow> string" where
  "to_lower s = map lower_char s"

subsection \<open>Splitting and joining are inverse\<close>

lemma split_on_nonempty [simp]: "split_on c s \<noteq> []"
  by (induction s) (auto split: list.splits)

lemma split_on_no_sep: "c \<notin> set s \<Longrightarrow> split_on c s = [s]"
  by (induction s) auto

lemma split_on_pieces: "w \<in> set (split_on c s) \<Longrightarrow> c \<notin> set w"
proof (induction s arbitrary: w)
  case Nil
  then show ?case by simp
next
  case (Cons x xs)
  then show ?case
    by (cases "split_on c xs") (auto split: if_splits)
qed

lemma split_on_chars: "w \<in> set (split_on c s) \<Longrightarrow> set w \<subseteq> set s"
proof (induction s arbitrary: w)
  case Nil
  then show ?case by simp
next
  case (Cons x xs)
  show ?case
  proof (cases "split_on c xs")
    case Nil
    then show ?thesis by simp
  next
    case (Cons v vs)
    then have "set v \<subseteq> set xs" and "\<And>u. u \<in> set vs \<Longrightarrow> set u \<subseteq> set xs"
      using Cons.IH by auto
    then show ?thesis using Cons Cons.prems by (auto split: if_splits)
  qed
qed

lemma split_on_append:
  "c \<notin> set w \<Longrightarrow> split_on c (w @ c # s) = w # split_on c s"
  by (induction w) auto

lemma join_with_Cons: "ws \<noteq> [] \<Longrightarrow> join_with c (w # ws) = w @ c # join_with c ws"
  by (cases ws) auto

lemma join_split [simp]: "join_with c (split_on c s) = s"
proof (induction s)
  case Nil
  then show ?case by simp
next
  case (Cons x xs)
  obtain w ws where w: "split_on c xs = w # ws"
    by (cases "split_on c xs") auto
  show ?case
  proof (cases "x = c")
    case True
    then show ?thesis using Cons by (simp add: join_with_Cons)
  next
    case False
    then show ?thesis using Cons w by (cases ws) auto
  qed
qed

lemma split_join:
  "ws \<noteq> [] \<Longrightarrow> \<forall>w \<in> set ws. c \<notin> set w \<Longrightarrow> split_on c (join_with c ws) = ws"
proof (induction ws rule: join_with.induct)
  case (3 c w v ws)
  then show ?case by (simp add: split_on_append)
qed (auto simp: split_on_no_sep)

lemma join_with_inj:
  assumes "join_with c ws = join_with c vs" and "ws \<noteq> []" and "vs \<noteq> []"
    and "\<forall>w \<in> set ws. c \<notin> set w" and "\<forall>w \<in> set vs. c \<notin> set w"
  shows "ws = vs"
  using assms by (metis split_join)

lemma set_join_with:
  "x \<in> set (join_with c ws) \<Longrightarrow> x = c \<or> (\<exists>w \<in> set ws. x \<in> set w)"
  by (induction c ws rule: join_with.induct) auto

lemma join_with_append:
  "ws \<noteq> [] \<Longrightarrow> vs \<noteq> [] \<Longrightarrow> join_with c (ws @ vs) = join_with c ws @ c # join_with c vs"
proof (induction c ws rule: join_with.induct)
  case (2 c w)
  then show ?case by (simp add: join_with_Cons)
qed auto

lemma join_with_eq_Nil: "join_with c ws = [] \<longleftrightarrow> ws = [] \<or> ws = [[]]"
  by (induction c ws rule: join_with.induct) auto

lemma cut_found:
  "c \<in> set s \<Longrightarrow> cut c s = (b, a, f) \<Longrightarrow> s = b @ c # a \<and> f \<and> c \<notin> set b"
  unfolding cut_def
  by (induction s arbitrary: b) (auto split: if_splits)

lemma cut_append [simp]: "c \<notin> set b \<Longrightarrow> cut c (b @ c # a) = (b, a, True)"
  by (induction b) (auto simp: cut_def)

lemma cut_not_found [simp]: "c \<notin> set s \<Longrightarrow> cut c s = (s, [], False)"
  by (induction s) (auto simp: cut_def)

lemma trim_prefix_append [simp]: "trim_prefix p (p @ s) = s"
  by (simp add: trim_prefix_def)

lemma of_char_inj: "(of_char c :: nat) = of_char d \<longleftrightarrow> c = d"
  by (metis char_of_char)

text \<open>The joined form of one path lies below another's exactly when its components do.\<close>

lemma join_prefix_iff:
  assumes "ws \<noteq> []" and "vs \<noteq> []"
    and "\<forall>w \<in> set ws. c \<notin> set w" and "\<forall>w \<in> set vs. c \<notin> set w"
  shows "prefix (join_with c ws @ [c]) (join_with c vs) \<longleftrightarrow> strict_prefix ws vs"
proof
  assume "prefix (join_with c ws @ [c]) (join_with c vs)"
  then obtain r where r: "join_with c vs = join_with c ws @ c # r"
    by (auto simp: prefix_def)
  let ?us = "split_on c r"
  have "join_with c vs = join_with c (ws @ ?us)"
    using r assms(1) by (simp add: join_with_append)
  moreover have "\<forall>w \<in> set (ws @ ?us). c \<notin> set w"
    using assms(3) split_on_pieces by (metis Un_iff set_append)
  ultimately have "vs = ws @ ?us"
    using assms by (metis append_is_Nil_conv join_with_inj)
  then show "strict_prefix ws vs" by (simp add: strict_prefix_def)
next
  assume "strict_prefix ws vs"
  then obtain us where us: "vs = ws @ us" and "us \<noteq> []"
    by (auto simp: strict_prefix_def prefix_def)
  then have "join_with c vs = join_with c ws @ c # join_with c us"
    using assms(1) by (simp add: join_with_append)
  then show "prefix (join_with c ws @ [c]) (join_with c vs)"
    by (simp add: prefix_def)
qed

end
