(* ===== verification/Go_Paths.thy ===== *)
theory Go_Paths
  imports Prelude
begin

text \<open>
  Go's \<open>path\<close> and \<open>path/filepath\<close> on a Unix host, as far as the program uses them:
  \<open>Clean\<close>, \<open>Base\<close>, \<open>Dir\<close>, \<open>Join\<close>, \<open>IsAbs\<close>, \<open>Rel\<close> and \<open>IsLocal\<close>. On Unix
  the two packages agree, so there is one definition of each.

  The lemmas give every cleaned absolute path a list of components, and reduce what the
  program asks of two such paths to a question about their lists of components.
\<close>

section \<open>Definitions\<close>

text \<open>
  \<open>Clean\<close> drops empty and \<open>.\<close> elements, and lets \<open>..\<close> take away the element before it,
  or nothing at the top of a rooted path.
\<close>

definition elements :: "string \<Rightarrow> string list" where
  "elements p = filter (\<lambda>e. e \<noteq> [] \<and> e \<noteq> ''.'') (split_on slash p)"

definition clean_step :: "bool \<Rightarrow> string list \<Rightarrow> string \<Rightarrow> string list" where
  "clean_step rooted st e =
     (if e = ''..'' then
        (if st \<noteq> [] \<and> last st \<noteq> ''..'' then butlast st
         else if rooted then st
         else st @ [''..''])
      else st @ [e])"

definition is_abs :: "string \<Rightarrow> bool" where
  "is_abs p \<longleftrightarrow> prefix [slash] p"

definition path_clean :: "string \<Rightarrow> string" where
  "path_clean p =
     (let st = foldl (clean_step (is_abs p)) [] (elements p)
      in if is_abs p then slash # join_with slash st
         else if st = [] then ''.''
         else join_with slash st)"

text \<open>\<open>Base\<close>: the last element, trailing slashes stripped.\<close>

definition path_base :: "string \<Rightarrow> string" where
  "path_base p =
     (if p = [] then ''.''
      else (let stripped = rev (dropWhile (\<lambda>c. c = slash) (rev p));
                base = rev (takeWhile (\<lambda>c. c \<noteq> slash) (rev stripped))
            in if base = [] then [slash] else base))"

text \<open>\<open>Dir\<close>: all but what follows the last slash, cleaned.\<close>

definition path_dir :: "string \<Rightarrow> string" where
  "path_dir p = path_clean (rev (dropWhile (\<lambda>c. c \<noteq> slash) (rev p)))"

text \<open>\<open>Join\<close> of two elements: empty ones are ignored, and the result is cleaned.\<close>

definition path_join :: "string \<Rightarrow> string \<Rightarrow> string" where
  "path_join a b =
     (let parts = filter (\<lambda>e. e \<noteq> []) [a, b]
      in if parts = [] then [] else path_clean (join_with slash parts))"

text \<open>
  \<open>Rel\<close> walks base and target while their elements agree; what is left of the base is
  climbed out of, and what is left of the target descended into.
\<close>

definition first_element :: "string \<Rightarrow> string" where
  "first_element p = takeWhile (\<lambda>c. c \<noteq> slash) p"

definition other_elements :: "string \<Rightarrow> string" where
  "other_elements p = drop 1 (dropWhile (\<lambda>c. c \<noteq> slash) p)"

lemma other_elements_shorter: "p \<noteq> [] \<Longrightarrow> length (other_elements p) < length p"
proof -
  assume "p \<noteq> []"
  then have "0 < length p" by simp
  moreover have "length (dropWhile (\<lambda>c. c \<noteq> slash) p) \<le> length p"
    by (rule length_dropWhile_le)
  ultimately show ?thesis unfolding other_elements_def length_drop by linarith
qed

function rel_loop :: "string \<Rightarrow> string \<Rightarrow> string \<times> string \<times> string" where
  "rel_loop base targ =
     (if base = [] \<or> targ = [] then (base, targ, [])
      else if first_element base \<noteq> first_element targ then (base, targ, first_element base)
      else rel_loop (other_elements base) (other_elements targ))"
  by pat_completeness auto
termination
  by (relation "measure (\<lambda>(b, t). length b)") (auto simp: other_elements_shorter)

declare rel_loop.simps [simp del]

definition path_rel :: "string \<Rightarrow> string \<Rightarrow> string option" where
  "path_rel basepath targpath =
     (let b = path_clean basepath; t = path_clean targpath
      in if t = b then Some ''.''
         else (let base = (if b = ''.'' then [] else b) in
           if prefix [slash] base \<noteq> prefix [slash] t then None
           else (let (brest, trest, word) = rel_loop base t in
             if word = ''..'' then None
             else if brest \<noteq> [] then
               Some (''..'' @ concat (replicate (length (filter (\<lambda>c. c = slash) brest)) ''/..'') @
                     (if trest = [] then [] else slash # trest))
             else Some trest)))"

definition is_local :: "string \<Rightarrow> bool" where
  "is_local p \<longleftrightarrow>
     (if is_abs p \<or> p = [] then False
      else (let hasDots = (\<exists>e \<in> set (split_on slash p). e = ''.'' \<or> e = ''..'');
                q = (if hasDots then path_clean p else p)
            in q \<noteq> ''..'' \<and> \<not> prefix ''../'' q))"

section \<open>Components\<close>

text \<open>
  An ordinary element of a path, and the absolute path that a list of them names. Every
  cleaned absolute path is one of these, and the list is unique.
\<close>

definition ordinary :: "string \<Rightarrow> bool" where
  "ordinary e \<longleftrightarrow> e \<noteq> [] \<and> e \<noteq> ''.'' \<and> e \<noteq> ''..'' \<and> slash \<notin> set e"

abbreviation ordinaries :: "string list \<Rightarrow> bool" where
  "ordinaries es \<equiv> \<forall>e \<in> set es. ordinary e"

definition abs_path :: "string list \<Rightarrow> string" where
  "abs_path es = slash # join_with slash es"

named_theorems path_simps

lemma ordinary_no_slash: "ordinary e \<Longrightarrow> slash \<notin> set e"
  by (simp add: ordinary_def)

lemma is_abs_abs_path [simp, path_simps]: "is_abs (abs_path es)"
  by (simp add: is_abs_def abs_path_def)

lemma is_abs_Cons [simp]: "is_abs (c # p) \<longleftrightarrow> c = slash"
  by (auto simp: is_abs_def)

lemma is_abs_Nil [simp]: "\<not> is_abs []"
  by (simp add: is_abs_def)

lemma elements_ordinary: "e \<in> set (elements p) \<Longrightarrow> e = ''..'' \<or> ordinary e"
  by (auto simp: elements_def ordinary_def dest: split_on_pieces)

lemma elements_id: "ordinaries es \<Longrightarrow> elements (join_with slash es) = es"
proof (cases "es = []")
  case False
  moreover assume es: "ordinaries es"
  ultimately have "split_on slash (join_with slash es) = es"
    by (intro split_join) (auto simp: ordinary_def)
  then show ?thesis using es by (simp add: elements_def ordinary_def filter_id_conv)
qed (simp add: elements_def)

lemma elements_slash [simp]: "elements (slash # p) = elements p"
  by (simp add: elements_def)

lemma elements_abs_path: "ordinaries es \<Longrightarrow> elements (abs_path es) = es"
  by (simp add: abs_path_def elements_id)

lemma clean_step_rooted:
  "ordinaries st \<Longrightarrow> e = ''..'' \<or> ordinary e \<Longrightarrow> ordinaries (clean_step True st e)"
  by (auto simp: clean_step_def ordinary_def dest: in_set_butlastD)

lemma foldl_clean_step_rooted:
  "ordinaries st \<Longrightarrow> \<forall>e \<in> set es. e = ''..'' \<or> ordinary e \<Longrightarrow>
     ordinaries (foldl (clean_step True) st es)"
proof (induction es arbitrary: st)
  case (Cons e es)
  have "e = ''..'' \<or> ordinary e" using Cons.prems(2) by (meson list.set_intros(1))
  with Cons.prems(1) have "ordinaries (clean_step True st e)" by (rule clean_step_rooted)
  moreover have "\<forall>e \<in> set es. e = ''..'' \<or> ordinary e"
    using Cons.prems(2) by (meson list.set_intros(2))
  ultimately have "ordinaries (foldl (clean_step True) (clean_step True st e) es)"
    by (rule Cons.IH)
  then show ?case by (simp only: foldl_Cons)
qed simp

lemma foldl_clean_step_ordinary:
  "ordinaries es \<Longrightarrow> foldl (clean_step r) st es = st @ es"
  by (induction es arbitrary: st) (auto simp: clean_step_def ordinary_def)

text \<open>The components of an absolute path, after cleaning.\<close>

definition components :: "string \<Rightarrow> string list" where
  "components p = foldl (clean_step True) [] (elements p)"

lemma components_ordinary: "ordinaries (components p)"
  unfolding components_def
  by (rule foldl_clean_step_rooted) (auto dest: elements_ordinary)

lemma path_clean_abs: "is_abs p \<Longrightarrow> path_clean p = abs_path (components p)"
  by (simp add: path_clean_def components_def abs_path_def)

lemma components_abs_path [path_simps]: "ordinaries es \<Longrightarrow> components (abs_path es) = es"
  by (simp add: components_def elements_abs_path foldl_clean_step_ordinary)

lemma path_clean_abs_path [path_simps]: "ordinaries es \<Longrightarrow> path_clean (abs_path es) = abs_path es"
  by (simp add: path_clean_abs components_abs_path)

lemma path_clean_idem_abs: "is_abs p \<Longrightarrow> path_clean (path_clean p) = path_clean p"
  by (metis components_ordinary path_clean_abs path_clean_abs_path)

lemma abs_path_inj:
  assumes "abs_path es = abs_path fs" and "ordinaries es" and "ordinaries fs"
  shows "es = fs"
  using assms by (metis components_abs_path)

lemma clean_abs_cases:
  assumes "is_abs p" and "path_clean p = p"
  obtains es where "ordinaries es" and "p = abs_path es"
  using assms by (metis components_ordinary path_clean_abs)

lemma abs_path_Nil [simp]: "abs_path [] = ''/''"
  by (simp add: abs_path_def)

lemma abs_path_neq_Nil [simp]: "abs_path es \<noteq> []"
  by (simp add: abs_path_def)

lemma abs_path_append_single:
  "es \<noteq> [] \<Longrightarrow> abs_path (es @ [e]) = abs_path es @ slash # e"
  by (simp add: abs_path_def join_with_append)

text \<open>\<open>Join\<close> adds one component to an absolute path.\<close>

lemma split_on_snoc: "c \<notin> set e \<Longrightarrow> split_on c (s @ c # e) = split_on c s @ [e]"
  by (induction s) (auto simp: split_on_no_sep split: list.splits)

lemma path_join_abs_path [path_simps]:
  assumes "ordinaries es" and "ordinary e"
  shows "path_join (abs_path es) e = abs_path (es @ [e])"
proof -
  have e: "e \<noteq> []" "e \<noteq> ''.''" "slash \<notin> set e" using assms(2) by (auto simp: ordinary_def)
  have "elements (abs_path es @ slash # e) = elements (abs_path es) @ [e]"
    using e by (simp add: elements_def split_on_snoc)
  then have "components (abs_path es @ slash # e) = es @ [e]"
    using assms
    by (simp add: components_def elements_abs_path foldl_clean_step_ordinary)
       (simp add: clean_step_def ordinary_def)
  moreover have "is_abs (abs_path es @ slash # e)"
    by (simp add: abs_path_def)
  ultimately show ?thesis
    using e by (simp add: path_join_def path_clean_abs)
qed

lemma path_base_abs_path:
  assumes "ordinaries es" and "ordinary e"
  shows "path_base (abs_path (es @ [e])) = e"
proof -
  have e: "e \<noteq> []" "slash \<notin> set e" using assms(2) by (auto simp: ordinary_def)
  have p: "abs_path (es @ [e]) = (if es = [] then [] else abs_path es) @ slash # e"
    by (cases "es = []") (simp_all add: abs_path_append_single, simp add: abs_path_def)
  have "rev e \<noteq> []" "slash \<notin> set (rev e)" using e by auto
  then obtain c r where r: "rev e = c # r" "c \<noteq> slash"
    by (cases "rev e") auto
  have "dropWhile (\<lambda>c. c = slash) (rev e @ slash # x) = rev e @ slash # x" for x
    using r by simp
  moreover have "takeWhile (\<lambda>c. c \<noteq> slash) (rev e @ slash # x) = rev e" for x
    using e(2) by (auto simp: takeWhile_append)
  ultimately show ?thesis
    using e(1) by (simp add: path_base_def p)
qed

lemma path_base_root: "path_base ''/'' = ''/''"
  by (simp add: path_base_def)

lemma path_dir_abs_path:
  assumes "ordinaries es" and "ordinary e"
  shows "path_dir (abs_path (es @ [e])) = abs_path es"
proof -
  have e: "slash \<notin> set (rev e)" using assms(2) by (auto simp: ordinary_def)
  have dw: "dropWhile (\<lambda>c. c \<noteq> slash) (rev e @ slash # x) = slash # x" for x
    using e by (auto simp: dropWhile_append)
  show ?thesis
  proof (cases "es = []")
    case True
    then show ?thesis
      using dw [of "[]"] by (simp add: path_dir_def abs_path_def path_clean_def elements_def)
  next
    case False
    then have "path_dir (abs_path (es @ [e])) = path_clean (abs_path es @ [slash])"
      using dw by (simp add: path_dir_def abs_path_append_single)
    moreover have "elements (abs_path es @ [slash]) = es"
      using split_on_snoc [of slash "[]" "abs_path es"] elements_abs_path [OF assms(1)]
      by (simp add: elements_def)
    moreover from this have "components (abs_path es @ [slash]) = es"
      using assms(1) by (simp add: components_def foldl_clean_step_ordinary)
    moreover have "is_abs (abs_path es @ [slash])"
      by (simp add: abs_path_def)
    ultimately show ?thesis
      by (simp only: path_clean_abs)
  qed
qed

section \<open>Which paths lie within a prefix\<close>

text \<open>
  \<open>Rel\<close> between two cleaned absolute paths: the loop takes off the components they share.
\<close>

lemma takeWhile_no_sep: "c \<notin> set w \<Longrightarrow> takeWhile (\<lambda>x. x \<noteq> c) (w @ c # s) = w"
  by (induction w) auto

lemma dropWhile_no_sep: "c \<notin> set w \<Longrightarrow> dropWhile (\<lambda>x. x \<noteq> c) (w @ c # s) = c # s"
  by (induction w) auto

lemma rel_loop_Nil [simp]: "rel_loop [] t = ([], t, [])" "rel_loop b [] = (b, [], [])"
  by (simp_all add: rel_loop.simps)

lemma join_with_ordinary_first:
  assumes "ordinary w"
  shows "takeWhile (\<lambda>c. c \<noteq> slash) (join_with slash (w # ws)) = w"
    and "drop 1 (dropWhile (\<lambda>c. c \<noteq> slash) (join_with slash (w # ws))) = join_with slash ws"
    and "join_with slash (w # ws) \<noteq> []"
proof -
  have w: "slash \<notin> set w" "w \<noteq> []" using assms by (auto simp: ordinary_def)
  have tw: "takeWhile (\<lambda>c. c \<noteq> slash) w = w" and dw: "dropWhile (\<lambda>c. c \<noteq> slash) w = []"
    using w by (auto simp: takeWhile_eq_all_conv dropWhile_eq_Nil_conv)
  show "takeWhile (\<lambda>c. c \<noteq> slash) (join_with slash (w # ws)) = w"
    using w tw by (cases ws) (simp_all add: takeWhile_no_sep)
  show "drop 1 (dropWhile (\<lambda>c. c \<noteq> slash) (join_with slash (w # ws))) = join_with slash ws"
    using w(1) by (cases ws) (simp_all add: dropWhile_no_sep dw)
  show "join_with slash (w # ws) \<noteq> []"
    using w by (cases ws) simp_all
qed

lemma rel_loop_step:
  assumes "ordinary b" and "ordinary t"
  shows "rel_loop (join_with slash (b # bs)) (join_with slash (t # ts)) =
     (if b = t then rel_loop (join_with slash bs) (join_with slash ts)
      else (join_with slash (b # bs), join_with slash (t # ts), b))"
  using join_with_ordinary_first [OF assms(1), of bs] join_with_ordinary_first [OF assms(2), of ts]
  by (subst rel_loop.simps) (auto simp: first_element_def other_elements_def)

lemma rel_loop_components:
  assumes "ordinaries bs" and "ordinaries ts"
  shows "\<exists>brest trest word. rel_loop (join_with slash bs) (join_with slash ts) = (brest, trest, word) \<and>
     word \<noteq> ''..'' \<and>
     (if prefix bs ts then brest = [] \<and> trest = join_with slash (drop (length bs) ts) else brest \<noteq> [])"
  using assms
proof (induction bs arbitrary: ts)
  case Nil
  then show ?case by simp
next
  case (Cons b bs)
  show ?case
  proof (cases ts)
    case Nil
    then show ?thesis using Cons.prems by (simp add: join_with_ordinary_first)
  next
    case tcons: (Cons t tr)
    have o: "ordinary b" "ordinary t" using Cons.prems tcons by auto
    show ?thesis
    proof (cases "b = t")
      case True
      obtain brest trest word where
        "rel_loop (join_with slash bs) (join_with slash tr) = (brest, trest, word)"
        "word \<noteq> ''..''"
        "if prefix bs tr then brest = [] \<and> trest = join_with slash (drop (length bs) tr) else brest \<noteq> []"
        using Cons.IH [of tr] Cons.prems tcons by auto
      then show ?thesis
        using True tcons rel_loop_step [OF o, of bs tr]
        by (intro exI [of _ brest] exI [of _ trest] exI [of _ word]) simp
    next
      case False
      then show ?thesis
        using tcons rel_loop_step [OF o] o(1) join_with_ordinary_first(3) [OF o(1), of bs]
        by (simp add: ordinary_def)
    qed
  qed
qed

lemma rel_loop_abs_path:
  "rel_loop (abs_path bs) (abs_path ts) = rel_loop (join_with slash bs) (join_with slash ts)"
  by (subst rel_loop.simps) (simp add: abs_path_def first_element_def other_elements_def)

lemma is_local_ordinaries:
  assumes "ordinaries es" and "es \<noteq> []"
  shows "is_local (join_with slash es)"
proof -
  obtain e fs where es: "es = e # fs" using assms(2) by (cases es) auto
  have e: "ordinary e" using assms(1) es by simp
  have split: "split_on slash (join_with slash es) = es"
    using assms by (intro split_join) (auto simp: ordinary_def)
  have first: "takeWhile (\<lambda>c. c \<noteq> slash) (join_with slash es) = e"
    using join_with_ordinary_first(1) [OF e] es by simp
  have "\<not> is_abs (join_with slash es)"
  proof
    assume "is_abs (join_with slash es)"
    then have "takeWhile (\<lambda>c. c \<noteq> slash) (join_with slash es) = []"
      by (auto simp: is_abs_def prefix_def)
    with first e show False by (simp add: ordinary_def)
  qed
  moreover have "join_with slash es \<noteq> []"
    using join_with_ordinary_first(3) [OF e] es by simp
  moreover have "join_with slash es \<noteq> ''..''"
    using first e by (auto simp: ordinary_def)
  moreover have "\<not> prefix ''../'' (join_with slash es)"
    using first e by (auto simp: ordinary_def prefix_def)
  moreover have "\<not> (\<exists>f \<in> set es. f = ''.'' \<or> f = ''..'')"
    using assms(1) by (auto simp: ordinary_def)
  ultimately show ?thesis by (simp add: is_local_def split Let_def)
qed

lemma not_is_local_dotdot: "\<not> is_local (''..'' @ concat (replicate n ''/..'') @ r)"
  if "r = [] \<or> (\<exists>t. r = slash # t)"
proof -
  let ?p = "''..'' @ concat (replicate n ''/..'') @ r"
  define tail where "tail = concat (replicate n ''/..'') @ r"
  have tail: "tail = [] \<or> (\<exists>t. tail = slash # t)"
    using that unfolding tail_def by (cases n) auto
  have p: "?p = ''..'' @ tail" by (simp add: tail_def)
  have dots: "''..'' \<in> set (split_on slash ?p)"
    using tail p by (auto simp: split_on_no_sep)
  have "\<exists>u. elements ?p = ''..'' # u"
    using tail p by (auto simp: elements_def)
  then obtain u where u: "elements ?p = ''..'' # u" ..
  have nabs: "\<not> is_abs ?p" by simp
  have step: "\<exists>w. clean_step False (''..'' # v) e = ''..'' # w" for v e
    by (cases v rule: rev_cases) (auto simp: clean_step_def butlast_append)
  have fold: "\<exists>v. foldl (clean_step False) [''..''] es = ''..'' # v" for es
  proof (induction es rule: rev_induct)
    case (snoc e es)
    then obtain v where "foldl (clean_step False) [''..''] es = ''..'' # v" by blast
    then show ?case using step [of v e] by simp
  qed simp
  then obtain v where v: "foldl (clean_step False) [''..''] u = ''..'' # v" by blast
  have "path_clean ?p = join_with slash (''..'' # v)"
    using u v nabs by (simp add: path_clean_def clean_step_def)
  then have "path_clean ?p = ''..'' \<or> prefix ''../'' (path_clean ?p)"
    by (cases v) (auto simp: prefix_def)
  then show ?thesis using dots nabs by (auto simp: is_local_def Let_def)
qed

lemma path_rel_abs_path:
  assumes "ordinaries bs" and "ordinaries ts"
  shows "\<exists>r. path_rel (abs_path bs) (abs_path ts) = Some r \<and>
     (if bs = ts then r = ''.''
      else if prefix bs ts then r = join_with slash (drop (length bs) ts)
      else \<not> is_local r \<and> r \<noteq> ''.'')"
proof (cases "bs = ts")
  case True
  then show ?thesis using assms by (simp add: path_rel_def path_clean_abs_path)
next
  case False
  obtain brest trest word where loop:
    "rel_loop (join_with slash bs) (join_with slash ts) = (brest, trest, word)"
    "word \<noteq> ''..''"
    "if prefix bs ts then brest = [] \<and> trest = join_with slash (drop (length bs) ts) else brest \<noteq> []"
    using rel_loop_components [OF assms] by blast
  have neq: "abs_path ts \<noteq> abs_path bs"
    using False abs_path_inj assms by metis
  have dot: "abs_path bs \<noteq> ''.''" by (simp add: abs_path_def)
  have pre: "prefix [slash] (abs_path es)" for es
    by (simp add: abs_path_def)
  have eq: "path_rel (abs_path bs) (abs_path ts) =
     (if brest \<noteq> [] then
        Some (''..'' @ concat (replicate (length (filter (\<lambda>c. c = slash) brest)) ''/..'') @
              (if trest = [] then [] else slash # trest))
      else Some trest)"
    using assms neq loop(1,2)
    by (simp add: path_rel_def path_clean_abs_path rel_loop_abs_path Let_def pre dot)
  show ?thesis
  proof (cases "prefix bs ts")
    case True
    then show ?thesis using False eq loop(3) by simp
  next
    case np: False
    let ?r = "''..'' @ concat (replicate (length (filter (\<lambda>c. c = slash) brest)) ''/..'') @
              (if trest = [] then [] else slash # trest)"
    have "\<not> is_local ?r" by (rule not_is_local_dotdot) simp
    moreover have "?r \<noteq> ''.''" by simp
    ultimately show ?thesis using False np eq loop(3) by simp
  qed
qed

section \<open>Relative paths\<close>

text \<open>A path within a directory, and the directory itself.\<close>

definition rel_path :: "string list \<Rightarrow> string" where
  "rel_path es = (if es = [] then ''.'' else join_with slash es)"

lemma rel_path_not_abs:
  assumes "ordinaries es"
  shows "\<not> is_abs (rel_path es)"
proof (cases es)
  case Nil
  then show ?thesis by (simp add: rel_path_def)
next
  case (Cons e fs)
  then have "is_local (rel_path es)" using assms is_local_ordinaries by (simp add: rel_path_def)
  then show ?thesis by (auto simp: is_local_def split: if_splits)
qed

lemma elements_rel_path:
  assumes "ordinaries es"
  shows "elements (rel_path es) = es"
  using assms elements_id by (auto simp: rel_path_def elements_def)

lemma path_clean_rel_elements:
  assumes "elements p = es" and "ordinaries es" and "\<not> is_abs p"
  shows "path_clean p = rel_path es"
  using assms by (simp add: path_clean_def foldl_clean_step_ordinary rel_path_def)

lemma path_clean_rel_path [path_simps]: "ordinaries es \<Longrightarrow> path_clean (rel_path es) = rel_path es"
  using path_clean_rel_elements elements_rel_path rel_path_not_abs by blast

lemma is_local_rel_path [path_simps]:
  assumes "ordinaries es"
  shows "is_local (rel_path es)"
proof (cases "es = []")
  case True
  then show ?thesis by (simp add: rel_path_def is_local_def path_clean_def elements_def)
next
  case False
  then show ?thesis using assms is_local_ordinaries by (simp add: rel_path_def)
qed

lemma rel_path_neq_Nil:
  assumes "ordinaries es"
  shows "rel_path es \<noteq> []"
proof
  assume "rel_path es = []"
  then have "elements (rel_path es) = [] \<and> es \<noteq> []" by (auto simp: elements_def rel_path_def)
  then show False using elements_rel_path [OF assms] by simp
qed

lemma path_join_rel_path [path_simps]:
  assumes "ordinaries es" and "ordinary e"
  shows "path_join (rel_path es) e = rel_path (es @ [e])"
proof -
  have e: "e \<noteq> []" "e \<noteq> ''.''" "slash \<notin> set e" using assms(2) by (auto simp: ordinary_def)
  note ne = rel_path_neq_Nil [OF assms(1)]
  have "elements (rel_path es @ slash # e) = elements (rel_path es) @ [e]"
    using e by (simp add: elements_def split_on_snoc)
  then have "elements (rel_path es @ slash # e) = es @ [e]"
    by (simp add: elements_rel_path [OF assms(1)])
  moreover have "\<not> is_abs (rel_path es @ slash # e)"
    using rel_path_not_abs [OF assms(1)] ne by (cases "rel_path es") auto
  moreover have "ordinaries (es @ [e])" using assms by simp
  ultimately have "path_clean (rel_path es @ slash # e) = rel_path (es @ [e])"
    by (intro path_clean_rel_elements)
  then show ?thesis using e(1) ne by (simp add: path_join_def)
qed

lemma path_dir_rel_path [path_simps]:
  assumes "ordinaries es" and "ordinary e"
  shows "path_dir (rel_path (es @ [e])) = rel_path es"
proof -
  have e: "slash \<notin> set (rev e)" using assms(2) by (auto simp: ordinary_def)
  show ?thesis
  proof (cases "es = []")
    case True
    have d: "dropWhile (\<lambda>c. c \<noteq> slash) (rev e) = []" using e by (auto simp: dropWhile_eq_Nil_conv)
    have "path_dir e = path_clean []" unfolding path_dir_def d by simp
    then show ?thesis using True by (simp add: rel_path_def path_clean_def elements_def)
  next
    case False
    have "rev (rel_path (es @ [e])) = rev e @ slash # rev (rel_path es)"
      using False by (simp add: rel_path_def join_with_append)
    moreover have "dropWhile (\<lambda>c. c \<noteq> slash) (rev e @ slash # x) = slash # x" for x
      using e by (auto simp: dropWhile_append)
    ultimately have "path_dir (rel_path (es @ [e])) = path_clean (rel_path es @ [slash])"
      by (simp add: path_dir_def)
    moreover have "elements (rel_path es @ [slash]) = es"
      using split_on_snoc [of slash "[]" "rel_path es"] elements_rel_path [OF assms(1)]
      by (simp add: elements_def)
    moreover have "\<not> is_abs (rel_path es @ [slash])"
      using rel_path_not_abs [OF assms(1)] rel_path_neq_Nil [OF assms(1)] by (cases "rel_path es") auto
    ultimately show ?thesis using path_clean_rel_elements assms(1) by metis
  qed
qed

end
