(* ===== verification/Go_Url.thy ===== *)
theory Go_Url
  imports Go_Paths
begin

text \<open>
  Go's \<open>net/url\<close> (as of Go 1.26, the release \<open>go.mod\<close> names) and the part of
  \<open>net\<close> and \<open>net/netip\<close> it rests on: \<open>url.Parse\<close>, \<open>URL.String\<close>, the escaping of
  each part of a URL, and the textual forms of IP addresses.

  Bytes that need escaping depend on the part of the URL they stand in, so the escaping
  functions take a mode, as the library's do. The lemmas show that escaping a path and
  parsing the URL it stands in gives the path back, whatever bytes it holds.
\<close>

section \<open>Bytes\<close>

abbreviation ord :: "char \<Rightarrow> nat" where "ord c \<equiv> of_char c"

definition is_lower :: "char \<Rightarrow> bool" where "is_lower c \<longleftrightarrow> 97 \<le> ord c \<and> ord c \<le> 122"
definition is_upper :: "char \<Rightarrow> bool" where "is_upper c \<longleftrightarrow> 65 \<le> ord c \<and> ord c \<le> 90"
definition is_digit :: "char \<Rightarrow> bool" where "is_digit c \<longleftrightarrow> 48 \<le> ord c \<and> ord c \<le> 57"
definition is_control :: "char \<Rightarrow> bool" where "is_control c \<longleftrightarrow> ord c < 32 \<or> ord c = 127"

definition is_hex :: "char \<Rightarrow> bool" where
  "is_hex c \<longleftrightarrow> is_digit c \<or> 97 \<le> ord c \<and> ord c \<le> 102 \<or> 65 \<le> ord c \<and> ord c \<le> 70"

definition unhex :: "char \<Rightarrow> nat" where
  "unhex c = (if is_digit c then ord c - 48
              else if 97 \<le> ord c \<and> ord c \<le> 102 then ord c - 97 + 10
              else if 65 \<le> ord c \<and> ord c \<le> 70 then ord c - 65 + 10
              else 0)"

definition hex_digit :: "nat \<Rightarrow> char" where
  "hex_digit n = (if n < 10 then char_of (48 + n) else char_of (55 + n))"

lemmas byte_defs = is_lower_def is_upper_def is_digit_def is_control_def is_hex_def

lemma ord_bound [simp]: "ord c < 256"
  by (metis of_char_of of_char_mod_256 mod_less_divisor zero_less_numeral)

lemma ord_div_16 [simp]: "ord c div 16 < 16"
  using ord_bound [of c] by (intro less_mult_imp_div_less) simp

lemma ord_char_of [simp]: "n < 256 \<Longrightarrow> ord (char_of n) = n"
  by simp

lemma is_hex_hex_digit: "n < 16 \<Longrightarrow> is_hex (hex_digit n)"
  by (auto simp: hex_digit_def byte_defs)

lemma unhex_hex_digit: "n < 16 \<Longrightarrow> unhex (hex_digit n) = n"
  by (auto simp: hex_digit_def unhex_def byte_defs)

section \<open>Escaping\<close>

datatype encoding = EncodePath | EncodeUserPassword | EncodeHost | EncodeZone | EncodeQuery
  | EncodeFragment

definition should_escape :: "char \<Rightarrow> encoding \<Rightarrow> bool" where
  "should_escape c mode =
     (if is_lower c \<or> is_upper c \<or> is_digit c then False
      else if (mode = EncodeHost \<or> mode = EncodeZone) \<and>
              c \<in> set [CHR ''!'', CHR ''$'', CHR ''&'', CHR 0x27, CHR ''('', CHR '')'', CHR ''*'',
                       CHR ''+'', CHR '','', CHR '';'', CHR ''='', CHR '':'', CHR ''['', CHR '']'',
                       CHR ''<'', CHR ''>'', CHR 0x22] then False
      else if c \<in> set [CHR ''-'', CHR ''_'', CHR ''.'', CHR ''~''] then False
      else if c \<in> set [CHR ''$'', CHR ''&'', CHR ''+'', CHR '','', CHR ''/'', CHR '':'', CHR '';'',
                       CHR ''='', CHR ''?'', CHR ''@''] \<and> mode \<noteq> EncodeHost \<and> mode \<noteq> EncodeZone then
        (case mode of
           EncodePath \<Rightarrow> c = CHR ''?''
         | EncodeUserPassword \<Rightarrow> c = CHR ''@'' \<or> c = slash \<or> c = CHR ''?'' \<or> c = CHR '':''
         | EncodeQuery \<Rightarrow> True
         | _ \<Rightarrow> False)
      else if mode = EncodeFragment \<and> c \<in> set [CHR ''!'', CHR ''('', CHR '')'', CHR ''*''] then False
      else True)"

definition escape_char :: "encoding \<Rightarrow> char \<Rightarrow> string" where
  "escape_char mode c =
     (if should_escape c mode then
        (if c = space \<and> mode = EncodeQuery then ''+''
         else [CHR ''%'', hex_digit (ord c div 16), hex_digit (ord c mod 16)])
      else [c])"

definition escape :: "encoding \<Rightarrow> string \<Rightarrow> string" where
  "escape mode s = concat (map (escape_char mode) s)"

text \<open>
  Unescaping fails on a percent sign without two hex digits. In a host a percent sign may
  only stand for a byte beyond ASCII (or for itself, front a zone), and a byte the host
  would have to escape is refused.
\<close>

fun unescape :: "encoding \<Rightarrow> string \<Rightarrow> string option" where
  "unescape mode [] = Some []"
| "unescape mode (c # cs) =
     (if c = CHR ''%'' then
        (case cs of
           a # b # rest \<Rightarrow>
             (if \<not> is_hex a \<or> \<not> is_hex b then None
              else if mode = EncodeHost \<and> unhex a < 8 \<and> \<not> (a = CHR ''2'' \<and> b = CHR ''5'') then None
              else if mode = EncodeZone \<and> \<not> (a = CHR ''2'' \<and> b = CHR ''5'') \<and>
                      char_of (16 * unhex a + unhex b) \<noteq> space \<and>
                      should_escape (char_of (16 * unhex a + unhex b)) EncodeHost then None
              else map_option (Cons (char_of (16 * unhex a + unhex b))) (unescape mode rest))
         | _ \<Rightarrow> None)
      else if c = CHR ''+'' then
        map_option (Cons (if mode = EncodeQuery then space else c)) (unescape mode cs)
      else if (mode = EncodeHost \<or> mode = EncodeZone) \<and> ord c < 128 \<and> should_escape c mode then None
      else map_option (Cons c) (unescape mode cs))"

definition valid_encoded :: "encoding \<Rightarrow> string \<Rightarrow> bool" where
  "valid_encoded mode s \<longleftrightarrow>
     (\<forall>c \<in> set s. c \<in> set [CHR ''!'', CHR ''$'', CHR ''&'', CHR 0x27, CHR ''('', CHR '')'', CHR ''*'',
                              CHR ''+'', CHR '','', CHR '';'', CHR ''='', CHR '':'', CHR ''@'',
                              CHR ''['', CHR '']'', CHR ''%'']
                     \<or> \<not> should_escape c mode)"

section \<open>IP addresses\<close>

text \<open>A decimal octet has no leading zero and is at most 255.\<close>

definition digits_value :: "string \<Rightarrow> nat" where
  "digits_value s = foldl (\<lambda>n c. 10 * n + (ord c - 48)) 0 s"

definition valid_octet :: "string \<Rightarrow> bool" where
  "valid_octet s \<longleftrightarrow> s \<noteq> [] \<and> list_all is_digit s \<and> (hd s = CHR ''0'' \<longrightarrow> length s = 1) \<and>
     length s \<le> 3 \<and> digits_value s \<le> 255"

definition valid_ipv4 :: "string \<Rightarrow> bool" where
  "valid_ipv4 s \<longleftrightarrow> length (split_on (CHR ''.'') s) = 4 \<and> list_all valid_octet (split_on (CHR ''.'') s)"

text \<open>The groups of an IPv6 address: \<open>i\<close> bytes read so far, and whether \<open>::\<close> was seen.\<close>

definition ipv6_finish :: "nat \<Rightarrow> bool \<Rightarrow> string \<Rightarrow> bool" where
  "ipv6_finish i ell s \<longleftrightarrow> s = [] \<and> (if i < 16 then ell else \<not> ell)"

function ipv6_groups :: "nat \<Rightarrow> bool \<Rightarrow> string \<Rightarrow> bool" where
  "ipv6_groups i ell s =
     (if 16 \<le> i then ipv6_finish i ell s
      else (let off = length (takeWhile is_hex s); rest = drop off s in
        if off = 0 \<or> 4 < off then False
        else if prefix ''.'' rest then
          (ell \<or> i = 12) \<and> i + 4 \<le> 16 \<and> valid_ipv4 s \<and> ipv6_finish (i + 4) ell []
        else if rest = [] then ipv6_finish (i + 2) ell []
        else if hd rest \<noteq> CHR '':'' \<or> length rest = 1 then False
        else if hd (tl rest) = CHR '':'' then
          (if ell then False
           else if tl (tl rest) = [] then ipv6_finish (i + 2) True []
           else ipv6_groups (i + 2) True (tl (tl rest)))
        else ipv6_groups (i + 2) ell (tl rest)))"
  by pat_completeness auto
termination
  by (relation "measure (\<lambda>(i, ell, s). 16 - i)") auto

definition valid_ipv6 :: "string \<Rightarrow> bool" where
  "valid_ipv6 full =
     (let (s, zone, zoned) = cut (CHR ''%'') full in
      if zoned \<and> zone = [] then False
      else if prefix ''::'' s then
        (if drop 2 s = [] then True else ipv6_groups 0 True (drop 2 s))
      else ipv6_groups 0 False s)"

text \<open>\<open>netip.ParseAddr\<close>: the first dot, colon or percent sign says which form it is.\<close>

datatype ip_addr = IPv4 | IPv6

definition parse_addr :: "string \<Rightarrow> ip_addr option" where
  "parse_addr s =
     (case dropWhile (\<lambda>c. c \<noteq> CHR ''.'' \<and> c \<noteq> CHR '':'' \<and> c \<noteq> CHR ''%'') s of
        [] \<Rightarrow> None
      | c # _ \<Rightarrow> if c = CHR ''.'' then (if valid_ipv4 s then Some IPv4 else None)
                 else if c = CHR '':'' then (if valid_ipv6 s then Some IPv6 else None)
                 else None)"

text \<open>\<open>net.ParseIP\<close>, as whether it finds an address: a zone is not part of one.\<close>

definition parses_as_ip :: "string \<Rightarrow> bool" where
  "parses_as_ip s \<longleftrightarrow> parse_addr s \<noteq> None \<and> CHR ''%'' \<notin> set s"

section \<open>URLs\<close>

record url =
  u_scheme :: string
  u_opaque :: string
  u_user :: "(string \<times> string option) option"
  u_host :: string
  u_path :: string
  u_raw_path :: string
  u_omit_host :: bool
  u_force_query :: bool
  u_raw_query :: string
  u_fragment :: string
  u_raw_fragment :: string

definition empty_url :: url where
  "empty_url = \<lparr>u_scheme = [], u_opaque = [], u_user = None, u_host = [], u_path = [], u_raw_path = [],
     u_omit_host = False, u_force_query = False, u_raw_query = [], u_fragment = [], u_raw_fragment = []\<rparr>"

text \<open>\<open>None\<close> is a missing scheme before a colon; a URL without one is an empty scheme.\<close>

definition is_scheme_char :: "char \<Rightarrow> bool" where
  "is_scheme_char c \<longleftrightarrow> is_lower c \<or> is_upper c \<or> is_digit c \<or> c = CHR ''+'' \<or> c = CHR ''-'' \<or> c = CHR ''.''"

definition get_scheme :: "string \<Rightarrow> (string \<times> string) option" where
  "get_scheme raw =
     (let s = takeWhile is_scheme_char raw; rest = dropWhile is_scheme_char raw in
      if rest = [] \<or> hd rest \<noteq> CHR '':'' then Some ([], raw)
      else if s = [] then None
      else if is_lower (hd s) \<or> is_upper (hd s) then Some (s, tl rest)
      else Some ([], raw))"

definition valid_optional_port :: "string \<Rightarrow> bool" where
  "valid_optional_port p \<longleftrightarrow> p = [] \<or> hd p = CHR '':'' \<and> list_all is_digit (tl p)"

text \<open>\<open>strings.LastIndex\<close> of one byte, as what is before it and what is after it.\<close>

definition cut_last :: "'a \<Rightarrow> 'a list \<Rightarrow> 'a list \<times> 'a list \<times> bool" where
  "cut_last c s = (if c \<in> set s
     then (rev (drop 1 (dropWhile (\<lambda>x. x \<noteq> c) (rev s))), rev (takeWhile (\<lambda>x. x \<noteq> c) (rev s)), True)
     else ([], s, False))"

definition unescape_ip_literal :: "string \<Rightarrow> string option" where
  "unescape_ip_literal name =
     (let (front, _, _) = cut (CHR ''%'') name;
          zoned = prefix ''%25'' (drop (length front) name)
      in if zoned then
           (case (unescape EncodeHost front, unescape EncodeZone (drop (length front) name)) of
              (Some a, Some b) \<Rightarrow> Some (a @ b) | _ \<Rightarrow> None)
         else unescape EncodeHost name)"

definition parse_host :: "string \<Rightarrow> string option" where
  "parse_host host =
     (if CHR ''['' \<in> set host then
        (if hd host \<noteq> CHR ''['' \<or> CHR ''['' \<in> set (tl host) \<or> CHR '']'' \<notin> set host then None
         else (let (name, port, _) = cut_last (CHR '']'') (tl host) in
           if \<not> valid_optional_port port then None
           else (case (unescape EncodeHost port, unescape_ip_literal name) of
                   (Some p, Some n) \<Rightarrow>
                     if parse_addr n = Some IPv6 then Some (''['' @ n @ '']'' @ p) else None
                 | _ \<Rightarrow> None)))
      else if CHR '':'' \<in> set host \<and> \<not> valid_optional_port (dropWhile (\<lambda>c. c \<noteq> CHR '':'') host) then None
      else unescape EncodeHost host)"

definition valid_userinfo :: "string \<Rightarrow> bool" where
  "valid_userinfo s \<longleftrightarrow>
     (\<forall>c \<in> set s. is_lower c \<or> is_upper c \<or> is_digit c \<or>
        c \<in> set [CHR ''-'', CHR ''.'', CHR ''_'', CHR '':'', CHR ''~'', CHR ''!'', CHR ''$'', CHR ''&'',
                 CHR 0x27, CHR ''('', CHR '')'', CHR ''*'', CHR ''+'', CHR '','', CHR '';'', CHR ''='',
                 CHR ''%'', CHR ''@''])"

definition parse_authority :: "string \<Rightarrow> ((string \<times> string option) option \<times> string) option" where
  "parse_authority authority =
     (let (info, hostport, found) = cut_last (CHR ''@'') authority in
      case parse_host hostport of
        None \<Rightarrow> None
      | Some host \<Rightarrow>
          if \<not> found then Some (None, host)
          else if \<not> valid_userinfo info then None
          else (let (name, pass, has_pass) = cut (CHR '':'') info in
            if \<not> has_pass then
              map_option (\<lambda>u. (Some (u, None), host)) (unescape EncodeUserPassword info)
            else (case (unescape EncodeUserPassword name, unescape EncodeUserPassword pass) of
                    (Some u, Some p) \<Rightarrow> Some (Some (u, Some p), host) | _ \<Rightarrow> None)))"

definition set_path :: "string \<Rightarrow> url \<Rightarrow> url option" where
  "set_path p u =
     (case unescape EncodePath p of
        None \<Rightarrow> None
      | Some q \<Rightarrow> Some (u\<lparr>u_path := q, u_raw_path := (if p = escape EncodePath q then [] else p)\<rparr>))"

definition set_fragment :: "string \<Rightarrow> url \<Rightarrow> url option" where
  "set_fragment f u =
     (case unescape EncodeFragment f of
        None \<Rightarrow> None
      | Some q \<Rightarrow>
          Some (u\<lparr>u_fragment := q, u_raw_fragment := (if f = escape EncodeFragment q then [] else f)\<rparr>))"

definition split_query :: "string \<Rightarrow> string \<times> string \<times> bool" where
  "split_query rest =
     (if suffix ''?'' rest \<and> count_list rest (CHR ''?'') = 1 then (butlast rest, [], True)
      else (let (front, query, _) = cut (CHR ''?'') rest in (front, query, False)))"

definition parse_rest :: "url \<Rightarrow> string \<Rightarrow> url option" where
  "parse_rest u rest =
     (if \<not> prefix [slash] rest \<and> u_scheme u \<noteq> [] then Some (u\<lparr>u_opaque := rest\<rparr>)
      else if \<not> prefix [slash] rest \<and> CHR '':'' \<in> set (takeWhile (\<lambda>c. c \<noteq> slash) rest) then None
      else if (u_scheme u \<noteq> [] \<or> \<not> prefix ''///'' rest) \<and> prefix ''//'' rest then
        (let authority = takeWhile (\<lambda>c. c \<noteq> slash) (drop 2 rest);
             after = dropWhile (\<lambda>c. c \<noteq> slash) (drop 2 rest)
         in case parse_authority authority of
              None \<Rightarrow> None
            | Some (user, host) \<Rightarrow> set_path after (u\<lparr>u_user := user, u_host := host\<rparr>))
      else if u_scheme u \<noteq> [] \<and> prefix [slash] rest then set_path rest (u\<lparr>u_omit_host := True\<rparr>)
      else set_path rest u)"

definition url_parse :: "string \<Rightarrow> url option" where
  "url_parse raw =
     (let (u, frag, _) = cut (CHR ''#'') raw in
      if list_ex is_control u then None
      else (case (if u = ''*'' then Some (empty_url\<lparr>u_path := ''*''\<rparr>)
                  else (case get_scheme u of
                          None \<Rightarrow> None
                        | Some (scheme, rest) \<Rightarrow>
                            (let (front, query, force) = split_query rest in
                             parse_rest (empty_url\<lparr>u_scheme := to_lower scheme,
                                                   u_force_query := force,
                                                   u_raw_query := query\<rparr>) front))) of
              None \<Rightarrow> None
            | Some parsed \<Rightarrow> if frag = [] then Some parsed else set_fragment frag parsed))"

text \<open>\<open>EscapedPath\<close> keeps the spelling that was parsed while it still names the path.\<close>

definition escaped_path :: "url \<Rightarrow> string" where
  "escaped_path u =
     (if u_raw_path u \<noteq> [] \<and> valid_encoded EncodePath (u_raw_path u) \<and>
         unescape EncodePath (u_raw_path u) = Some (u_path u) then u_raw_path u
      else if u_path u = ''*'' then ''*''
      else escape EncodePath (u_path u))"

definition escaped_fragment :: "url \<Rightarrow> string" where
  "escaped_fragment u =
     (if u_raw_fragment u \<noteq> [] \<and> valid_encoded EncodeFragment (u_raw_fragment u) \<and>
         unescape EncodeFragment (u_raw_fragment u) = Some (u_fragment u) then u_raw_fragment u
      else escape EncodeFragment (u_fragment u))"

definition userinfo_string :: "string \<times> string option \<Rightarrow> string" where
  "userinfo_string ui =
     (case ui of (u, p) \<Rightarrow> escape EncodeUserPassword u @
        (case p of None \<Rightarrow> [] | Some pw \<Rightarrow> CHR '':'' # escape EncodeUserPassword pw))"

definition url_string :: "url \<Rightarrow> string" where
  "url_string u =
     (let sch = (if u_scheme u = [] then [] else u_scheme u @ '':'');
          auth = (if u_scheme u \<noteq> [] \<or> u_host u \<noteq> [] \<or> u_user u \<noteq> None then
                    (if u_omit_host u \<and> u_host u = [] \<and> u_user u = None then []
                     else (if u_host u \<noteq> [] \<or> u_path u \<noteq> [] \<or> u_user u \<noteq> None then ''//'' else []) @
                          (case u_user u of None \<Rightarrow> [] | Some ui \<Rightarrow> userinfo_string ui @ ''@'') @
                          escape EncodeHost (u_host u))
                  else []);
          p = escaped_path u;
          lead = (if p \<noteq> [] \<and> hd p \<noteq> slash \<and> u_host u \<noteq> [] then ''/'' else []);
          dot = (if sch @ auth @ lead = [] \<and> CHR '':'' \<in> set (takeWhile (\<lambda>c. c \<noteq> slash) p) then ''./'' else []);
          body = (if u_opaque u \<noteq> [] then sch @ u_opaque u else sch @ auth @ lead @ dot @ p)
      in body @
         (if u_force_query u \<or> u_raw_query u \<noteq> [] then CHR ''?'' # u_raw_query u else []) @
         (if u_fragment u \<noteq> [] then CHR ''#'' # escaped_fragment u else []))"

section \<open>Escaping is undone by unescaping\<close>

named_theorems url_simps

lemma unescape_escape_char:
  assumes "mode \<in> {EncodePath, EncodeQuery}"
  shows "unescape mode (escape_char mode c @ s) = map_option (Cons c) (unescape mode s)"
proof (cases "should_escape c mode")
  case True
  have h: "ord c div 16 < 16" "ord c mod 16 < 16"
    by simp_all
  have "char_of (16 * unhex (hex_digit (ord c div 16)) + unhex (hex_digit (ord c mod 16))) = c"
    using h by (simp add: unhex_hex_digit)
  then show ?thesis
    using assms True h by (auto simp: escape_char_def is_hex_hex_digit)
next
  case False
  have p: "should_escape (CHR ''%'') mode"
    using assms by (auto simp: should_escape_def byte_defs)
  have plus: "mode = EncodeQuery \<longrightarrow> should_escape (CHR ''+'') mode"
    by (auto simp: should_escape_def byte_defs)
  show ?thesis using False p plus assms by (auto simp: escape_char_def)
qed

lemma unescape_escape:
  assumes "mode \<in> {EncodePath, EncodeQuery}"
  shows "unescape mode (escape mode s) = Some s"
proof (induction s)
  case (Cons c s)
  then show ?case
    using unescape_escape_char [OF assms, of c "escape mode s"] by (simp add: escape_def)
qed (simp add: escape_def)

lemma unescape_escape_path [simp, url_simps]: "unescape EncodePath (escape EncodePath s) = Some s"
  by (rule unescape_escape) simp

text \<open>What the bytes of an escaped path can be.\<close>

lemma hex_digit_plain: "n < 16 \<Longrightarrow> is_digit (hex_digit n) \<or> is_upper (hex_digit n)"
  by (auto simp: hex_digit_def byte_defs)

lemma escape_path_bytes:
  assumes "x \<in> set (escape EncodePath s)"
  shows "x = CHR ''%'' \<or> \<not> should_escape x EncodePath"
proof -
  have esc: "ord c div 16 < 16" "ord c mod 16 < 16" for c
    by simp_all
  have plain: "is_digit y \<or> is_upper y \<Longrightarrow> \<not> should_escape y EncodePath" for y
    by (auto simp: should_escape_def)
  from assms show ?thesis
    unfolding escape_def escape_char_def
    using esc hex_digit_plain plain by (auto split: if_splits)
qed

lemma not_should_escape_path_ord:
  assumes "\<not> should_escape x EncodePath"
  shows "\<not> is_control x" "x \<noteq> CHR ''#''" "x \<noteq> CHR ''?''" "x \<noteq> space" "x \<noteq> CHR ''%''"
proof -
  have "should_escape x EncodePath" if "is_control x"
  proof -
    have "\<not> is_lower x" "\<not> is_upper x" "\<not> is_digit x"
      using that by (auto simp: byte_defs)
    moreover have "x \<notin> set [CHR ''-'', CHR ''_'', CHR ''.'', CHR ''~'']"
      using that by (auto simp: is_control_def)
    moreover have "x \<notin> set [CHR ''$'', CHR ''&'', CHR ''+'', CHR '','', CHR ''/'', CHR '':'', CHR '';'',
                       CHR ''='', CHR ''?'', CHR ''@'']"
      using that by (auto simp: is_control_def)
    ultimately show ?thesis unfolding should_escape_def by simp
  qed
  then show "\<not> is_control x" using assms by blast
  show "x \<noteq> CHR ''#''" "x \<noteq> CHR ''?''" "x \<noteq> space" "x \<noteq> CHR ''%''"
    using assms by (auto simp: should_escape_def byte_defs)
qed

lemma escape_path_plain:
  assumes "x \<in> set (escape EncodePath s)"
  shows "\<not> is_control x" "x \<noteq> CHR ''#''" "x \<noteq> CHR ''?''"
  using escape_path_bytes [OF assms] not_should_escape_path_ord [of x]
  by (auto simp: byte_defs)

lemma escape_Cons_plain: "\<not> should_escape c mode \<Longrightarrow> escape mode (c # s) = c # escape mode s"
  by (simp add: escape_def escape_char_def)

lemma escape_append: "escape mode (s @ t) = escape mode s @ escape mode t"
  by (simp add: escape_def)

lemma escape_slash [simp]: "escape EncodePath (slash # s) = slash # escape EncodePath s"
  by (rule escape_Cons_plain) (simp add: should_escape_def byte_defs)

lemma escape_eq_Nil [simp]: "escape mode s = [] \<longleftrightarrow> s = []"
  by (cases s) (simp_all add: escape_def escape_char_def)

section \<open>A scheme, a plain host and an escaped path parse as what they were\<close>

text \<open>Hosts of letters, digits, dots and hyphens stand for themselves in a URL.\<close>

definition plain_host :: "string \<Rightarrow> bool" where
  "plain_host h \<longleftrightarrow> (\<forall>c \<in> set h. is_lower c \<or> is_digit c \<or> c = CHR ''.'' \<or> c = CHR ''-'')"

lemma plain_host_byte:
  assumes "is_lower c \<or> is_digit c \<or> c = CHR ''.'' \<or> c = CHR ''-''"
  shows "c \<noteq> CHR ''%''" "c \<noteq> CHR ''+''" "c \<noteq> CHR ''@''" "c \<noteq> CHR ''[''" "c \<noteq> CHR '':''" "c \<noteq> slash"
    "c \<noteq> CHR ''?''" "c \<noteq> CHR ''#''" "\<not> is_control c" "\<not> should_escape c EncodeHost"
  using assms by (auto simp: byte_defs should_escape_def)

lemma plain_host_not_in:
  assumes "plain_host h"
  shows "CHR ''@'' \<notin> set h" "CHR ''['' \<notin> set h" "CHR '':'' \<notin> set h" "slash \<notin> set h"
    "CHR ''?'' \<notin> set h" "CHR ''#'' \<notin> set h" "\<not> list_ex is_control h"
  using assms plain_host_byte unfolding plain_host_def list_ex_iff by metis+

lemma unescape_plain_host: "plain_host h \<Longrightarrow> unescape EncodeHost h = Some h"
proof (induction h)
  case (Cons c h)
  then have "is_lower c \<or> is_digit c \<or> c = CHR ''.'' \<or> c = CHR ''-''"
    by (simp add: plain_host_def)
  then show ?case
    using Cons plain_host_byte [of c] by (simp add: plain_host_def)
qed simp

lemma escape_plain_host: "plain_host h \<Longrightarrow> escape EncodeHost h = h"
proof (induction h)
  case (Cons c h)
  then have "is_lower c \<or> is_digit c \<or> c = CHR ''.'' \<or> c = CHR ''-''"
    by (simp add: plain_host_def)
  then show ?case
    using Cons plain_host_byte(10) [of c] by (simp add: plain_host_def escape_Cons_plain)
qed (simp add: escape_def)

lemma parse_host_plain: "plain_host h \<Longrightarrow> parse_host h = Some h"
  by (simp add: parse_host_def unescape_plain_host plain_host_not_in)

lemma parse_authority_plain: "plain_host h \<Longrightarrow> parse_authority h = Some (None, h)"
  by (simp add: parse_authority_def cut_last_def parse_host_plain plain_host_not_in)

text \<open>A scheme of lower-case letters and digits, the first a letter.\<close>

definition plain_scheme :: "string \<Rightarrow> bool" where
  "plain_scheme s \<longleftrightarrow> s \<noteq> [] \<and> is_lower (hd s) \<and> (\<forall>c \<in> set s. is_lower c \<or> is_digit c)"

lemma plain_scheme_byte:
  "is_lower c \<or> is_digit c \<Longrightarrow>
     is_scheme_char c \<and> lower_char c = c \<and> \<not> is_control c \<and> c \<noteq> CHR ''#'' \<and> c \<noteq> CHR ''?'' \<and> c \<noteq> CHR ''*''"
  by (auto simp: is_scheme_char_def lower_char_def byte_defs)

lemma takeWhile_scheme:
  assumes "\<forall>c \<in> set s. is_lower c \<or> is_digit c"
  shows "takeWhile is_scheme_char (s @ CHR '':'' # r) = s"
    and "dropWhile is_scheme_char (s @ CHR '':'' # r) = CHR '':'' # r"
proof -
  have "\<forall>c \<in> set s. is_scheme_char c" using assms plain_scheme_byte by blast
  moreover have "\<not> is_scheme_char (CHR '':'')"
    by (simp add: is_scheme_char_def byte_defs)
  ultimately show "takeWhile is_scheme_char (s @ CHR '':'' # r) = s"
    and "dropWhile is_scheme_char (s @ CHR '':'' # r) = CHR '':'' # r"
    by (simp_all add: takeWhile_append dropWhile_append)
qed

lemma get_scheme_plain: "plain_scheme s \<Longrightarrow> get_scheme (s @ CHR '':'' # r) = Some (s, r)"
  using takeWhile_scheme [of s r] by (simp add: plain_scheme_def get_scheme_def Let_def)

lemma to_lower_plain: "plain_scheme s \<Longrightarrow> to_lower s = s"
  unfolding plain_scheme_def to_lower_def using plain_scheme_byte by (simp add: map_idI)

lemma split_query_none:
  assumes "CHR ''?'' \<notin> set rest"
  shows "split_query rest = (rest, [], False)"
  using assms by (simp add: split_query_def count_list_0_iff)

lemma takeWhile_upto_slash:
  "slash \<notin> set h \<Longrightarrow> prefix [slash] p \<Longrightarrow> takeWhile (\<lambda>c. c \<noteq> slash) (h @ p) = h"
  by (cases p) (auto simp: takeWhile_append)

lemma dropWhile_upto_slash:
  "slash \<notin> set h \<Longrightarrow> prefix [slash] p \<Longrightarrow> dropWhile (\<lambda>c. c \<noteq> slash) (h @ p) = p"
  by (cases p) (auto simp: dropWhile_append)

lemma parse_rest_plain:
  assumes "u_scheme u \<noteq> []" and "plain_host h" and "prefix [slash] p"
  shows "parse_rest u (''//'' @ h @ escape EncodePath p) =
           Some (u\<lparr>u_user := None, u_host := h, u_path := p, u_raw_path := []\<rparr>)"
proof -
  let ?e = "escape EncodePath p"
  have e: "prefix [slash] ?e" using assms(3) by (cases p) auto
  have tw: "takeWhile (\<lambda>c. c \<noteq> slash) (h @ ?e) = h" and dw: "dropWhile (\<lambda>c. c \<noteq> slash) (h @ ?e) = ?e"
    using assms(2) e plain_host_not_in(4) takeWhile_upto_slash dropWhile_upto_slash by blast+
  show ?thesis
    using assms(1) parse_authority_plain [OF assms(2)]
    by (simp add: parse_rest_def tw dw set_path_def)
qed

theorem url_parse_plain:
  assumes "plain_scheme s" and "plain_host h" and "prefix [slash] p"
  shows "url_parse (s @ ''://'' @ h @ escape EncodePath p) =
           Some (empty_url\<lparr>u_scheme := s, u_host := h, u_path := p\<rparr>)"
proof -
  let ?e = "escape EncodePath p"
  let ?raw = "s @ ''://'' @ h @ ?e"
  have s: "\<forall>c \<in> set s. is_lower c \<or> is_digit c" and sne: "s \<noteq> []"
    using assms(1) by (auto simp: plain_scheme_def)
  have sb: "CHR ''#'' \<notin> set s" "CHR ''?'' \<notin> set s" "\<not> list_ex is_control s"
    using s plain_scheme_byte unfolding list_ex_iff by blast+
  have eb: "CHR ''#'' \<notin> set ?e" "CHR ''?'' \<notin> set ?e" "\<not> list_ex is_control ?e"
    using escape_path_plain unfolding list_ex_iff by blast+
  have hash: "CHR ''#'' \<notin> set ?raw"
    using sb eb plain_host_not_in [OF assms(2)] by simp
  have ctl: "\<not> list_ex is_control ?raw"
    using sb eb plain_host_not_in [OF assms(2)] by (simp add: byte_defs)
  have star: "?raw \<noteq> ''*''" using sne by (cases s) auto
  have scheme: "get_scheme ?raw = Some (s, ''//'' @ h @ ?e)"
    using get_scheme_plain [OF assms(1), of "''//'' @ h @ ?e"] by simp
  have query: "split_query (''//'' @ h @ ?e) = (''//'' @ h @ ?e, [], False)"
    using eb plain_host_not_in [OF assms(2)] by (intro split_query_none) simp
  have rest: "parse_rest (empty_url\<lparr>u_scheme := s, u_force_query := False, u_raw_query := []\<rparr>)
                (''//'' @ h @ ?e) =
      Some (empty_url\<lparr>u_scheme := s, u_force_query := False, u_raw_query := [], u_user := None,
                       u_host := h, u_path := p, u_raw_path := []\<rparr>)"
    using sne assms(2,3) by (intro parse_rest_plain) simp_all
  show ?thesis
    unfolding url_parse_def cut_not_found [OF hash] Let_def prod.case
    using ctl star scheme query rest to_lower_plain [OF assms(1)]
    by (simp add: empty_url_def)
qed

text \<open>The string of a URL made of those three parts.\<close>

lemma url_string_plain:
  assumes "s \<noteq> []" and "plain_host h" and "prefix [slash] p"
  shows "url_string (empty_url\<lparr>u_scheme := s, u_host := h, u_path := p\<rparr>) =
           s @ ''://'' @ h @ escape EncodePath p"
proof -
  have p: "p \<noteq> []" "p \<noteq> ''*''" "escape EncodePath p \<noteq> []" "hd (escape EncodePath p) = slash"
    using assms(3) by (cases p; auto)+
  show ?thesis
    using assms(1) p escape_plain_host [OF assms(2)]
    by (simp add: url_string_def escaped_path_def empty_url_def)
qed

end
