(* ===== verification/Config.thy ===== *)
theory Config
  imports Go_Url
begin

text \<open>
  The configuration: \<open>server/internal/config/config.go\<close>. The data a deployment, an
  authentication backend or a directory listing states, and every check the program makes
  of it. A function of the code that returns only an \<open>error\<close> returns \<open>config_error option\<close>
  here, \<open>None\<close> for \<open>nil\<close>; an error keeps the fixed text of its message, and what it was
  wrapped in, but not the values formatted into it.

  What the code asks of \<open>golang.org/x/crypto\<close> (is this a bcrypt hash, does this line hold a
  public key) is the parameter \<open>crypto\<close>.
\<close>

section \<open>Errors\<close>

datatype config_error = Err string | Within string config_error

definition check :: "bool \<Rightarrow> string \<Rightarrow> config_error option" where
  "check bad msg = (if bad then Some (Err msg) else None)"

text \<open>A sequence of checks, each returning early with its error.\<close>

fun first_error :: "'e option list \<Rightarrow> 'e option" where
  "first_error [] = None"
| "first_error (None # xs) = first_error xs"
| "first_error (Some e # xs) = Some e"

lemma first_error_None [simp]: "first_error xs = None \<longleftrightarrow> (\<forall>x \<in> set xs. x = None)"
  by (induction xs rule: first_error.induct) auto

lemma check_None [simp]: "check b m = None \<longleftrightarrow> \<not> b"
  by (simp add: check_def)

section \<open>Data\<close>

text \<open>A \<open>time.Time\<close> is an instant, counted in nanoseconds from the Unix epoch.\<close>

type_synonym instant = int

record s3_access =
  Region :: string
  Endpoint :: string
  PathStyle :: "bool option"
  AccessKeyID :: string
  SecretAccessKey :: string
  SessionToken :: string

text \<open>\<open>S3Bucket\<close> embeds \<open>S3Access\<close>, as a record extends another.\<close>

record s3_bucket = s3_access +
  Bucket :: string
  UseDefaultCredentials :: bool

text \<open>
  An \<open>Entry\<close> is its fields and its \<open>Children\<close>, entries themselves. \<open>vfs.Node\<close> is the same
  type. An absent slice and an empty one are not told apart anywhere in the code.
\<close>

record attrs =
  Directory :: string
  File :: string
  Backend :: string
  AllowedMethods :: "string list"
  Size :: int64
  Mtime :: "instant option"
  Permissions :: "uint32 option"
  S3 :: "s3_access option"
  MaxUploadSize :: int64

datatype entry = Entry (attrs_of: attrs) (Children: "entry list")

record root_fs =
  RootBackend :: string
  RootAllowedMethods :: "string list"
  RootPermissions :: "uint32 option"
  RootS3 :: "s3_access option"
  RootChildren :: "entry list"
  RootMaxUploadSize :: int64

record user =
  Username :: string
  PasswordHash :: string
  AuthorizedKeys :: "string list"
  ClientAliveMs :: int64
  ClientAliveCountMax :: "int64 option"
  MaxConcurrentUploads :: int64
  Headers :: "(string \<times> string) list option"
  RootFS :: root_fs

record auth_backend =
  BaseURL :: string
  URL :: string
  AuthHeaders :: "(string \<times> string) list"
  TimeoutMs :: "int64 option"

record config =
  HostKeyFile :: string
  Port :: int64
  BindAddress :: string
  UploadStagingDir :: string
  LoginGraceMs :: "int64 option"
  AuthBackend :: "auth_backend option"
  FileBackend :: "string list option"
  S3Backend :: "s3_bucket list option"
  Users :: "user list"

record crypto =
  bcrypt_cost :: "string \<Rightarrow> bool"
  parse_authorized_key :: "string \<Rightarrow> string option"

abbreviation entry_backend :: "entry \<Rightarrow> string" where
  "entry_backend e \<equiv> Backend (attrs_of e)"

definition no_attrs :: attrs where
  "no_attrs = \<lparr>Directory = [], File = [], Backend = [], AllowedMethods = [], Size = 0, Mtime = None,
     Permissions = None, S3 = None, MaxUploadSize = 0\<rparr>"

section \<open>Durations and limits\<close>

text \<open>
  \<open>Millis\<close> and \<open>time.Duration\<close> are both 64-bit integers, and the multiplication that turns
  one into the other wraps around.
\<close>

type_synonym duration = int64

definition millis_duration :: "int64 \<Rightarrow> duration" where
  "millis_duration m = m * 1000000"

definition smax :: "int64 \<Rightarrow> int64 \<Rightarrow> int64" where
  "smax a b = (if sint a < sint b then b else a)"

definition default_login_grace :: duration where "default_login_grace = 120 * 1000000000"
definition default_client_alive_count_max :: int64 where "default_client_alive_count_max = 3"
definition default_auth_backend_timeout :: duration where "default_auth_backend_timeout = 30 * 1000000000"

definition login_grace :: "config \<Rightarrow> duration" where
  "login_grace c = (case LoginGraceMs c of None \<Rightarrow> default_login_grace | Some m \<Rightarrow> millis_duration m)"

definition request_timeout :: "auth_backend option \<Rightarrow> duration" where
  "request_timeout a =
     (case a of None \<Rightarrow> default_auth_backend_timeout
      | Some b \<Rightarrow> (case TimeoutMs b of None \<Rightarrow> default_auth_backend_timeout
                   | Some m \<Rightarrow> millis_duration m))"

definition client_alive :: "user \<Rightarrow> duration \<times> int64" where
  "client_alive u =
     (let countMax = (case ClientAliveCountMax u of
                        None \<Rightarrow> default_client_alive_count_max
                      | Some n \<Rightarrow> smax n 0)
      in (smax (millis_duration (ClientAliveMs u)) 0, countMax))"

definition upload_concurrency_limit :: "user \<Rightarrow> int64" where
  "upload_concurrency_limit u = smax (MaxConcurrentUploads u) 0"

section \<open>Names, buckets and backend URLs\<close>

definition use_path_style :: "('a) s3_access_scheme \<Rightarrow> bool" where
  "use_path_style a = (case PathStyle a of Some b \<Rightarrow> b | None \<Rightarrow> Endpoint a \<noteq> [])"

text \<open>What \<open>LogValue\<close> lets be logged of an access: whether it has credentials, and not which.\<close>

definition log_value :: "('a) s3_access_scheme \<Rightarrow> (string \<times> string) list" where
  "log_value a =
     [(''region'', Region a), (''endpoint'', Endpoint a),
      (''credentials'', if AccessKeyID a \<noteq> [] then ''[redacted]'' else ''none'')]"

definition find_bucket :: "s3_bucket list option \<Rightarrow> string \<Rightarrow> s3_bucket option" where
  "find_bucket s name = (case s of None \<Rightarrow> None | Some bs \<Rightarrow> List.find (\<lambda>b. Bucket b = name) bs)"

definition valid_name :: "string \<Rightarrow> bool" where
  "valid_name name \<longleftrightarrow> name \<noteq> [] \<and> name \<noteq> ''.'' \<and> name \<noteq> ''..'' \<and>
     \<not> (\<exists>c \<in> set name. c = slash \<or> c = backslash \<or> c = nul) \<and> path_base name = name"

definition root_entry :: "root_fs \<Rightarrow> entry" where
  "root_entry r =
     Entry (no_attrs\<lparr>Directory := ''/'', Backend := RootBackend r, AllowedMethods := RootAllowedMethods r,
                     Permissions := RootPermissions r, S3 := RootS3 r, MaxUploadSize := RootMaxUploadSize r\<rparr>)
           (RootChildren r)"

definition is_directory :: "entry \<Rightarrow> bool" where
  "is_directory e \<longleftrightarrow> Directory (attrs_of e) \<noteq> []"

definition entry_name :: "entry \<Rightarrow> string" where
  "entry_name e = (if Directory (attrs_of e) \<noteq> [] then Directory (attrs_of e) else File (attrs_of e))"

definition file_scheme :: string where "file_scheme = ''file''"
definition s3_scheme :: string where "s3_scheme = ''s3''"

definition valid_bucket_name :: "string \<Rightarrow> bool" where
  "valid_bucket_name name \<longleftrightarrow>
     \<not> (length name < 3 \<or> 63 < length name \<or> parses_as_ip name) \<and>
     (\<forall>index < length name.
        (let c = name ! index in
         if is_lower c \<or> is_digit c then True
         else if c \<noteq> CHR ''-'' \<and> c \<noteq> CHR ''.'' then False
         else if index = 0 \<or> index = length name - 1 then False
         else if name ! (index - 1) = CHR ''.'' \<or> name ! (index - 1) = CHR ''-'' then False
         else True))"

text \<open>What a URL must not carry to name a bare place.\<close>

definition carries_more :: "url \<Rightarrow> bool" where
  "carries_more u \<longleftrightarrow> u_opaque u \<noteq> [] \<or> u_user u \<noteq> None \<or> u_fragment u \<noteq> [] \<or>
     u_raw_query u \<noteq> [] \<or> u_force_query u"

definition s3_location :: "string \<Rightarrow> (string \<times> string) option" where
  "s3_location raw =
     (case url_parse raw of
        None \<Rightarrow> None
      | Some parsed \<Rightarrow>
          if u_scheme parsed \<noteq> s3_scheme then None
          else if carries_more parsed then None
          else if \<not> valid_bucket_name (u_host parsed) then None
          else (let segments = split_on slash (trim_all slash (u_path parsed)) in
            if length segments = 1 \<and> hd segments = [] then Some (u_host parsed, [])
            else if \<not> list_all valid_name segments then None
            else Some (u_host parsed, join_with slash segments)))"

definition local_path :: "string \<Rightarrow> string option" where
  "local_path raw =
     (case url_parse raw of
        None \<Rightarrow> None
      | Some parsed \<Rightarrow>
          if u_scheme parsed \<noteq> file_scheme then None
          else if u_host parsed \<noteq> [] \<and> u_host parsed \<noteq> ''localhost'' then None
          else if carries_more parsed then None
          else if \<not> prefix [slash] (u_path parsed) then None
          else Some (path_clean (u_path parsed)))"

definition validate_backend_url :: "string \<Rightarrow> config_error option" where
  "validate_backend_url raw =
     (case url_parse raw of
        None \<Rightarrow> Some (Err ''invalid backend URL'')
      | Some parsed \<Rightarrow>
          if u_scheme parsed = [] then Some (Err ''invalid backend URL'')
          else if u_user parsed \<noteq> None \<or> u_fragment parsed \<noteq> [] then
            Some (Err ''backend URL must not contain credentials or a fragment'')
          else if u_scheme parsed = ''http'' \<or> u_scheme parsed = ''https'' then
            check (u_host parsed = []) ''invalid backend URL''
          else if u_scheme parsed = file_scheme then
            check (local_path raw = None)
              ''file backend URL must name a local absolute path and nothing else''
          else if u_scheme parsed = s3_scheme then
            check (s3_location raw = None)
              ''s3 backend URL must name a bucket and an object key and nothing else''
          else Some (Err ''backend URL must use http, https, file, or s3''))"

definition http_methods :: "string list" where
  "http_methods = [''GET'', ''POST'', ''DELETE'']"

definition s3_methods :: "string list" where
  "s3_methods = [''ListObjectsV2'', ''GetObject'', ''PutObject'', ''DeleteObject'', ''CopyObject'']"

fun method_loop :: "string list \<Rightarrow> string list \<Rightarrow> string list \<Rightarrow> config_error option" where
  "method_loop supported earlier [] = None"
| "method_loop supported earlier (m # ms) =
     first_error [check (m \<notin> set supported) ''unsupported allowed method'',
                  check (m \<in> set earlier) ''duplicate allowed method'',
                  method_loop supported (earlier @ [m]) ms]"

definition validate_methods :: "string list \<Rightarrow> string \<Rightarrow> config_error option" where
  "validate_methods methods backend =
     (if methods = [] then None
      else if backend = [] then Some (Err ''allowedMethods requires a backend'')
      else if local_path backend \<noteq> None then
        Some (Err ''allowedMethods does not apply to a file backend; use permissions'')
      else method_loop (if s3_location backend \<noteq> None then s3_methods else http_methods) [] methods)"

definition validate_permissions :: "uint32 option \<Rightarrow> string \<Rightarrow> config_error option" where
  "validate_permissions permissions backend =
     (case permissions of
        None \<Rightarrow> None
      | Some p \<Rightarrow>
          if 511 < p then Some (Err ''permissions must contain only permission bits'')
          else check (s3_location backend \<noteq> None)
                 ''permissions does not apply to an s3 backend; use allowedMethods'')"

definition validate_reachable :: "('a) s3_access_scheme \<Rightarrow> config_error option" where
  "validate_reachable a =
     (if Region a = [] then Some (Err ''region is required'')
      else if Endpoint a = [] then None
      else (case url_parse (Endpoint a) of
              None \<Rightarrow> Some (Err ''endpoint must be an http or https URL'')
            | Some parsed \<Rightarrow>
                if u_host parsed = [] \<or> u_scheme parsed \<noteq> ''http'' \<and> u_scheme parsed \<noteq> ''https''
                then Some (Err ''endpoint must be an http or https URL'')
                else check (u_user parsed \<noteq> None \<or> u_raw_query parsed \<noteq> [] \<or> u_fragment parsed \<noteq> [])
                       ''endpoint must not contain credentials, a query, or a fragment''))"

definition s3_access_validate :: "('a) s3_access_scheme \<Rightarrow> config_error option" where
  "s3_access_validate a =
     first_error [validate_reachable a,
                  check (AccessKeyID a = [] \<or> SecretAccessKey a = [])
                    ''accessKeyId and secretAccessKey are both required'']"

definition s3_bucket_validate :: "s3_bucket \<Rightarrow> config_error option" where
  "s3_bucket_validate b =
     (if \<not> valid_bucket_name (Bucket b) then Some (Err ''invalid bucket name'')
      else if UseDefaultCredentials b then
        (if AccessKeyID b \<noteq> [] \<or> SecretAccessKey b \<noteq> [] \<or> SessionToken b \<noteq> [] then
           Some (Err ''useDefaultCredentials cannot be combined with an access key'')
         else validate_reachable b)
      else s3_access_validate b)"

fun s3_bucket_loop :: "s3_bucket list \<Rightarrow> s3_bucket list \<Rightarrow> config_error option" where
  "s3_bucket_loop earlier [] = None"
| "s3_bucket_loop earlier (b # bs) =
     first_error [map_option (Within ''buckets'') (s3_bucket_validate b),
                  check (list_ex (\<lambda>other. Bucket other = Bucket b) earlier) ''duplicate bucket'',
                  s3_bucket_loop (earlier @ [b]) bs]"

definition s3_backend_validate :: "s3_bucket list \<Rightarrow> config_error option" where
  "s3_backend_validate bs = s3_bucket_loop [] bs"

definition validate_access :: "s3_access option \<Rightarrow> string \<Rightarrow> config_error option" where
  "validate_access access backend =
     (case access of
        None \<Rightarrow> None
      | Some a \<Rightarrow> if s3_location backend = None then Some (Err ''s3 credentials require an s3 backend URL'')
                  else s3_access_validate a)"

section \<open>Entries\<close>

text \<open>
  \<open>Entry.Validate\<close> and \<open>validateChildren\<close> call each other. The loop over the children
  carries the names seen so far.
\<close>

fun entry_validate :: "entry \<Rightarrow> config_error option"
  and children_loop :: "string \<Rightarrow> string set \<Rightarrow> entry list \<Rightarrow> config_error option" where
  "entry_validate (Entry a cs) =
     (let e = Entry a cs in
      first_error [
        check ((Directory a = []) = (File a = [])) ''exactly one of directory or file is required'',
        check (\<not> valid_name (entry_name e)) ''invalid entry name'',
        check (sint (Size a) < 0 \<or> sint (MaxUploadSize a) < 0)
          ''file size and upload limit cannot be negative'',
        check (File a \<noteq> [] \<and> Backend a = []) ''file entries require a backend'',
        check (File a \<noteq> [] \<and> cs \<noteq> []) ''file entries cannot have children'',
        check (Directory a \<noteq> [] \<and> Backend a = [] \<and> cs = [])
          ''directory entries require a backend or children'',
        (if Backend a \<noteq> [] then validate_backend_url (Backend a) else None),
        validate_methods (AllowedMethods a) (Backend a),
        validate_permissions (Permissions a) (Backend a),
        validate_access (S3 a) (Backend a),
        children_loop (entry_name e) {} cs])"
| "children_loop location seen [] = None"
| "children_loop location seen (c # cs) =
     first_error [map_option (Within location) (entry_validate c),
                  check (entry_name c \<in> seen) ''contains duplicate entry'',
                  children_loop location (insert (entry_name c) seen) cs]"

definition validate_children :: "entry list \<Rightarrow> string \<Rightarrow> config_error option" where
  "validate_children children location = children_loop location {} children"

definition validate_entries :: "entry list \<Rightarrow> config_error option" where
  "validate_entries entries = validate_children entries ''listing''"

definition root_validate :: "root_fs \<Rightarrow> config_error option" where
  "root_validate r =
     first_error [
       check (sint (RootMaxUploadSize r) < 0) ''upload limit cannot be negative'',
       (if RootBackend r \<noteq> [] then validate_backend_url (RootBackend r) else None),
       validate_methods (RootAllowedMethods r) (RootBackend r),
       validate_permissions (RootPermissions r) (RootBackend r),
       validate_access (RootS3 r) (RootBackend r),
       validate_children (RootChildren r) ''rootfs'']"

section \<open>Users and the whole configuration\<close>

definition user_validate :: "crypto \<Rightarrow> user \<Rightarrow> config_error option" where
  "user_validate lib u =
     first_error ([
       check (\<not> valid_name (Username u)) ''invalid username'',
       check (PasswordHash u = [] \<and> AuthorizedKeys u = []) ''passwordHash or authorizedKeys is required'',
       check (PasswordHash u \<noteq> [] \<and> \<not> bcrypt_cost lib (PasswordHash u)) ''invalid passwordHash''] @
       map (\<lambda>k. check (parse_authorized_key lib k = None) ''authorizedKeys'') (AuthorizedKeys u) @
       [check (sint (ClientAliveMs u) < 0) ''clientAliveMs cannot be negative'',
        check (case ClientAliveCountMax u of None \<Rightarrow> False | Some n \<Rightarrow> sint n < 0)
          ''clientAliveCountMax cannot be negative'',
        check (sint (MaxConcurrentUploads u) < 0) ''maxConcurrentUploads cannot be negative'',
        root_validate (RootFS u)])"

definition auth_backend_validate :: "auth_backend \<Rightarrow> config_error option" where
  "auth_backend_validate a =
     first_error [
       check ((BaseURL a = []) = (URL a = [])) ''exactly one of baseURL or url is required'',
       check (case TimeoutMs a of None \<Rightarrow> False | Some m \<Rightarrow> sint m < 0) ''timeoutMs cannot be negative'',
       (if BaseURL a \<noteq> [] then validate_backend_url (BaseURL a) else validate_backend_url (URL a))]"

text \<open>Where \<open>path\<close> lies within \<open>pre\<close>, if it lies there at all.\<close>

definition relative :: "string \<Rightarrow> string \<Rightarrow> string option" where
  "relative pre path =
     (case path_rel pre path of
        None \<Rightarrow> None
      | Some r \<Rightarrow> if r \<noteq> ''.'' \<and> \<not> is_local r then None else Some r)"

fun prefix_loop :: "string list \<Rightarrow> string list \<Rightarrow> config_error option" where
  "prefix_loop earlier [] = None"
| "prefix_loop earlier (p # ps) =
     first_error [check (\<not> is_abs p \<or> path_clean p \<noteq> p) ''must be an absolute, cleaned path'',
                  check (list_ex (\<lambda>other. relative other p \<noteq> None \<or> relative p other \<noteq> None) earlier)
                    ''overlaps'',
                  prefix_loop (earlier @ [p]) ps]"

definition file_backend_validate :: "string list \<Rightarrow> config_error option" where
  "file_backend_validate allowed =
     (if allowed = [] then Some (Err ''allowedPrefixes requires at least one directory'')
      else prefix_loop [] allowed)"

fun walk_entry :: "(entry \<Rightarrow> config_error option) \<Rightarrow> entry \<Rightarrow> config_error option" where
  "walk_entry visit (Entry a cs) =
     first_error (map_option (Within (entry_name (Entry a cs))) (visit (Entry a cs)) #
                  map (walk_entry visit) cs)"

definition walk_entries :: "root_fs \<Rightarrow> (entry \<Rightarrow> config_error option) \<Rightarrow> config_error option" where
  "walk_entries root visit =
     first_error (map_option (Within ''rootfs'') (visit (root_entry root)) #
                  map (\<lambda>c. map_option (Within ''rootfs'') (walk_entry visit c)) (RootChildren root))"

definition validate_local_backend :: "config \<Rightarrow> string \<Rightarrow> config_error option" where
  "validate_local_backend c raw =
     (case local_path raw of
        None \<Rightarrow> None
      | Some path \<Rightarrow>
          (case FileBackend c of
             None \<Rightarrow> Some (Err ''a file backend URL requires fileBackend.allowedPrefixes'')
           | Some allowed \<Rightarrow>
               if list_ex (\<lambda>p. relative p path \<noteq> None) allowed then None
               else Some (Err ''lies outside every fileBackend.allowedPrefixes entry'')))"

definition validate_s3_backend :: "config \<Rightarrow> string \<Rightarrow> s3_access option \<Rightarrow> config_error option" where
  "validate_s3_backend c raw access =
     (case s3_location raw of
        None \<Rightarrow> None
      | Some (bucket, _) \<Rightarrow>
          if S3Backend c = None then Some (Err ''an s3 backend URL requires s3Backend'')
          else if access \<noteq> None then None
          else check (find_bucket (S3Backend c) bucket = None)
                 ''bucket is not in s3Backend.buckets and the entry states no credentials'')"

definition validate_local_paths :: "config \<Rightarrow> root_fs \<Rightarrow> config_error option" where
  "validate_local_paths c root = walk_entries root (\<lambda>e. validate_local_backend c (entry_backend e))"

definition validate_s3_buckets :: "config \<Rightarrow> root_fs \<Rightarrow> config_error option" where
  "validate_s3_buckets c root =
     walk_entries root (\<lambda>e. validate_s3_backend c (entry_backend e) (S3 (attrs_of e)))"

fun users_loop :: "crypto \<Rightarrow> config \<Rightarrow> string set \<Rightarrow> user list \<Rightarrow> config_error option" where
  "users_loop lib c seen [] = None"
| "users_loop lib c seen (u # us) =
     first_error [map_option (Within ''users'') (user_validate lib u),
                  map_option (Within ''users'') (validate_local_paths c (RootFS u)),
                  map_option (Within ''users'') (validate_s3_buckets c (RootFS u)),
                  check (Username u \<in> seen) ''duplicate username'',
                  users_loop lib c (insert (Username u) seen) us]"

definition config_validate :: "crypto \<Rightarrow> config \<Rightarrow> config_error option" where
  "config_validate lib c =
     first_error [
       check (HostKeyFile c = []) ''hostKeyFile is required'',
       check (sint (Port c) < 1 \<or> 65535 < sint (Port c)) ''port must be between 1 and 65535'',
       check (UploadStagingDir c = []) ''uploadStagingDir is required'',
       check (case LoginGraceMs c of None \<Rightarrow> False | Some m \<Rightarrow> sint m < 0) ''loginGraceMs cannot be negative'',
       (case AuthBackend c of None \<Rightarrow> None
        | Some a \<Rightarrow> map_option (Within ''authBackend'') (auth_backend_validate a)),
       (case FileBackend c of None \<Rightarrow> None
        | Some f \<Rightarrow> map_option (Within ''fileBackend'') (file_backend_validate f)),
       (case S3Backend c of None \<Rightarrow> None
        | Some s \<Rightarrow> map_option (Within ''s3Backend'') (s3_backend_validate s)),
       check (Users c = [] \<and> AuthBackend c = None) ''configure at least one user or authBackend'',
       users_loop lib c {} (Users c)]"

text \<open>\<open>Load\<close>, from the decoded document on: defaults for what was left out, then the checks.\<close>

definition config_defaults :: "config \<Rightarrow> config" where
  "config_defaults c =
     (let c1 = (if Port c = 0 then c\<lparr>Port := 2222\<rparr> else c)
      in if UploadStagingDir c1 = [] then c1\<lparr>UploadStagingDir := ''staging''\<rparr> else c1)"

definition config_load :: "crypto \<Rightarrow> config \<Rightarrow> config_error + config" where
  "config_load lib decoded =
     (let cfg = config_defaults decoded in
      case config_validate lib cfg of Some e \<Rightarrow> Inl e | None \<Rightarrow> Inr cfg)"

definition static_user :: "config \<Rightarrow> string \<Rightarrow> user option" where
  "static_user c name = List.find (\<lambda>u. Username u = name) (Users c)"

definition has_authorized_key :: "crypto \<Rightarrow> user \<Rightarrow> string \<Rightarrow> bool" where
  "has_authorized_key lib u key =
     list_ex (\<lambda>encoded. parse_authorized_key lib encoded = Some key) (AuthorizedKeys u)"

end
