(* ===== verification/Config_Facts.thy ===== *)
theory Config_Facts
  imports Config
begin

text \<open>
  What the checks of the configuration establish: which trees of entries they accept,
  that a local path lies within exactly one allowed prefix, what a bucket name and an S3
  location can be, and when a configured duration means what it says.
\<close>

section \<open>Trees of entries\<close>

fun all_entries :: "entry \<Rightarrow> entry list" where
  "all_entries (Entry a cs) = Entry a cs # concat (map all_entries cs)"

definition tree_entries :: "root_fs \<Rightarrow> entry list" where
  "tree_entries r = root_entry r # concat (map all_entries (RootChildren r))"

text \<open>What one entry of an accepted tree satisfies, whatever its place in the tree.\<close>

definition entry_ok :: "entry \<Rightarrow> bool" where
  "entry_ok e \<longleftrightarrow>
     (let a = attrs_of e in
      (Directory a = []) \<noteq> (File a = []) \<and> valid_name (entry_name e) \<and>
      0 \<le> sint (Size a) \<and> 0 \<le> sint (MaxUploadSize a) \<and>
      (File a \<noteq> [] \<longrightarrow> Backend a \<noteq> [] \<and> Children e = []) \<and>
      (Backend a = [] \<longrightarrow> Children e \<noteq> []) \<and>
      (Backend a \<noteq> [] \<longrightarrow> validate_backend_url (Backend a) = None) \<and>
      validate_methods (AllowedMethods a) (Backend a) = None \<and>
      validate_permissions (Permissions a) (Backend a) = None \<and>
      validate_access (S3 a) (Backend a) = None \<and>
      distinct (map entry_name (Children e)))"

lemma entry_in_all_entries: "e \<in> set (all_entries e)"
  by (cases e) simp

lemma children_loop_None:
  "children_loop loc seen cs = None \<longleftrightarrow>
     (\<forall>c \<in> set cs. entry_validate c = None) \<and> distinct (map entry_name cs) \<and>
     entry_name ` set cs \<inter> seen = {}"
  by (induction cs arbitrary: seen) auto

lemma entry_validate_step:
  "entry_validate (Entry a cs) = None \<longleftrightarrow>
     entry_ok (Entry a cs) \<and> (\<forall>c \<in> set cs. entry_validate c = None)"
  by (auto simp: entry_ok_def children_loop_None Let_def)

declare entry_validate.simps [simp del]

lemma entry_validate_all:
  "entry_validate e = None \<longleftrightarrow> (\<forall>x \<in> set (all_entries e). entry_ok x)"
proof (induction e)
  case (Entry a cs)
  then show ?case by (auto simp: entry_validate_step)
qed

lemma walk_entry_None:
  "walk_entry visit e = None \<longleftrightarrow> (\<forall>x \<in> set (all_entries e). visit x = None)"
proof (induction e)
  case (Entry a cs)
  then show ?case by auto
qed

lemma walk_entries_None:
  "walk_entries r visit = None \<longleftrightarrow> (\<forall>x \<in> set (tree_entries r). visit x = None)"
  by (auto simp: walk_entries_def tree_entries_def walk_entry_None)

lemma users_loop_None:
  "users_loop lib c seen us = None \<longleftrightarrow>
     (\<forall>u \<in> set us. user_validate lib u = None \<and> validate_local_paths c (RootFS u) = None \<and>
                    validate_s3_buckets c (RootFS u) = None) \<and>
     distinct (map Username us) \<and> Username ` set us \<inter> seen = {}"
  by (induction us arbitrary: seen) auto

lemma root_validate_children:
  "root_validate r = None \<Longrightarrow> c \<in> set (RootChildren r) \<Longrightarrow> x \<in> set (all_entries c) \<Longrightarrow> entry_ok x"
  by (auto simp: root_validate_def validate_children_def children_loop_None entry_validate_all)

section \<open>Paths within prefixes\<close>

lemma path_rel_clean: "is_abs p \<Longrightarrow> is_abs q \<Longrightarrow> path_rel p q = path_rel (path_clean p) (path_clean q)"
  by (simp add: path_rel_def path_clean_idem_abs)

lemma relative_abs:
  assumes "is_abs p" and "is_abs q"
  shows "relative p q =
     (if prefix (components p) (components q)
      then Some (if components p = components q then ''.''
                 else join_with slash (drop (length (components p)) (components q)))
      else None)"
proof -
  let ?bs = "components p" and ?ts = "components q"
  obtain r where r: "path_rel p q = Some r"
    "if ?bs = ?ts then r = ''.''
     else if prefix ?bs ?ts then r = join_with slash (drop (length ?bs) ?ts)
     else \<not> is_local r \<and> r \<noteq> ''.''"
    using path_rel_abs_path [OF components_ordinary [of p] components_ordinary [of q]]
      path_rel_clean [OF assms] path_clean_abs [OF assms(1)] path_clean_abs [OF assms(2)]
    by auto
  have loc: "is_local (join_with slash (drop (length ?bs) ?ts))" if "prefix ?bs ?ts" "?bs \<noteq> ?ts"
  proof (rule is_local_ordinaries)
    show "ordinaries (drop (length ?bs) ?ts)"
      using components_ordinary in_set_dropD by metis
    show "drop (length ?bs) ?ts \<noteq> []"
      using that by (auto simp: prefix_def)
  qed
  show ?thesis using r loc by (auto simp: relative_def)
qed

lemma relative_iff_prefix:
  "is_abs p \<Longrightarrow> is_abs q \<Longrightarrow> relative p q \<noteq> None \<longleftrightarrow> prefix (components p) (components q)"
  by (simp add: relative_abs)

lemma prefix_loop_None:
  "prefix_loop earlier ps = None \<longleftrightarrow>
     (\<forall>p \<in> set ps. is_abs p \<and> path_clean p = p) \<and>
     (\<forall>i < length ps. \<forall>other \<in> set earlier \<union> set (take i ps).
        relative other (ps ! i) = None \<and> relative (ps ! i) other = None)"
proof (induction ps arbitrary: earlier)
  case Nil
  then show ?case by simp
next
  case (Cons p ps)
  have split: "(\<forall>i < length (p # ps). \<forall>other \<in> set earlier \<union> set (take i (p # ps)).
        relative other ((p # ps) ! i) = None \<and> relative ((p # ps) ! i) other = None) \<longleftrightarrow>
     (\<forall>other \<in> set earlier. relative other p = None \<and> relative p other = None) \<and>
     (\<forall>i < length ps. \<forall>other \<in> set (earlier @ [p]) \<union> set (take i ps).
        relative other (ps ! i) = None \<and> relative (ps ! i) other = None)"
    by (auto simp: All_less_Suc2)
  show ?case
    unfolding split using Cons.IH [of "earlier @ [p]"] by (auto simp: list_ex_iff)
qed

lemma prefixes_of_one_path:
  assumes "prefix_loop [] ps = None" and "is_abs path"
    and "i < length ps" and "j < length ps"
    and "relative (ps ! i) path \<noteq> None" and "relative (ps ! j) path \<noteq> None"
  shows "i = j"
proof (rule ccontr)
  assume "i \<noteq> j"
  have abs: "is_abs (ps ! k)" if "k < length ps" for k
    using assms(1) that by (simp add: prefix_loop_None)
  have "prefix (components (ps ! i)) (components path)" "prefix (components (ps ! j)) (components path)"
    using assms(5,6) unfolding relative_iff_prefix [OF abs [OF assms(3)] assms(2)]
      relative_iff_prefix [OF abs [OF assms(4)] assms(2)] .
  then have "prefix (components (ps ! i)) (components (ps ! j)) \<or>
             prefix (components (ps ! j)) (components (ps ! i))"
    by (meson prefix_same_cases)
  then have "relative (ps ! i) (ps ! j) \<noteq> None \<or> relative (ps ! j) (ps ! i) \<noteq> None"
    unfolding relative_iff_prefix [OF abs [OF assms(3)] abs [OF assms(4)]]
      relative_iff_prefix [OF abs [OF assms(4)] abs [OF assms(3)]] .
  moreover have "relative (ps ! b) (ps ! a) = None \<and> relative (ps ! a) (ps ! b) = None"
    if "a < length ps" "b < a" for a b
  proof -
    have "take a ps ! b \<in> set (take a ps)"
      using that by (intro nth_mem) simp
    then have "ps ! b \<in> set [] \<union> set (take a ps)" using that(2) by simp
    then show ?thesis using assms(1) that(1) unfolding prefix_loop_None by blast
  qed
  ultimately show False
    using \<open>i \<noteq> j\<close> assms(3,4) by (cases "i < j") auto
qed

lemma local_path_abs: "local_path raw = Some p \<Longrightarrow> is_abs p \<and> path_clean p = p"
proof -
  assume "local_path raw = Some p"
  then obtain u where "is_abs u" and "p = path_clean u"
    by (auto simp: local_path_def is_abs_def split: option.splits if_splits)
  then show ?thesis by (metis is_abs_abs_path path_clean_abs path_clean_idem_abs)
qed

lemma local_backend_in_one_prefix:
  assumes "config_validate lib c = None" and "validate_local_backend c raw = None"
    and "local_path raw = Some path"
  shows "\<exists>allowed. FileBackend c = Some allowed \<and>
           (\<exists>!i. i < length allowed \<and> relative (allowed ! i) path \<noteq> None)"
proof -
  obtain allowed where f: "FileBackend c = Some allowed"
    and ex: "list_ex (\<lambda>p. relative p path \<noteq> None) allowed"
    using assms(2,3) by (auto simp: validate_local_backend_def split: option.splits if_splits)
  have "prefix_loop [] allowed = None"
    using assms(1) f by (auto simp: config_validate_def file_backend_validate_def split: if_splits)
  then have "\<exists>!i. i < length allowed \<and> relative (allowed ! i) path \<noteq> None"
    using ex prefixes_of_one_path [of allowed path] local_path_abs [OF assms(3)]
    unfolding list_ex_length by blast
  then show ?thesis using f by blast
qed

lemma root_validate_tree:
  assumes "root_validate r = None" and "e \<in> set (tree_entries r)"
  shows "(entry_backend e \<noteq> [] \<longrightarrow> validate_backend_url (entry_backend e) = None) \<and>
     distinct (map entry_name (Children e)) \<and> validate_access (S3 (attrs_of e)) (entry_backend e) = None"
proof (cases "e = root_entry r")
  case True
  then show ?thesis using assms(1)
    by (auto simp: root_validate_def root_entry_def no_attrs_def validate_children_def
        children_loop_None split: if_splits)
next
  case False
  then obtain ch where "ch \<in> set (RootChildren r)" and "e \<in> set (all_entries ch)"
    using assms(2) by (auto simp: tree_entries_def)
  then have "entry_ok e" using assms(1) by (rule root_validate_children [rotated])
  then show ?thesis by (simp add: entry_ok_def Let_def)
qed

section \<open>Properties of the checks\<close>

text \<open>
  C10. Where a path lies within a prefix is decided by whole components: for absolute paths
  Relative finds the path inside the prefix exactly when the components of the prefix are the
  first of the components of the path, and what it returns is the rest of them; nothing that
  climbs out is inside.
\<close>

theorem relative_components:
  assumes "is_abs pre" and "is_abs path"
  shows "relative pre path =
     (if prefix (components pre) (components path)
      then Some (if components pre = components path then ''.''
                 else join_with slash (drop (length (components pre)) (components path)))
      else None)"
  using assms by (rule relative_abs)

theorem relative_components_witness:
  "relative ''/srv/data'' ''/srv/data/in/../a'' = Some ''a'' \<and>
   relative ''/srv/data'' ''/srv/database'' = None \<and>
   relative ''/srv/data'' ''/srv/data/../x'' = None"
  using relative_components [of "''/srv/data''" "''/srv/data/in/../a''"]
    relative_components [of "''/srv/data''" "''/srv/database''"]
    relative_components [of "''/srv/data''" "''/srv/data/../x''"]
  by (simp add: components_def elements_def clean_step_def)

text \<open>
  C3. A configuration that passes Validate names only what the deployment consented to,
  anywhere in any user's tree: an entry's backend URL passes the URL checks, siblings have
  distinct names, a local path lies within exactly one of the allowed prefixes, and an S3
  bucket is configured or comes with a region and a full pair of keys.
\<close>

theorem config_validate_tree:
  assumes "config_validate lib c = None" and "u \<in> set (Users c)" and "e \<in> set (tree_entries (RootFS u))"
  shows "(entry_backend e \<noteq> [] \<longrightarrow> validate_backend_url (entry_backend e) = None) \<and>
     distinct (map entry_name (Children e)) \<and>
     (\<forall>path. local_path (entry_backend e) = Some path \<longrightarrow>
        (\<exists>allowed. FileBackend c = Some allowed \<and>
           (\<exists>!i. i < length allowed \<and> relative (allowed ! i) path \<noteq> None))) \<and>
     (\<forall>bucket key. s3_location (entry_backend e) = Some (bucket, key) \<longrightarrow>
        S3Backend c \<noteq> None \<and>
        (find_bucket (S3Backend c) bucket \<noteq> None \<or>
         (\<exists>a. S3 (attrs_of e) = Some a \<and> Region a \<noteq> [] \<and> AccessKeyID a \<noteq> [] \<and> SecretAccessKey a \<noteq> [])))"
proof -
  have users: "user_validate lib u = None" "validate_local_paths c (RootFS u) = None"
      "validate_s3_buckets c (RootFS u) = None"
    using assms(1,2) by (auto simp: config_validate_def users_loop_None)
  have root: "root_validate (RootFS u) = None"
    using users(1) by (auto simp: user_validate_def)
  note entry = root_validate_tree [OF root assms(3)]
  have local: "\<exists>allowed. FileBackend c = Some allowed \<and>
      (\<exists>!i. i < length allowed \<and> relative (allowed ! i) path \<noteq> None)"
    if lp: "local_path (entry_backend e) = Some path" for path
  proof (rule local_backend_in_one_prefix [OF assms(1) _ lp])
    show "validate_local_backend c (entry_backend e) = None"
      using users(2) assms(3) by (simp add: validate_local_paths_def walk_entries_None)
  qed
  have s3: "S3Backend c \<noteq> None \<and> (find_bucket (S3Backend c) bucket \<noteq> None \<or>
      (\<exists>a. S3 (attrs_of e) = Some a \<and> Region a \<noteq> [] \<and> AccessKeyID a \<noteq> [] \<and> SecretAccessKey a \<noteq> []))"
    if loc: "s3_location (entry_backend e) = Some (bucket, key)" for bucket key
  proof -
    have "validate_s3_backend c (entry_backend e) (S3 (attrs_of e)) = None"
      using users(3) assms(3) by (simp add: validate_s3_buckets_def walk_entries_None)
    then show ?thesis
      using loc entry
      by (auto simp: validate_s3_backend_def validate_access_def s3_access_validate_def
          validate_reachable_def split: option.splits if_splits)
  qed
  show ?thesis using entry local s3 by blast
qed

text \<open>
  A configuration to apply it to: one user whose tree holds a local directory, and a
  deployment that allows \<open>/srv/a\<close> and \<open>/srv/b\<close>.
\<close>

definition sample_entry :: entry where
  "sample_entry = Entry (no_attrs\<lparr>Directory := ''In'', Backend := ''file:///srv/a/in''\<rparr>) []"

definition sample_user :: user where
  "sample_user = \<lparr>Username = ''acme'', PasswordHash = ''h'', AuthorizedKeys = [], ClientAliveMs = 0,
     ClientAliveCountMax = None, MaxConcurrentUploads = 0, Headers = None,
     RootFS = \<lparr>RootBackend = [], RootAllowedMethods = [], RootPermissions = None, RootS3 = None,
               RootChildren = [sample_entry], RootMaxUploadSize = 0\<rparr>\<rparr>"

definition sample_config :: config where
  "sample_config = \<lparr>HostKeyFile = ''k'', Port = 2222, BindAddress = [], UploadStagingDir = ''s'',
     LoginGraceMs = None, AuthBackend = None, FileBackend = Some [''/srv/a'', ''/srv/b''],
     S3Backend = None, Users = [sample_user]\<rparr>"

definition sample_crypto :: crypto where
  "sample_crypto = \<lparr>bcrypt_cost = (\<lambda>_. True), parse_authorized_key = (\<lambda>_. None)\<rparr>"

theorem config_validate_tree_witness:
  "validate_backend_url ''file:///srv/a/in'' = None \<and>
   (\<exists>allowed. FileBackend sample_config = Some allowed \<and>
      (\<exists>!i. i < length allowed \<and> relative (allowed ! i) ''/srv/a/in'' \<noteq> None))"
proof -
  have v: "config_validate sample_crypto sample_config = None" by code_simp
  have e: "sample_entry \<in> set (tree_entries (RootFS sample_user))"
    by (simp add: sample_user_def tree_entries_def sample_entry_def)
  have b: "entry_backend sample_entry = ''file:///srv/a/in''" by code_simp
  have p: "local_path (entry_backend sample_entry) = Some ''/srv/a/in''" by code_simp
  show ?thesis
    using config_validate_tree [OF v _ e] p b by (auto simp: sample_config_def)
qed

section \<open>Durations\<close>

lemma millis_duration_exact:
  assumes "0 \<le> sint m"
  shows "sint (millis_duration m) = sint m * 1000000 \<longleftrightarrow> sint m \<le> 9223372036854"
proof -
  have m: "m * 1000000 = word_of_int (sint m * 1000000)" by simp
  have s: "sint (m * 1000000) = signed_take_bit 63 (sint m * 1000000)"
    unfolding m by (subst sint_sbintrunc') simp
  show ?thesis
  proof
    assume "sint m \<le> 9223372036854"
    then have "- (2 ^ 63) \<le> sint m * 1000000" "sint m * 1000000 < 2 ^ 63" using assms by simp_all
    then show "sint (millis_duration m) = sint m * 1000000"
      unfolding millis_duration_def s by (intro signed_take_bit_int_eq_self) simp_all
  next
    assume e: "sint (millis_duration m) = sint m * 1000000"
    have "sint (m * 1000000) < 2 ^ 63" using sint_lt [of "m * 1000000"] by simp
    then have "sint m * 1000000 < 9223372036854775808" using e by (simp add: millis_duration_def)
    then show "sint m \<le> 9223372036854" by linarith
  qed
qed

text \<open>
  C13. In a configuration that passes Validate, the login grace period is the configured
  number of milliseconds exactly when that number is at most 9223372036854; beyond it the
  conversion to a duration wraps around.
\<close>

theorem login_grace_exact:
  assumes "config_validate lib c = None" and "LoginGraceMs c = Some m"
  shows "sint (login_grace c) = sint m * 1000000 \<longleftrightarrow> sint m \<le> 9223372036854"
proof -
  have "0 \<le> sint m" using assms by (auto simp: config_validate_def)
  then show ?thesis using assms(2) millis_duration_exact by (simp add: login_grace_def)
qed

text \<open>The first value past the bound: a login grace period of some 292 years, which is negative.\<close>

definition wrapping_config :: config where
  "wrapping_config = sample_config\<lparr>LoginGraceMs := Some 9223372036855\<rparr>"

theorem login_grace_exact_witness:
  "config_validate sample_crypto wrapping_config = None \<and>
   sint (login_grace wrapping_config) \<noteq> 9223372036855000000"
proof -
  have v: "config_validate sample_crypto wrapping_config = None" by code_simp
  have l: "LoginGraceMs wrapping_config = Some 9223372036855" by (simp add: wrapping_config_def)
  have s: "sint (9223372036855 :: int64) = 9223372036855" by simp
  show ?thesis using v login_grace_exact [OF v l] unfolding s by simp
qed

theorem login_grace_can_be_negative:
  "config_validate sample_crypto wrapping_config = None \<and> sint (login_grace wrapping_config) < 0"
proof
  show "config_validate sample_crypto wrapping_config = None" by code_simp
  show "sint (login_grace wrapping_config) < 0"
    by (simp add: login_grace_def wrapping_config_def millis_duration_def)
qed

theorem client_alive_bounds:
  "0 \<le> sint (fst (client_alive u)) \<and> 0 \<le> sint (snd (client_alive u)) \<and>
   0 \<le> sint (upload_concurrency_limit u)"
  by (simp add: client_alive_def upload_concurrency_limit_def smax_def Let_def
      default_client_alive_count_max_def split: option.split)

text \<open>
  What is logged of an access is the same for all secrets and all tokens, and for all keys
  but whether there is one.
\<close>

lemma log_value_keeps_secrets:
  assumes "Region a = Region b" and "Endpoint a = Endpoint b" and "AccessKeyID a = [] \<longleftrightarrow> AccessKeyID b = []"
  shows "log_value a = log_value b"
  using assms by (simp add: log_value_def)

end
