(* ===== verification/Vfs.thy ===== *)
theory Vfs
  imports Config
begin

text \<open>
  The virtual filesystem: \<open>server/internal/vfs/backend.go\<close> and \<open>vfs.go\<close>. It owns paths,
  traversal and which backend serves a node; a backend is whatever implements the
  interface, here a record of its methods. The state a call works on is the resolution
  cache and the world: everything the backends can see or change, of any type.

  Every operation is one step of a single caller. The mutex that guards the cache makes
  each access to it atomic, and the cache is read and written here where the code locks it.
\<close>

section \<open>The backend interface\<close>

type_synonym node = entry

datatype verror = ErrNotExist | ErrPermission | ErrUnsupported | ErrFailure | ErrExist
  | ErrOther string

text \<open>What a read may end in: nothing wrong, the end of the file, or an error.\<close>

datatype io_error = EOF | IOErr verror

text \<open>
  \<open>ReadAt\<close> is asked for a number of bytes at an offset and answers with the bytes it read.
  \<open>WriteAt\<close> answers with how many it wrote. A method that returns only an \<open>error\<close> answers
  with \<open>None\<close> for \<open>nil\<close>.
\<close>

record 'w reader =
  read_at :: "nat \<Rightarrow> int64 \<Rightarrow> 'w \<Rightarrow> (bytes \<times> io_error option) \<times> 'w"
  read_size :: "('w, verror, int64) op"
  read_close :: "'w \<Rightarrow> verror option \<times> 'w"

record 'w writer =
  write_at :: "bytes \<Rightarrow> int64 \<Rightarrow> 'w \<Rightarrow> (nat \<times> verror option) \<times> 'w"
  write_close :: "'w \<Rightarrow> verror option \<times> 'w"
  write_abort :: "'w \<Rightarrow> verror option \<times> 'w"

record 'w backend =
  backend_list :: "node \<Rightarrow> ('w, verror, node list) op"
  backend_open :: "node \<Rightarrow> ('w, verror, 'w reader) op"
  backend_create :: "node \<Rightarrow> ('w, verror, 'w writer) op"
  backend_mkdir :: "node \<Rightarrow> ('w, verror, unit) op"
  backend_remove :: "node \<Rightarrow> ('w, verror, unit) op"
  backend_rename :: "node \<Rightarrow> string \<Rightarrow> string \<Rightarrow> ('w, verror, unit) op"
  backend_child :: "node \<Rightarrow> string \<Rightarrow> verror + node"

section \<open>State\<close>

record 'w fs =
  fs_root :: root_fs
  fs_backends :: "string \<rightharpoonup> 'w backend"

record 'w fs_state =
  resolved :: "string \<rightharpoonup> node"
  world :: 'w

definition fs_new :: "root_fs \<Rightarrow> (string \<rightharpoonup> 'w backend) \<Rightarrow> 'w \<Rightarrow> 'w fs \<times> 'w fs_state" where
  "fs_new root backends w = (\<lparr>fs_root = root, fs_backends = backends\<rparr>, \<lparr>resolved = Map.empty, world = w\<rparr>)"

text \<open>A method of a backend, called from the filesystem.\<close>

definition on_world :: "('w \<Rightarrow> 'r \<times> 'w) \<Rightarrow> 'w fs_state \<Rightarrow> 'r \<times> 'w fs_state" where
  "on_world m s = (case m (world s) of (r, w) \<Rightarrow> (r, s\<lparr>world := w\<rparr>))"

section \<open>Paths\<close>

definition split_path :: "string \<Rightarrow> string list option" where
  "split_path raw =
     (if raw = [] \<or> raw = ''/'' then Some []
      else if \<not> prefix ''/'' raw then None
      else (let parts = split_on slash (trim_prefix ''/'' raw) in
        if list_ex (\<lambda>p. p = [] \<or> p = ''.'' \<or> p = ''..'' \<or> nul \<in> set p) parts then None
        else Some parts))"

definition join_path :: "string list \<Rightarrow> string" where
  "join_path parts = ''/'' @ join_with slash parts"

fun find_child :: "node list \<Rightarrow> string \<Rightarrow> verror + node" where
  "find_child [] name = Inl ErrNotExist"
| "find_child (c # cs) name = (if entry_name c = name then Inr c else find_child cs name)"

section \<open>Which backend serves a node\<close>

definition backend_for :: "'w fs \<Rightarrow> node \<Rightarrow> verror + 'w backend" where
  "backend_for f node =
     (if entry_backend node = [] then Inl ErrUnsupported
      else (case url_parse (entry_backend node) of
              None \<Rightarrow> Inl ErrFailure
            | Some parsed \<Rightarrow>
                if u_scheme parsed = [] then Inl ErrFailure
                else (case fs_backends f (u_scheme parsed) of
                        None \<Rightarrow> Inl ErrUnsupported
                      | Some b \<Rightarrow> Inr b)))"

definition list_node :: "'w fs \<Rightarrow> node \<Rightarrow> ('w fs_state, verror, node list) op" where
  "list_node f node =
     (if entry_backend node = [] then returnE (Children node)
      else bindE (liftE (backend_for f node)) (\<lambda>b. on_world (backend_list b node)))"

section \<open>The resolution cache\<close>

primrec longest_resolved_upto :: "'w fs \<Rightarrow> 'w fs_state \<Rightarrow> string list \<Rightarrow> nat \<Rightarrow> node \<times> nat" where
  "longest_resolved_upto f s parts 0 = (root_entry (fs_root f), 0)"
| "longest_resolved_upto f s parts (Suc index) =
     (case resolved s (join_path (take (Suc index) parts)) of
        Some node \<Rightarrow> (node, Suc index)
      | None \<Rightarrow> longest_resolved_upto f s parts index)"

definition longest_resolved :: "'w fs \<Rightarrow> 'w fs_state \<Rightarrow> string list \<Rightarrow> node \<times> nat" where
  "longest_resolved f s parts = longest_resolved_upto f s parts (length parts)"

definition remember :: "string list \<Rightarrow> node \<Rightarrow> ('w fs_state, verror, unit) op" where
  "remember parts node s = (Inr (), s\<lparr>resolved := (resolved s)(join_path parts \<mapsto> node)\<rparr>)"

definition forget :: "string list \<Rightarrow> ('w fs_state, verror, unit) op" where
  "forget parts s = (Inr (), s\<lparr>resolved :=
     (\<lambda>cached. if cached = join_path parts \<or> prefix (join_path parts @ ''/'') cached then None
                else resolved s cached)\<rparr>)"

text \<open>The loop of \<open>resolve\<close>: the parts walked so far, the node they name, and those left.\<close>

fun resolve_loop :: "'w fs \<Rightarrow> string list \<Rightarrow> node \<Rightarrow> string list \<Rightarrow> ('w fs_state, verror, node) op" where
  "resolve_loop f walked current [] = returnE current"
| "resolve_loop f walked current (part # rest) =
     (if \<not> is_directory current then failE ErrNotExist
      else bindE (list_node f current) (\<lambda>children.
           bindE (liftE (find_child children part)) (\<lambda>child.
           bindE (remember (walked @ [part]) child) (\<lambda>_.
           resolve_loop f (walked @ [part]) child rest))))"

definition resolve :: "'w fs \<Rightarrow> string list \<Rightarrow> ('w fs_state, verror, node) op" where
  "resolve f parts s =
     (if parts = [] then (Inr (root_entry (fs_root f)), s)
      else (case longest_resolved f s parts of
              (current, index) \<Rightarrow> resolve_loop f (take index parts) current (drop index parts) s))"

definition new_child :: "'w fs \<Rightarrow> string list \<Rightarrow> ('w fs_state, verror, node) op" where
  "new_child f parts =
     bindE (resolve f (butlast parts)) (\<lambda>parent.
       if \<not> is_directory parent then failE ErrNotExist
       else bindE (liftE (backend_for f parent)) (\<lambda>b. liftE (backend_child b parent (last parts))))"

section \<open>Operations\<close>

definition fs_stat :: "'w fs \<Rightarrow> string \<Rightarrow> ('w fs_state, verror, node) op" where
  "fs_stat f path =
     (case split_path path of
        None \<Rightarrow> failE ErrNotExist
      | Some parts \<Rightarrow>
          if parts = [] then returnE (root_entry (fs_root f))
          else bindE (resolve f (butlast parts)) (\<lambda>parent.
               bindE (list_node f parent) (\<lambda>children.
               bindE (liftE (find_child children (last parts))) (\<lambda>node.
               bindE (remember parts node) (\<lambda>_. returnE node)))))"

definition fs_list :: "'w fs \<Rightarrow> string \<Rightarrow> ('w fs_state, verror, node list) op" where
  "fs_list f path =
     (case split_path path of
        None \<Rightarrow> failE ErrNotExist
      | Some parts \<Rightarrow>
          bindE (resolve f parts) (\<lambda>node.
            if \<not> is_directory node then failE ErrUnsupported else list_node f node))"

definition fs_open :: "'w fs \<Rightarrow> string \<Rightarrow> ('w fs_state, verror, 'w reader) op" where
  "fs_open f path =
     (case split_path path of
        None \<Rightarrow> failE ErrNotExist
      | Some parts \<Rightarrow>
          bindE (resolve f parts) (\<lambda>node.
            if is_directory node then failE ErrUnsupported
            else bindE (liftE (backend_for f node)) (\<lambda>b. on_world (backend_open b node))))"

text \<open>
  The upload limit: the offset and the length are compared with what is left of the limit,
  in 64-bit arithmetic.
\<close>

definition size_limited_writer :: "'w writer \<Rightarrow> int64 \<Rightarrow> 'w writer" where
  "size_limited_writer wr maxSize = wr\<lparr>write_at :=
     (\<lambda>data offset w.
        if sint offset < 0 \<or> sint maxSize < sint offset \<or> sint (maxSize - offset) < int (length data)
        then ((0, Some ErrFailure), w)
        else write_at wr data offset w)\<rparr>"

text \<open>The switch on what resolving the path to be created found.\<close>

definition node_to_create :: "'w fs \<Rightarrow> string list \<Rightarrow> ('w fs_state, verror, node) op" where
  "node_to_create f parts s =
     (case resolve f parts s of
        (Inr node, t) \<Rightarrow> if is_directory node then (Inl ErrUnsupported, t) else (Inr node, t)
      | (Inl e, t) \<Rightarrow> if e = ErrNotExist then new_child f parts t else (Inl e, t))"

definition fs_create :: "'w fs \<Rightarrow> string \<Rightarrow> ('w fs_state, verror, 'w writer) op" where
  "fs_create f path =
     (case split_path path of
        None \<Rightarrow> failE ErrNotExist
      | Some parts \<Rightarrow>
          if parts = [] then failE ErrNotExist
          else bindE (node_to_create f parts) (\<lambda>node.
               bindE (liftE (backend_for f node)) (\<lambda>b.
               bindE (on_world (backend_create b node)) (\<lambda>writer.
                 if 0 < sint (MaxUploadSize (attrs_of node))
                 then returnE (size_limited_writer writer (MaxUploadSize (attrs_of node)))
                 else returnE writer))))"

definition fs_mkdir :: "'w fs \<Rightarrow> string \<Rightarrow> ('w fs_state, verror, unit) op" where
  "fs_mkdir f path s =
     (case split_path path of
        None \<Rightarrow> (Inl ErrNotExist, s)
      | Some parts \<Rightarrow>
          if parts = [] then (Inl ErrNotExist, s)
          else (case resolve f parts s of
             (Inr _, t) \<Rightarrow> (Inl ErrExist, t)
           | (Inl e, t) \<Rightarrow>
               if e \<noteq> ErrNotExist then (Inl e, t)
               else bindE (new_child f parts) (\<lambda>node.
                    bindE (liftE (backend_for f node)) (\<lambda>b. on_world (backend_mkdir b node))) t))"

definition fs_remove :: "'w fs \<Rightarrow> string \<Rightarrow> ('w fs_state, verror, unit) op" where
  "fs_remove f path =
     (case split_path path of
        None \<Rightarrow> failE ErrNotExist
      | Some parts \<Rightarrow>
          if parts = [] then failE ErrNotExist
          else bindE (resolve f parts) (\<lambda>node.
               bindE (liftE (backend_for f node)) (\<lambda>b.
               bindE (forget parts) (\<lambda>_. on_world (backend_remove b node)))))"

definition fs_rename :: "'w fs \<Rightarrow> string \<Rightarrow> string \<Rightarrow> ('w fs_state, verror, unit) op" where
  "fs_rename f from to =
     (case split_path from of
        None \<Rightarrow> failE ErrNotExist
      | Some fromParts \<Rightarrow>
          if fromParts = [] then failE ErrNotExist
          else (case split_path to of
             None \<Rightarrow> failE ErrNotExist
           | Some toParts \<Rightarrow>
               if toParts = [] then failE ErrNotExist
               else bindE (resolve f fromParts) (\<lambda>node.
                    bindE (liftE (backend_for f node)) (\<lambda>b.
                    bindE (forget fromParts) (\<lambda>_.
                    bindE (forget toParts) (\<lambda>_.
                    on_world (backend_rename b node (join_path fromParts) (join_path toParts))))))))"

end
