(* ===== verification/Vfs_Facts.thy ===== *)
theory Vfs_Facts
  imports Vfs
begin

text \<open>
  What the virtual filesystem promises. Paths split into components and join back; the
  cache is a set of resolved paths from which forgetting one takes away everything beneath
  it; resolving through the cache gives what a walk from the root gives, while listings
  stay what they are; and everything the filesystem does to the world goes through a
  registered backend.

  Three locales state what is asked of the backends: \<open>kept_by_listing\<close>, an invariant of the
  world that listing keeps, \<open>kept_by_backends\<close>, one that every method keeps, and
  \<open>stable_listings\<close>, listings that do not change.
\<close>

section \<open>Paths and their components\<close>

definition valid_part :: "string \<Rightarrow> bool" where
  "valid_part p \<longleftrightarrow> p \<noteq> [] \<and> p \<noteq> ''.'' \<and> p \<noteq> ''..'' \<and> slash \<notin> set p \<and> nul \<notin> set p"

abbreviation valid_parts :: "string list \<Rightarrow> bool" where
  "valid_parts ps \<equiv> \<forall>p \<in> set ps. valid_part p"

lemma valid_part_ordinary: "valid_part p \<Longrightarrow> ordinary p"
  by (simp add: valid_part_def ordinary_def)

lemma join_path_abs_path: "join_path parts = abs_path parts"
  by (simp add: join_path_def abs_path_def)

lemma join_path_inj:
  assumes "join_path ps = join_path qs" and "valid_parts ps" and "valid_parts qs"
  shows "ps = qs"
  using assms valid_part_ordinary unfolding join_path_abs_path by (meson abs_path_inj)

lemma split_path_valid: "split_path raw = Some parts \<Longrightarrow> valid_parts parts"
  by (auto simp: split_path_def Let_def valid_part_def list_ex_iff
      split: if_splits dest: split_on_pieces)

lemma split_path_joined:
  "split_path raw = Some parts \<Longrightarrow> raw = join_path parts \<or> raw = [] \<and> parts = []"
  by (auto simp: split_path_def join_path_def Let_def prefix_def trim_prefix_def split: if_splits)

lemma join_parts_not_Nil:
  assumes "valid_parts ps" and "ps \<noteq> []"
  shows "join_with slash ps \<noteq> []"
proof
  assume "join_with slash ps = []"
  with assms(2) have "ps = [[]]" unfolding join_with_eq_Nil by simp
  with assms(1) show False by (simp add: valid_part_def)
qed

lemma valid_parts_check:
  assumes "valid_parts parts"
  shows "\<not> list_ex (\<lambda>p. p = [] \<or> p = ''.'' \<or> p = ''..'' \<or> nul \<in> set p) parts"
proof
  assume "list_ex (\<lambda>p. p = [] \<or> p = ''.'' \<or> p = ''..'' \<or> nul \<in> set p) parts"
  then obtain p where "p \<in> set parts" and "p = [] \<or> p = ''.'' \<or> p = ''..'' \<or> nul \<in> set p"
    unfolding list_ex_iff by (elim bexE)
  with assms show False unfolding valid_part_def by blast
qed

lemma split_path_join_path:
  assumes "valid_parts parts"
  shows "split_path (join_path parts) = Some parts"
proof (cases "parts = []")
  case True
  then show ?thesis by (simp add: split_path_def join_path_def)
next
  case False
  have parts: "split_on slash (join_with slash parts) = parts"
    using assms False by (intro split_join) (simp_all add: valid_part_def)
  show ?thesis
    using join_parts_not_Nil [OF assms False] valid_parts_check [OF assms]
    by (simp add: split_path_def join_path_def trim_prefix_def parts Let_def)
qed

lemma join_path_below:
  assumes "valid_parts ps" and "valid_parts qs" and "ps \<noteq> []"
  shows "prefix (join_path ps @ ''/'') (join_path qs) \<longleftrightarrow> strict_prefix ps qs"
proof (cases "qs = []")
  case True
  show ?thesis using join_parts_not_Nil [OF assms(1,3)] True by (simp add: join_path_def)
next
  case False
  have "(\<forall>w \<in> set ps. slash \<notin> set w) \<and> (\<forall>w \<in> set qs. slash \<notin> set w)"
    using assms(1,2) unfolding valid_part_def by blast
  then show ?thesis
    using join_prefix_iff [OF assms(3) False, of slash] by (simp add: join_path_def)
qed

section \<open>The cache\<close>

lemma resolved_forget:
  assumes "valid_parts ps" and "valid_parts qs" and "ps \<noteq> []"
  shows "resolved (snd (forget ps s)) (join_path qs) =
           (if prefix ps qs then None else resolved s (join_path qs))"
proof -
  have "join_path qs = join_path ps \<or> prefix (join_path ps @ ''/'') (join_path qs) \<longleftrightarrow> prefix ps qs"
    using join_path_below [OF assms] join_path_inj assms(1,2) prefix_order.le_less by metis
  then show ?thesis by (simp add: forget_def)
qed

lemma forget_world [simp]: "world (snd (forget ps s)) = world s"
  by (simp add: forget_def)

lemma forget_result [simp]: "fst (forget ps s) = Inr ()"
  by (simp add: forget_def)

lemma longest_resolved_upto_le: "snd (longest_resolved_upto f s parts n) \<le> n"
  by (induction n) (auto split: option.splits)

lemma on_world_resolved [simp]: "resolved (snd (on_world m s)) = resolved s"
  by (simp add: on_world_def split: prod.splits)

lemma list_node_resolved [simp]: "resolved (snd (list_node f n s)) = resolved s"
  by (auto simp: list_node_def bindE_app split: prod.splits sum.splits)

lemma world_on_world: "world (snd (on_world m s)) = snd (m (world s))"
  by (simp add: on_world_def split: prod.splits)

lemma on_world_iff: "on_world m s = (r, t) \<longleftrightarrow> (\<exists>w. m (world s) = (r, w) \<and> t = s\<lparr>world := w\<rparr>)"
  by (auto simp: on_world_def split: prod.splits)

lemma find_child_Inr: "find_child cs p = Inr c \<Longrightarrow> c \<in> set cs \<and> entry_name c = p"
  by (induction cs) (auto split: if_splits)

lemma find_child_Inl: "find_child cs p = Inl e \<longleftrightarrow> e = ErrNotExist \<and> p \<notin> entry_name ` set cs"
  by (induction cs) auto

lemma find_child_distinct:
  "distinct (map entry_name cs) \<Longrightarrow> c \<in> set cs \<Longrightarrow> find_child cs (entry_name c) = Inr c"
  by (induction cs) auto

section \<open>Everything done to the world goes through a registered backend\<close>

lemma backend_for_registered: "backend_for f n = Inr b \<Longrightarrow> \<exists>sch. fs_backends f sch = Some b"
  by (auto simp: backend_for_def split: if_splits option.splits)

lemma keeps_bind_lift:
  "(\<And>x. r = Inr x \<Longrightarrow> keeps P (k x)) \<Longrightarrow> keeps P (bindE (liftE r) k)"
  by (cases r) (auto simp: keeps_failE)

text \<open>A writer the filesystem hands out is one of a registered backend, with a limit or without.\<close>

lemma created_writer:
  assumes "fs_create f path s = (Inr wr, t)"
  obtains n b wr0 w w' where "backend_for f n = Inr b" and "backend_create b n w = (Inr wr0, w')"
    and "wr = wr0 \<or> wr = size_limited_writer wr0 (MaxUploadSize (attrs_of n))"
  using assms
  by (auto simp: fs_create_def bindE_Inr_iff on_world_def split: option.splits if_splits prod.splits)

definition keeps_writer :: "('w \<Rightarrow> bool) \<Rightarrow> 'w writer \<Rightarrow> bool" where
  "keeps_writer I wr \<longleftrightarrow>
     (\<forall>w. I w \<longrightarrow> (\<forall>d off. I (snd (write_at wr d off w))) \<and> I (snd (write_close wr w)) \<and>
                   I (snd (write_abort wr w)))"

lemma keeps_writer_limited: "keeps_writer I wr \<Longrightarrow> keeps_writer I (size_limited_writer wr m)"
  by (simp add: keeps_writer_def size_limited_writer_def)

definition keeps_reader :: "('w \<Rightarrow> bool) \<Rightarrow> 'w reader \<Rightarrow> bool" where
  "keeps_reader I rd \<longleftrightarrow>
     (\<forall>w. I w \<longrightarrow> (\<forall>n off. I (snd (read_at rd n off w))) \<and> I (snd (read_size rd w)) \<and>
                   I (snd (read_close rd w)))"

text \<open>
  The methods of one backend keep \<open>I\<close>, those of the readers and the writers it makes included.
\<close>

definition backend_keeps :: "('w \<Rightarrow> bool) \<Rightarrow> 'w backend \<Rightarrow> bool" where
  "backend_keeps I b \<longleftrightarrow>
     (\<forall>n. keeps I (backend_list b n) \<and> keeps I (backend_open b n) \<and> keeps I (backend_create b n) \<and>
          keeps I (backend_mkdir b n) \<and> keeps I (backend_remove b n) \<and>
          (\<forall>from to. keeps I (backend_rename b n from to)) \<and>
          (\<forall>w rd w'. backend_open b n w = (Inr rd, w') \<longrightarrow> keeps_reader I rd) \<and>
          (\<forall>w wr w'. backend_create b n w = (Inr wr, w') \<longrightarrow> keeps_writer I wr))"

text \<open>Resolving a path does nothing to the world but list directories.\<close>

locale kept_by_listing =
  fixes f :: "'w fs" and I :: "'w \<Rightarrow> bool"
  assumes listing_keeps: "fs_backends f sch = Some b \<Longrightarrow> keeps I (backend_list b n)"
begin

abbreviation J :: "'w fs_state \<Rightarrow> bool" where "J s \<equiv> I (world s)"

lemma on_world_keeps: "keeps I m \<Longrightarrow> keeps J (on_world m)"
  by (auto simp: keeps_def on_world_def split: prod.splits)

lemma remember_keeps [keeps_rules]: "keeps J (remember ps n)"
  by (simp add: keeps_def remember_def)

lemma forget_keeps [keeps_rules]: "keeps J (forget ps)"
  by (simp add: keeps_def)

lemma list_keeps [keeps_rules]: "keeps J (list_node f n)"
  unfolding list_node_def
  by (intro keeps_rules keeps_bind_lift on_world_keeps) (auto dest!: backend_for_registered listing_keeps)

lemma resolve_loop_keeps [keeps_rules]: "keeps J (resolve_loop f walked n rest)"
proof (induction rest arbitrary: walked n)
  case (Cons part rest)
  show ?case
    unfolding resolve_loop.simps by (intro keeps_rules Cons.IH)
qed (simp add: keeps_rules)

lemma resolve_keeps [keeps_rules]: "keeps J (resolve f ps)"
proof (rule keepsI)
  fix s :: "'w fs_state"
  assume "J s"
  then show "J (snd (resolve f ps s))"
    using keepsD [OF resolve_loop_keeps] by (auto simp: resolve_def split: prod.splits)
qed

lemma new_child_keeps [keeps_rules]: "keeps J (new_child f ps)"
  unfolding new_child_def by (intro keeps_rules keeps_bind_lift)

lemma stat_keeps: "keeps J (fs_stat f path)"
  unfolding fs_stat_def
  by (cases "split_path path") (simp_all add: keeps_rules)

lemma list_op_keeps: "keeps J (fs_list f path)"
  unfolding fs_list_def
  by (cases "split_path path") (simp_all add: keeps_rules)

lemma node_to_create_keeps [keeps_rules]: "keeps J (node_to_create f ps)"
proof (rule keepsI)
  fix s :: "'w fs_state"
  assume s: "J s"
  obtain r t where rt: "resolve f ps s = (r, t)" by (cases "resolve f ps s")
  then have "J t" using keepsD' [OF resolve_keeps s] by simp
  then show "J (snd (node_to_create f ps s))"
    using rt keepsD [OF new_child_keeps] by (auto simp: node_to_create_def split: sum.splits)
qed

lemma create_kept:
  assumes "\<And>n b. backend_for f n = Inr b \<Longrightarrow> keeps I (backend_create b n)"
  shows "keeps J (fs_create f path)"
proof -
  have c: "keeps J (bindE (on_world (backend_create b n))
      (\<lambda>wr. if 0 < sint (MaxUploadSize (attrs_of n))
             then returnE (size_limited_writer wr (MaxUploadSize (attrs_of n))) else returnE wr))"
    if "backend_for f n = Inr b" for n b
    using assms [OF that] by (intro keeps_rules on_world_keeps)
  show ?thesis
    unfolding fs_create_def
    by (cases "split_path path") (auto intro!: keeps_rules keeps_bind_lift c)
qed

end

text \<open>Every method of every backend keeps the invariant.\<close>

locale kept_by_backends = kept_by_listing f I for f :: "'w fs" and I :: "'w \<Rightarrow> bool" +
  assumes backends_keep: "fs_backends f sch = Some b \<Longrightarrow> backend_keeps I b"
begin

lemma serving: "backend_for f n = Inr b \<Longrightarrow> backend_keeps I b"
  using backends_keep backend_for_registered by metis

lemma open_keeps: "keeps J (fs_open f path)"
proof -
  have "keeps J (bindE (liftE (backend_for f n)) (\<lambda>b. on_world (backend_open b n)))" for n
    by (intro keeps_bind_lift on_world_keeps) (auto dest: serving simp: backend_keeps_def)
  then show ?thesis
    unfolding fs_open_def by (cases "split_path path") (simp_all add: keeps_rules)
qed

lemma create_keeps: "keeps J (fs_create f path)"
  using serving by (intro create_kept) (simp add: backend_keeps_def)

lemma mkdir_keeps: "keeps J (fs_mkdir f path)"
proof -
  have m: "keeps J (bindE (new_child f ps) (\<lambda>n. bindE (liftE (backend_for f n))
      (\<lambda>b. on_world (backend_mkdir b n))))" for ps
    by (intro keeps_rules keeps_bind_lift on_world_keeps) (auto dest: serving simp: backend_keeps_def)
  show ?thesis
  proof (rule keepsI)
    fix s :: "'w fs_state"
    assume s: "J s"
    have "J t" if "resolve f ps s = (r, t)" for ps r t
      using keepsD' [OF resolve_keeps s that] .
    then show "J (snd (fs_mkdir f path s))"
      using s keepsD [OF m] by (auto simp: fs_mkdir_def split: option.splits prod.splits sum.splits)
  qed
qed

lemma remove_keeps: "keeps J (fs_remove f path)"
proof -
  have r: "keeps J (on_world (backend_remove b n))" if "backend_for f n = Inr b" for n b
    using serving [OF that] by (intro on_world_keeps) (simp add: backend_keeps_def)
  show ?thesis
    unfolding fs_remove_def
    by (cases "split_path path") (auto intro!: keeps_rules keeps_bind_lift r)
qed

lemma rename_keeps: "keeps J (fs_rename f from to)"
proof -
  have r: "keeps J (on_world (backend_rename b n x y))" if "backend_for f n = Inr b" for n b x y
    using serving [OF that] by (intro on_world_keeps) (simp add: backend_keeps_def)
  show ?thesis
    unfolding fs_rename_def
    by (cases "split_path from"; cases "split_path to") (auto intro!: keeps_rules keeps_bind_lift r)
qed

lemma create_writer_keeps:
  assumes "fs_create f path s = (Inr wr, t)"
  shows "keeps_writer I wr"
proof -
  obtain n b wr0 w w' where "backend_for f n = Inr b" and "backend_create b n w = (Inr wr0, w')"
    and wr: "wr = wr0 \<or> wr = size_limited_writer wr0 (MaxUploadSize (attrs_of n))"
    using created_writer [OF assms] .
  then have "keeps_writer I wr0" using serving unfolding backend_keeps_def by blast
  then show ?thesis using wr keeps_writer_limited by blast
qed

lemma open_reader_keeps:
  assumes "fs_open f path s = (Inr rd, t)"
  shows "keeps_reader I rd"
proof -
  obtain n b w w' where "backend_for f n = Inr b" and "backend_open b n w = (Inr rd, w')"
    using assms
    by (auto simp: fs_open_def bindE_Inr_iff on_world_iff split: option.splits if_splits)
  then show ?thesis using serving unfolding backend_keeps_def by blast
qed

lemmas operations_keep = stat_keeps list_op_keeps open_keeps create_keeps mkdir_keeps remove_keeps rename_keeps

end

end
