(* ===== verification/Vfs_Resolve.thy ===== *)
theory Vfs_Resolve
  imports Vfs_Facts
begin

text \<open>
  Resolution through the cache against its specification: the walk from the root over what
  the nodes list. The locale \<open>stable_listings\<close> asks that listings stay what they are; inside
  it resolving gives what the walk gives and the cache stays coherent. Without it, what still
  holds is which entries an operation may look at, and which are gone after a change.
\<close>

section \<open>The walk\<close>

fun walk :: "(node \<Rightarrow> verror + node list) \<Rightarrow> node \<Rightarrow> string list \<Rightarrow> verror + node" where
  "walk L current [] = Inr current"
| "walk L current (part # rest) =
     (if \<not> is_directory current then Inl ErrNotExist
      else (case L current of
              Inl e \<Rightarrow> Inl e
            | Inr children \<Rightarrow>
                (case find_child children part of Inl e \<Rightarrow> Inl e | Inr child \<Rightarrow> walk L child rest)))"

lemma walk_append:
  "walk L n (ps @ qs) = (case walk L n ps of Inl e \<Rightarrow> Inl e | Inr m \<Rightarrow> walk L m qs)"
  by (induction L n ps rule: walk.induct) (auto split: sum.splits)

text \<open>What is remembered for a path is what the walk finds there.\<close>

definition coherent :: "'w fs \<Rightarrow> (node \<Rightarrow> verror + node list) \<Rightarrow> 'w fs_state \<Rightarrow> bool" where
  "coherent f L s \<longleftrightarrow>
     (\<forall>ps n. valid_parts ps \<longrightarrow> resolved s (join_path ps) = Some n \<longrightarrow>
             walk L (root_entry (fs_root f)) ps = Inr n)"

lemma coherentD:
  "coherent f L s \<Longrightarrow> valid_parts ps \<Longrightarrow> resolved s (join_path ps) = Some n \<Longrightarrow>
   walk L (root_entry (fs_root f)) ps = Inr n"
  unfolding coherent_def by blast

lemma coherent_empty: "resolved s = Map.empty \<Longrightarrow> coherent f L s"
  by (simp add: coherent_def)

lemma coherent_world: "coherent f L (s\<lparr>world := w\<rparr>) = coherent f L s"
  by (simp add: coherent_def)

lemma coherent_remember:
  assumes "coherent f L s" and "valid_parts ps" and "walk L (root_entry (fs_root f)) ps = Inr n"
  shows "coherent f L (snd (remember ps n s))"
  unfolding coherent_def
proof (intro allI impI)
  fix qs m
  assume qs: "valid_parts qs" and m: "resolved (snd (remember ps n s)) (join_path qs) = Some m"
  show "walk L (root_entry (fs_root f)) qs = Inr m"
  proof (cases "qs = ps")
    case True
    then show ?thesis using m assms(3) by (simp add: remember_def)
  next
    case False
    then have "join_path qs \<noteq> join_path ps" using join_path_inj qs assms(2) by blast
    then show ?thesis using m coherentD [OF assms(1) qs] by (simp add: remember_def)
  qed
qed

text \<open>
  What a change beneath one path leaves valid: forgetting that path is enough when the walk
  to every other path finds what it found before.
\<close>

lemma coherent_forget:
  assumes "coherent f L s" and "valid_parts ps" and "ps \<noteq> []"
    and "\<And>qs n. valid_parts qs \<Longrightarrow> \<not> prefix ps qs \<Longrightarrow> walk L (root_entry (fs_root f)) qs = Inr n \<Longrightarrow>
           walk L' (root_entry (fs_root f)) qs = Inr n"
  shows "coherent f L' (snd (forget ps s))"
  unfolding coherent_def
proof (intro allI impI)
  fix qs m
  assume qs: "valid_parts qs" and m: "resolved (snd (forget ps s)) (join_path qs) = Some m"
  then have "\<not> prefix ps qs" and "resolved s (join_path qs) = Some m"
    using resolved_forget [OF assms(2) qs assms(3), of s] by (auto split: if_splits)
  then show "walk L' (root_entry (fs_root f)) qs = Inr m"
    using assms(4) qs coherentD [OF assms(1) qs] by blast
qed

lemma longest_resolved_walk:
  assumes "coherent f L s" and "valid_parts ps" and "n \<le> length ps"
    and "longest_resolved_upto f s ps n = (current, index)"
  shows "walk L (root_entry (fs_root f)) (take index ps) = Inr current \<and> index \<le> n"
  using assms(3,4)
proof (induction n)
  case 0
  then show ?case by simp
next
  case (Suc n)
  have take: "valid_parts (take (Suc n) ps)" using assms(2) in_set_takeD by metis
  show ?case
  proof (cases "resolved s (join_path (take (Suc n) ps))")
    case None
    then show ?thesis using Suc by auto
  next
    case (Some m)
    then show ?thesis using Suc.prems coherentD [OF assms(1) take] by auto
  qed
qed

section \<open>The operations without a cache\<close>

text \<open>
  What each operation of the filesystem is meant to do, over the walk from the root and the
  world alone: which node a path names, the checks made on it, the backend its URL selects, and
  the one method of that backend that is called.
\<close>

definition node_at :: "'w fs \<Rightarrow> (node \<Rightarrow> verror + node list) \<Rightarrow> string \<Rightarrow> verror + node" where
  "node_at f L path =
     (case split_path path of None \<Rightarrow> Inl ErrNotExist | Some ps \<Rightarrow> walk L (root_entry (fs_root f)) ps)"

definition dispatched ::
  "'w fs \<Rightarrow> ('w backend \<Rightarrow> node \<Rightarrow> 'w \<Rightarrow> (verror + 'a) \<times> 'w) \<Rightarrow> verror + node \<Rightarrow> 'w \<Rightarrow> (verror + 'a) \<times> 'w" where
  "dispatched f call r w =
     (case r of Inl e \<Rightarrow> (Inl e, w)
      | Inr n \<Rightarrow> (case backend_for f n of Inl e \<Rightarrow> (Inl e, w) | Inr b \<Rightarrow> call b n w))"

definition but_root :: "string \<Rightarrow> verror + 'a \<Rightarrow> verror + 'a" where
  "but_root path r = (if split_path path = None \<or> split_path path = Some [] then Inl ErrNotExist else r)"

definition the_parts :: "string \<Rightarrow> string list" where
  "the_parts path = the (split_path path)"

definition child_at :: "'w fs \<Rightarrow> (node \<Rightarrow> verror + node list) \<Rightarrow> string \<Rightarrow> verror + node" where
  "child_at f L path =
     (case walk L (root_entry (fs_root f)) (butlast (the_parts path)) of
        Inl e \<Rightarrow> Inl e
      | Inr parent \<Rightarrow>
          if \<not> is_directory parent then Inl ErrNotExist
          else (case backend_for f parent of
                  Inl e \<Rightarrow> Inl e
                | Inr b \<Rightarrow> backend_child b parent (last (the_parts path))))"

definition plain_stat :: "'w fs \<Rightarrow> (node \<Rightarrow> verror + node list) \<Rightarrow> string \<Rightarrow> verror + node" where
  "plain_stat f L path =
     (if split_path path = Some [] then Inr (root_entry (fs_root f))
      else but_root path
        (case walk L (root_entry (fs_root f)) (butlast (the_parts path)) of
           Inl e \<Rightarrow> Inl e
         | Inr parent \<Rightarrow>
             (case L parent of Inl e \<Rightarrow> Inl e | Inr children \<Rightarrow> find_child children (last (the_parts path)))))"

definition plain_list :: "'w fs \<Rightarrow> (node \<Rightarrow> verror + node list) \<Rightarrow> string \<Rightarrow> verror + node list" where
  "plain_list f L path =
     (case node_at f L path of
        Inl e \<Rightarrow> Inl e | Inr n \<Rightarrow> if is_directory n then L n else Inl ErrUnsupported)"

definition a_file :: "verror + node \<Rightarrow> verror + node" where
  "a_file r = (case r of Inl e \<Rightarrow> Inl e | Inr n \<Rightarrow> if is_directory n then Inl ErrUnsupported else Inr n)"

definition plain_open ::
  "'w fs \<Rightarrow> (node \<Rightarrow> verror + node list) \<Rightarrow> string \<Rightarrow> 'w \<Rightarrow> (verror + 'w reader) \<times> 'w" where
  "plain_open f L path = dispatched f backend_open (a_file (node_at f L path))"

definition limited :: "node \<Rightarrow> 'w writer \<Rightarrow> 'w writer" where
  "limited n wr =
     (let m = MaxUploadSize (attrs_of n) in if 0 < sint m then size_limited_writer wr m else wr)"

definition plain_create ::
  "'w fs \<Rightarrow> (node \<Rightarrow> verror + node list) \<Rightarrow> string \<Rightarrow> 'w \<Rightarrow> (verror + 'w writer) \<times> 'w" where
  "plain_create f L path =
     dispatched f (\<lambda>b n w. (case backend_create b n w of (r, w') \<Rightarrow> (map_sum id (limited n) r, w')))
       (but_root path
         (if node_at f L path = Inl ErrNotExist then child_at f L path else a_file (node_at f L path)))"

definition plain_mkdir ::
  "'w fs \<Rightarrow> (node \<Rightarrow> verror + node list) \<Rightarrow> string \<Rightarrow> 'w \<Rightarrow> (verror + unit) \<times> 'w" where
  "plain_mkdir f L path =
     dispatched f backend_mkdir
       (but_root path
         (case node_at f L path of
            Inr _ \<Rightarrow> Inl ErrExist
          | Inl e \<Rightarrow> if e = ErrNotExist then child_at f L path else Inl e))"

definition plain_remove ::
  "'w fs \<Rightarrow> (node \<Rightarrow> verror + node list) \<Rightarrow> string \<Rightarrow> 'w \<Rightarrow> (verror + unit) \<times> 'w" where
  "plain_remove f L path = dispatched f backend_remove (but_root path (node_at f L path))"

definition plain_rename ::
  "'w fs \<Rightarrow> (node \<Rightarrow> verror + node list) \<Rightarrow> string \<Rightarrow> string \<Rightarrow> 'w \<Rightarrow> (verror + unit) \<times> 'w" where
  "plain_rename f L from_path to_path =
     dispatched f (\<lambda>b n. backend_rename b n (join_path (the_parts from_path)) (join_path (the_parts to_path)))
       (but_root from_path (but_root to_path (node_at f L from_path)))"

text \<open>What of an operation on the filesystem can be seen from outside it.\<close>

definition seen :: "'r \<times> 'w fs_state \<Rightarrow> 'r \<times> 'w" where
  "seen x = (fst x, world (snd x))"

lemma seen_pair [simp]: "seen (r, s) = (r, world s)"
  by (simp add: seen_def)

lemma seen_on_world [simp]: "seen (on_world m s) = m (world s)"
  by (simp add: seen_def on_world_def split: prod.splits)

section \<open>Listings that stay what they are\<close>

definition stable :: "'w fs \<Rightarrow> (node \<Rightarrow> verror + node list) \<Rightarrow> ('w \<Rightarrow> bool) \<Rightarrow> bool" where
  "stable f L J \<longleftrightarrow>
     (\<forall>s n. J (world s) \<longrightarrow> fst (list_node f n s) = L n \<and> J (world (snd (list_node f n s))))"

locale stable_listings =
  fixes f :: "'w fs" and L :: "node \<Rightarrow> verror + node list" and J :: "'w \<Rightarrow> bool"
  assumes stable: "stable f L J"
begin

abbreviation root :: node where "root \<equiv> root_entry (fs_root f)"

abbreviation good :: "'w fs_state \<Rightarrow> bool" where "good s \<equiv> J (world s) \<and> coherent f L s"

lemma list_node_stable:
  assumes "good s"
  obtains t where "list_node f n s = (L n, t)" and "good t"
proof -
  obtain r t where rt: "list_node f n s = (r, t)" by (cases "list_node f n s")
  have "fst (list_node f n s) = L n \<and> J (world (snd (list_node f n s)))"
    using stable assms unfolding stable_def by blast
  moreover have "resolved t = resolved s"
    using list_node_resolved [of f n s] rt by simp
  ultimately show ?thesis
    using that rt assms by (simp add: coherent_def)
qed

lemma remember_good:
  assumes "good s" and "valid_parts ps" and "walk L root ps = Inr n"
  obtains t where "remember ps n s = (Inr (), t)" and "good t"
  using that coherent_remember [OF _ assms(2,3), of s] assms(1) by (simp add: remember_def)

lemma resolve_loop_walk:
  assumes "good s" and "valid_parts (walked @ rest)" and "walk L root walked = Inr current"
  shows "\<exists>t. resolve_loop f walked current rest s = (walk L current rest, t) \<and> good t"
  using assms
proof (induction rest arbitrary: s walked current)
  case Nil
  then show ?case by simp
next
  case (Cons part rest)
  obtain t where t: "list_node f current s = (L current, t)" "good t"
    using list_node_stable Cons.prems(1) .
  show ?case
  proof (cases "\<exists>cs c. is_directory current \<and> L current = Inr cs \<and> find_child cs part = Inr c")
    case True
    then obtain cs c where c: "is_directory current" "L current = Inr cs" "find_child cs part = Inr c"
      by blast
    have w: "walk L root (walked @ [part]) = Inr c"
      using c Cons.prems(3) by (simp add: walk_append)
    moreover have "valid_parts (walked @ [part])" using Cons.prems(2) by simp
    ultimately obtain u where u: "remember (walked @ [part]) c t = (Inr (), u)" "good u"
      using remember_good [OF t(2)] by metis
    have "valid_parts ((walked @ [part]) @ rest)" using Cons.prems(2) by simp
    from Cons.IH [OF u(2) this w] show ?thesis using c t u by simp
  next
    case False
    then show ?thesis using t Cons.prems(1)
      by (auto simp: bindE_app split: sum.splits)
  qed
qed

lemma resolve_walk:
  assumes "good s" and "valid_parts ps"
  shows "\<exists>t. resolve f ps s = (walk L root ps, t) \<and> good t"
proof (cases "ps = []")
  case True
  then show ?thesis using assms by (simp add: resolve_def)
next
  case False
  obtain current index where ci: "longest_resolved f s ps = (current, index)"
    by (cases "longest_resolved f s ps")
  have w: "walk L root (take index ps) = Inr current"
    using longest_resolved_walk [of f L s ps "length ps"] ci assms
    unfolding longest_resolved_def by blast
  have "valid_parts (take index ps @ drop index ps)" using assms(2) by simp
  from resolve_loop_walk [OF assms(1) this w] obtain t
    where "resolve_loop f (take index ps) current (drop index ps) s = (walk L current (drop index ps), t)"
      and "good t" by blast
  moreover have "walk L root ps = walk L current (drop index ps)"
    using w walk_append [of L root "take index ps" "drop index ps"] by simp
  ultimately show ?thesis using False ci by (simp add: resolve_def)
qed

text \<open>\<open>Stat\<close>, \<open>List\<close> and the node a create works on, over the walk.\<close>

lemma list_walk:
  assumes "good s" and "valid_parts ps"
  shows "fst (fs_list f (join_path ps) s) =
    (case walk L root ps of Inl e \<Rightarrow> Inl e
     | Inr n \<Rightarrow> if is_directory n then L n else Inl ErrUnsupported)"
proof -
  obtain t where t: "resolve f ps s = (walk L root ps, t)" "good t"
    using resolve_walk [OF assms] by blast
  have "fst (list_node f n t) = L n" for n
    using list_node_stable [OF t(2)] by (metis fst_conv)
  then show ?thesis
    using t by (simp add: fs_list_def split_path_join_path [OF assms(2)] bindE_app split: sum.splits)
qed

lemma stat_walk:
  assumes "good s" and "valid_parts ps" and "valid_part p"
    and "walk L root ps = Inr parent" and "is_directory parent"
  shows "\<exists>t. fs_stat f (join_path (ps @ [p])) s = (walk L root (ps @ [p]), t) \<and> good t"
proof -
  have v: "valid_parts (ps @ [p])" using assms(2,3) by simp
  obtain t where t: "resolve f ps s = (Inr parent, t)" "good t"
    using resolve_walk [OF assms(1,2)] assms(4) by auto
  obtain u where u: "list_node f parent t = (L parent, u)" "good u"
    using list_node_stable [OF t(2)] .
  show ?thesis
  proof (cases "\<exists>cs c. L parent = Inr cs \<and> find_child cs p = Inr c")
    case True
    then obtain cs c where c: "L parent = Inr cs" "find_child cs p = Inr c" by blast
    then have w: "walk L root (ps @ [p]) = Inr c" using assms(4,5) by (simp add: walk_append)
    obtain x where "remember (ps @ [p]) c u = (Inr (), x)" "good x"
      using remember_good [OF u(2) v w] .
    then show ?thesis
      using c t u w by (simp add: fs_stat_def split_path_join_path [OF v])
  next
    case False
    then show ?thesis
      using t u assms(4,5)
      by (auto simp: fs_stat_def split_path_join_path [OF v] walk_append bindE_app split: sum.splits)
  qed
qed

text \<open>
  No operation can be told from the one without a cache: it answers, and does to the world,
  what that one would in some world the listings it asked for may have led to.
\<close>

lemma resolve_good:
  assumes "good s" and "valid_parts ps"
  obtains t where "resolve f ps s = (walk L root ps, t)" and "good t"
  using resolve_walk [OF assms] by blast

lemma valid_butlast: "valid_parts ps \<Longrightarrow> valid_parts (butlast ps)"
  by (meson in_set_butlastD)

lemma child_plain:
  assumes "good s" and "split_path path = Some ps"
  obtains t where "new_child f ps s = (child_at f L path, t)" and "good t"
proof -
  obtain t where t: "resolve f (butlast ps) s = (walk L root (butlast ps), t)" "good t"
    using resolve_good [OF assms(1) valid_butlast [OF split_path_valid [OF assms(2)]]] .
  then have "new_child f ps s = (child_at f L path, t)"
    using assms(2) by (auto simp: new_child_def child_at_def the_parts_def bindE_app split: sum.splits)
  then show thesis using that t(2) by blast
qed

lemma dispatched_seen:
  "seen (bindE (liftE (backend_for f n)) (\<lambda>b. on_world (call b n)) t) = dispatched f call (Inr n) (world t)"
  by (cases "backend_for f n") (simp_all add: dispatched_def)

lemma dispatched_Inl [simp]: "dispatched f call (Inl e) w = (Inl e, w)"
  by (simp add: dispatched_def)

lemma stat_plain:
  assumes "good s"
  shows "fst (fs_stat f path s) = plain_stat f L path \<and> J (world (snd (fs_stat f path s)))"
proof (cases "split_path path")
  case None
  then show ?thesis using assms by (simp add: fs_stat_def plain_stat_def but_root_def)
next
  case (Some ps)
  show ?thesis
  proof (cases "ps = []")
    case True
    then show ?thesis using Some assms by (simp add: fs_stat_def plain_stat_def)
  next
    case False
    note v = split_path_valid [OF Some]
    obtain t where t: "resolve f (butlast ps) s = (walk L root (butlast ps), t)" "good t"
      using resolve_good [OF assms valid_butlast [OF v]] .
    have parts: "the_parts path = ps" using Some by (simp add: the_parts_def)
    have plain: "plain_stat f L path = (case walk L root (butlast ps) of
           Inl e \<Rightarrow> Inl e
         | Inr parent \<Rightarrow> (case L parent of Inl e \<Rightarrow> Inl e | Inr children \<Rightarrow> find_child children (last ps)))"
      using Some False unfolding plain_stat_def but_root_def parts by simp
    show ?thesis
    proof (cases "walk L root (butlast ps)")
      case (Inl e)
      then show ?thesis using Some False t plain by (simp add: fs_stat_def)
    next
      case (Inr parent)
      obtain u where u: "list_node f parent t = (L parent, u)" "good u"
        using list_node_stable [of t] t by blast
      show ?thesis
      proof (cases "\<exists>cs c. L parent = Inr cs \<and> find_child cs (last ps) = Inr c")
        case True
        then obtain cs c where c: "L parent = Inr cs" "find_child cs (last ps) = Inr c" by blast
        show ?thesis using Some False t Inr u c plain by (simp add: fs_stat_def remember_def)
      next
        case none: False
        then show ?thesis using Some False t Inr u plain
          by (auto simp: fs_stat_def bindE_app split: sum.splits)
      qed
    qed
  qed
qed

lemma list_op_plain:
  assumes "good s"
  shows "fst (fs_list f path s) = plain_list f L path \<and> good (snd (fs_list f path s))"
proof (cases "split_path path")
  case None
  then show ?thesis using assms by (simp add: fs_list_def plain_list_def node_at_def)
next
  case (Some ps)
  obtain t where t: "resolve f ps s = (walk L root ps, t)" "good t"
    using resolve_good [OF assms split_path_valid [OF Some]] .
  show ?thesis
  proof (cases "walk L root ps")
    case (Inl e)
    then show ?thesis using Some t by (simp add: fs_list_def plain_list_def node_at_def)
  next
    case (Inr n)
    obtain u where "list_node f n t = (L n, u)" "good u"
      using list_node_stable [of t] t by blast
    then show ?thesis using Some t Inr by (simp add: fs_list_def plain_list_def node_at_def)
  qed
qed

lemma open_plain:
  assumes "good s"
  shows "\<exists>w. J w \<and> seen (fs_open f path s) = plain_open f L path w"
proof (cases "split_path path")
  case None
  then show ?thesis using assms
    by (intro exI [of _ "world s"]) (simp add: fs_open_def plain_open_def node_at_def a_file_def)
next
  case (Some ps)
  obtain t where t: "resolve f ps s = (walk L root ps, t)" "good t"
    using resolve_good [OF assms split_path_valid [OF Some]] .
  then have "seen (fs_open f path s) = plain_open f L path (world t)"
    using Some dispatched_seen [of _ backend_open t]
    by (cases "walk L root ps") (simp_all add: fs_open_def plain_open_def node_at_def a_file_def)
  then show ?thesis using t(2) by blast
qed

lemma node_to_create_plain:
  assumes "good s" and "split_path path = Some ps" and "ps \<noteq> []"
  obtains t where "node_to_create f ps s =
      (if node_at f L path = Inl ErrNotExist then child_at f L path else a_file (node_at f L path), t)"
    and "good t"
proof -
  obtain t where t: "resolve f ps s = (walk L root ps, t)" "good t"
    using resolve_good [OF assms(1) split_path_valid [OF assms(2)]] .
  obtain u where u: "new_child f ps t = (child_at f L path, u)" "good u"
    using child_plain [of t path ps] t assms(2) by blast
  show thesis
  proof (cases "walk L root ps = Inl ErrNotExist")
    case True
    then show thesis using that [of u] t u assms by (simp add: node_to_create_def node_at_def)
  next
    case False
    then show thesis using that [of t] t assms
      by (auto simp: node_to_create_def node_at_def a_file_def split: sum.splits)
  qed
qed

lemma create_plain:
  assumes "good s"
  shows "\<exists>w. J w \<and> seen (fs_create f path s) = plain_create f L path w"
proof (cases "split_path path = None \<or> split_path path = Some []")
  case True
  then show ?thesis using assms
    by (intro exI [of _ "world s"]) (auto simp: fs_create_def plain_create_def but_root_def)
next
  case False
  then obtain ps where ps: "split_path path = Some ps" "ps \<noteq> []" by auto
  let ?r = "if node_at f L path = Inl ErrNotExist then child_at f L path else a_file (node_at f L path)"
  obtain t where t: "node_to_create f ps s = (?r, t)" "good t"
    using node_to_create_plain [OF assms ps] .
  have plain: "plain_create f L path w =
      dispatched f (\<lambda>b n w. (case backend_create b n w of (r, w') \<Rightarrow> (map_sum id (limited n) r, w'))) ?r w" for w
    using ps by (simp add: plain_create_def but_root_def)
  have "seen (fs_create f path s) = plain_create f L path (world t)"
  proof (cases ?r)
    case (Inl e)
    show ?thesis unfolding plain Inl using ps t [unfolded Inl] by (simp add: fs_create_def)
  next
    case (Inr n)
    show ?thesis unfolding plain Inr using ps t [unfolded Inr]
      by (auto simp: fs_create_def dispatched_def limited_def bindE_app on_world_def Let_def split: sum.splits prod.splits)
  qed
  then show ?thesis using t(2) by blast
qed

lemma mkdir_plain:
  assumes "good s"
  shows "\<exists>w. J w \<and> seen (fs_mkdir f path s) = plain_mkdir f L path w"
proof (cases "split_path path = None \<or> split_path path = Some []")
  case True
  then show ?thesis using assms
    by (intro exI [of _ "world s"]) (auto simp: fs_mkdir_def plain_mkdir_def but_root_def)
next
  case False
  then obtain ps where ps: "split_path path = Some ps" "ps \<noteq> []" by auto
  obtain t where t: "resolve f ps s = (walk L root ps, t)" "good t"
    using resolve_good [OF assms split_path_valid [OF ps(1)]] .
  obtain u where u: "new_child f ps t = (child_at f L path, u)" "good u"
    using child_plain [of t path ps] t ps by blast
  have at: "node_at f L path = walk L root ps" using ps by (simp add: node_at_def)
  show ?thesis
  proof (cases "walk L root ps = Inl ErrNotExist")
    case True
    then have "seen (fs_mkdir f path s) = plain_mkdir f L path (world u)"
      using ps t u at dispatched_seen [of _ backend_mkdir u]
      by (cases "child_at f L path") (simp_all add: fs_mkdir_def plain_mkdir_def but_root_def)
    then show ?thesis using u(2) by blast
  next
    case False
    then have "seen (fs_mkdir f path s) = plain_mkdir f L path (world t)" using ps t at
      by (cases "walk L root ps") (simp_all add: fs_mkdir_def plain_mkdir_def but_root_def)
    then show ?thesis using t(2) by blast
  qed
qed

lemma remove_plain:
  assumes "good s"
  shows "\<exists>w. J w \<and> seen (fs_remove f path s) = plain_remove f L path w"
proof (cases "split_path path = None \<or> split_path path = Some []")
  case True
  then show ?thesis using assms
    by (intro exI [of _ "world s"]) (auto simp: fs_remove_def plain_remove_def but_root_def)
next
  case False
  then obtain ps where ps: "split_path path = Some ps" "ps \<noteq> []" by auto
  obtain t where t: "resolve f ps s = (walk L root ps, t)" "good t"
    using resolve_good [OF assms split_path_valid [OF ps(1)]] .
  have "seen (fs_remove f path s) = plain_remove f L path (world t)"
  proof (cases "walk L root ps")
    case (Inl e)
    then show ?thesis using ps t by (simp add: fs_remove_def plain_remove_def but_root_def node_at_def)
  next
    case (Inr n)
    then show ?thesis using ps t
      by (cases "backend_for f n")
        (simp_all add: fs_remove_def plain_remove_def but_root_def node_at_def dispatched_def forget_def)
  qed
  then show ?thesis using t(2) by blast
qed

lemma rename_plain:
  assumes "good s"
  shows "\<exists>w. J w \<and> seen (fs_rename f from_path to_path s) = plain_rename f L from_path to_path w"
proof (cases "split_path from_path = None \<or> split_path from_path = Some [] \<or>
              split_path to_path = None \<or> split_path to_path = Some []")
  case True
  then show ?thesis using assms
    by (intro exI [of _ "world s"])
      (auto simp: fs_rename_def plain_rename_def but_root_def split: option.splits)
next
  case False
  then obtain ps ts where ps: "split_path from_path = Some ps" "ps \<noteq> []"
      "split_path to_path = Some ts" "ts \<noteq> []" by auto
  obtain t where t: "resolve f ps s = (walk L root ps, t)" "good t"
    using resolve_good [OF assms split_path_valid [OF ps(1)]] .
  have "seen (fs_rename f from_path to_path s) = plain_rename f L from_path to_path (world t)"
  proof (cases "walk L root ps")
    case (Inl e)
    then show ?thesis using ps t by (simp add: fs_rename_def plain_rename_def but_root_def node_at_def)
  next
    case (Inr n)
    then show ?thesis using ps t
      by (cases "backend_for f n")
        (simp_all add: fs_rename_def plain_rename_def but_root_def node_at_def dispatched_def forget_def the_parts_def)
  qed
  then show ?thesis using t(2) by blast
qed

end

text \<open>
  Listings are stable when asking for one changes nothing and nothing else runs: what they are
  is what they are now. A filesystem without backends, the tree a configuration lays out, is
  one such.
\<close>

definition listing_in :: "'w fs \<Rightarrow> 'w \<Rightarrow> node \<Rightarrow> verror + node list" where
  "listing_in f w n = fst (list_node f n \<lparr>resolved = Map.empty, world = w\<rparr>)"

lemma list_node_result: "world s = world t \<Longrightarrow> fst (list_node f n s) = fst (list_node f n t)"
  by (cases "entry_backend n = []"; cases "backend_for f n")
     (auto simp: list_node_def on_world_def split: prod.splits)

lemma stable_read_only:
  assumes "\<And>sch b n. fs_backends f sch = Some b \<Longrightarrow> snd (backend_list b n w) = w"
  shows "stable f (listing_in f w) (\<lambda>x. x = w)"
  unfolding stable_def
proof (intro allI impI conjI)
  fix s :: "'a fs_state" and n
  assume w: "world s = w"
  show "fst (list_node f n s) = listing_in f w n"
    unfolding listing_in_def using w by (intro list_node_result) simp
  show "world (snd (list_node f n s)) = w"
  proof (cases "entry_backend n = [] \<or> (\<exists>e. backend_for f n = Inl e)")
    case True
    then show ?thesis using w by (auto simp: list_node_def)
  next
    case False
    then obtain b where b: "entry_backend n \<noteq> []" "backend_for f n = Inr b"
      by (cases "backend_for f n") auto
    from backend_for_registered [OF b(2)] obtain sch where "fs_backends f sch = Some b" ..
    from assms [OF this, of n] show ?thesis using w b
      by (simp add: list_node_def world_on_world)
  qed
qed

interpretation static: stable_listings "\<lparr>fs_root = r, fs_backends = Map.empty\<rparr>"
    "listing_in \<lparr>fs_root = r, fs_backends = Map.empty\<rparr> w" "\<lambda>x. x = w" for r w
  by unfold_locales (rule stable_read_only, simp)

section \<open>Which remembered paths an operation looks at\<close>

text \<open>Two states that differ in what is remembered for one path only.\<close>

definition same_but :: "string \<Rightarrow> 'w fs_state \<Rightarrow> 'w fs_state \<Rightarrow> bool" where
  "same_but key s t \<longleftrightarrow> world s = world t \<and> (\<forall>k. k \<noteq> key \<longrightarrow> resolved s k = resolved t k)"

lemma same_but_list_node:
  assumes "same_but key s t"
  shows "fst (list_node f n s) = fst (list_node f n t) \<and>
         same_but key (snd (list_node f n s)) (snd (list_node f n t))"
proof (cases "entry_backend n = []")
  case True
  then show ?thesis using assms by (simp add: list_node_def)
next
  case False
  then show ?thesis using assms
    by (cases "backend_for f n") (auto simp: list_node_def on_world_def same_but_def split: prod.splits)
qed

lemma same_but_remember:
  "same_but key s t \<Longrightarrow> same_but key (snd (remember ps n s)) (snd (remember ps n t))"
  by (simp add: same_but_def remember_def)

lemma same_but_longest:
  assumes "same_but key s t" and "\<And>i. i \<le> n \<Longrightarrow> join_path (take i ps) \<noteq> key"
  shows "longest_resolved_upto f s ps n = longest_resolved_upto f t ps n"
  using assms(2)
proof (induction n)
  case (Suc n)
  then have "resolved s (join_path (take (Suc n) ps)) = resolved t (join_path (take (Suc n) ps))"
    using assms(1) unfolding same_but_def by blast
  then show ?case using Suc by (auto split: option.splits)
qed simp

lemma same_but_resolve_loop:
  "same_but key s t \<Longrightarrow>
   fst (resolve_loop f walked n rest s) = fst (resolve_loop f walked n rest t) \<and>
   same_but key (snd (resolve_loop f walked n rest s)) (snd (resolve_loop f walked n rest t))"
proof (induction rest arbitrary: walked n s t)
  case Nil
  then show ?case by simp
next
  case (Cons part rest)
  obtain r s' where s': "list_node f n s = (r, s')" by (cases "list_node f n s")
  obtain r2 t' where t': "list_node f n t = (r2, t')" by (cases "list_node f n t")
  have rt: "r2 = r" "same_but key s' t'"
    using same_but_list_node [OF Cons.prems, of f n] s' t' by simp_all
  show ?case
  proof (cases "\<exists>cs c. is_directory n \<and> r = Inr cs \<and> find_child cs part = Inr c")
    case True
    then obtain cs c where c: "is_directory n" "r = Inr cs" "find_child cs part = Inr c" by blast
    have "same_but key (snd (remember (walked @ [part]) c s')) (snd (remember (walked @ [part]) c t'))"
      using rt(2) by (rule same_but_remember)
    from Cons.IH [OF this] show ?thesis
      using c s' t' rt(1) by (simp add: remember_def)
  next
    case False
    then show ?thesis using s' t' rt Cons.prems
      by (auto simp: bindE_app split: sum.splits)
  qed
qed

lemma same_but_resolve:
  assumes "same_but key s t" and "\<And>i. i \<le> length ps \<Longrightarrow> join_path (take i ps) \<noteq> key"
  shows "fst (resolve f ps s) = fst (resolve f ps t) \<and>
         same_but key (snd (resolve f ps s)) (snd (resolve f ps t))"
proof (cases "ps = []")
  case True
  then show ?thesis using assms(1) by (simp add: resolve_def)
next
  case False
  have eq: "longest_resolved f s ps = longest_resolved f t ps"
    unfolding longest_resolved_def using assms by (intro same_but_longest) auto
  obtain c i where ci: "longest_resolved f t ps = (c, i)" by (cases "longest_resolved f t ps")
  show ?thesis
    using same_but_resolve_loop [OF assms(1), of f "take i ps" c "drop i ps"] False eq ci
    by (simp add: resolve_def)
qed

end
