(* ===== verification/Vfs_Properties.thy ===== *)
theory Vfs_Properties
  imports Vfs_Resolve
begin

text \<open>
  The properties of the virtual filesystem, and a small backend they are evaluated on: one
  directory whose listing the world holds, each file its node's location, dispatched under the
  scheme \<open>mem\<close>.
\<close>

section \<open>Paths\<close>

text \<open>
  C12. A virtual path is accepted exactly when it is the joined form of components none of
  which is empty, a dot, two dots, or holds a slash or a NUL byte, and its components are what
  it was joined from; the empty path is the root.
\<close>

theorem split_path_exact:
  "split_path raw = Some parts \<longleftrightarrow>
     valid_parts parts \<and> (raw = join_path parts \<or> raw = [] \<and> parts = [])"
proof
  assume "split_path raw = Some parts"
  then show "valid_parts parts \<and> (raw = join_path parts \<or> raw = [] \<and> parts = [])"
    using split_path_valid split_path_joined by blast
next
  assume "valid_parts parts \<and> (raw = join_path parts \<or> raw = [] \<and> parts = [])"
  then show "split_path raw = Some parts"
  proof (cases "raw = []")
    case True
    moreover have "join_path parts \<noteq> []" by (simp add: join_path_def)
    ultimately show ?thesis
      using \<open>valid_parts parts \<and> _\<close> by (auto simp: split_path_def)
  next
    case False
    then show ?thesis
      using \<open>valid_parts parts \<and> _\<close> split_path_join_path by simp
  qed
qed

theorem split_path_exact_witness:
  "split_path ''/in/..'' \<noteq> Some [''in'', ''..''] \<and> split_path ''/in/a.txt'' = Some [''in'', ''a.txt'']"
proof -
  have "valid_parts [''in'', ''a.txt'']" by code_simp
  moreover have "\<not> valid_parts [''in'', ''..'']" by code_simp
  ultimately show ?thesis
    using split_path_exact [of "''/in/a.txt''" "[''in'', ''a.txt'']"]
      split_path_exact [of "''/in/..''" "[''in'', ''..'']"] by (simp add: join_path_def)
qed

section \<open>The upload limit\<close>

text \<open>
  Not every path that is accepted could be that of an entry: a backslash passes here, and no
  listing carries a name with one.
\<close>

lemma path_no_listing_can_carry:
  "split_path [slash, CHR ''a'', backslash] = Some [[CHR ''a'', backslash]] \<and> \<not> valid_name [CHR ''a'', backslash]"
  by code_simp

lemma sint_within_limit:
  fixes m off :: int64
  assumes "0 \<le> sint off" and "sint off \<le> sint m"
  shows "sint (m - off) = sint m - sint off"
proof -
  have "- (2 ^ 63) \<le> sint m - sint off \<and> sint m - sint off < 2 ^ 63"
    using assms sint_lt [of m] sint_ge [of m] by simp
  then have "sint (word_of_int (sint m - sint off) :: int64) = sint m - sint off"
    by (subst sint_sbintrunc') (simp add: signed_take_bit_int_eq_self)
  then show ?thesis by (simp add: word_of_int_minus)
qed

text \<open>
  C11. The upload limit accepts a write exactly when it lies within the first maxSize bytes,
  computed without overflow for every 64-bit offset and limit, and passes an accepted write on
  unchanged; a refused one touches nothing.
\<close>

theorem size_limited_writer_accepts:
  "write_at (size_limited_writer wr maxSize) data offset w =
     (if 0 \<le> sint offset \<and> sint offset + int (length data) \<le> sint maxSize
      then write_at wr data offset w else ((0, Some ErrFailure), w))"
  using sint_within_limit [of offset maxSize]
  by (auto simp: size_limited_writer_def)

section \<open>Everything done to the world is a backend's doing\<close>

definition registered_keep :: "'w fs \<Rightarrow> ('w \<Rightarrow> bool) \<Rightarrow> bool" where
  "registered_keep f I \<longleftrightarrow> (\<forall>sch b. fs_backends f sch = Some b \<longrightarrow> backend_keeps I b)"

text \<open>
  What a client can do, in any order: any operation of the filesystem on any path, and any
  method of a reader or a writer one of them returned, for as long as it likes, after closing
  it as well.
\<close>

record 'w client =
  state :: "'w fs_state"
  readers :: "'w reader set"
  writers :: "'w writer set"

inductive client_step :: "'w fs \<Rightarrow> 'w client \<Rightarrow> 'w client \<Rightarrow> bool" for f where
  stat: "client_step f c (c\<lparr>state := snd (fs_stat f p (state c))\<rparr>)"
| list_dir: "client_step f c (c\<lparr>state := snd (fs_list f p (state c))\<rparr>)"
| open_ok: "fs_open f p (state c) = (Inr rd, t) \<Longrightarrow>
            client_step f c (c\<lparr>state := t, readers := insert rd (readers c)\<rparr>)"
| open_err: "fs_open f p (state c) = (Inl e, t) \<Longrightarrow> client_step f c (c\<lparr>state := t\<rparr>)"
| create_ok: "fs_create f p (state c) = (Inr wr, t) \<Longrightarrow>
              client_step f c (c\<lparr>state := t, writers := insert wr (writers c)\<rparr>)"
| create_err: "fs_create f p (state c) = (Inl e, t) \<Longrightarrow> client_step f c (c\<lparr>state := t\<rparr>)"
| mkdir: "client_step f c (c\<lparr>state := snd (fs_mkdir f p (state c))\<rparr>)"
| remove: "client_step f c (c\<lparr>state := snd (fs_remove f p (state c))\<rparr>)"
| rename: "client_step f c (c\<lparr>state := snd (fs_rename f p q (state c))\<rparr>)"
| read_data: "rd \<in> readers c \<Longrightarrow>
         client_step f c (c\<lparr>state := snd (on_world (read_at rd n off) (state c))\<rparr>)"
| size_of: "rd \<in> readers c \<Longrightarrow>
         client_step f c (c\<lparr>state := snd (on_world (read_size rd) (state c))\<rparr>)"
| close_reader: "rd \<in> readers c \<Longrightarrow>
         client_step f c (c\<lparr>state := snd (on_world (read_close rd) (state c))\<rparr>)"
| write_data: "wr \<in> writers c \<Longrightarrow>
          client_step f c (c\<lparr>state := snd (on_world (write_at wr d off) (state c))\<rparr>)"
| close_writer: "wr \<in> writers c \<Longrightarrow>
          client_step f c (c\<lparr>state := snd (on_world (write_close wr) (state c))\<rparr>)"
| abort: "wr \<in> writers c \<Longrightarrow>
          client_step f c (c\<lparr>state := snd (on_world (write_abort wr) (state c))\<rparr>)"

inductive client_steps :: "'w fs \<Rightarrow> 'w client \<Rightarrow> 'w client \<Rightarrow> bool" for f where
  none: "client_steps f c c"
| more: "client_steps f c d \<Longrightarrow> client_step f d e \<Longrightarrow> client_steps f c e"

definition kept :: "('w \<Rightarrow> bool) \<Rightarrow> 'w client \<Rightarrow> bool" where
  "kept I c \<longleftrightarrow> I (world (state c)) \<and> (\<forall>rd \<in> readers c. keeps_reader I rd) \<and>
                (\<forall>wr \<in> writers c. keeps_writer I wr)"

lemma kept_state: "kept I c \<Longrightarrow> I (world t) \<Longrightarrow> kept I (c\<lparr>state := t\<rparr>)"
  by (simp add: kept_def)

lemma kept_op: "kept I c \<Longrightarrow> keeps (\<lambda>s. I (world s)) m \<Longrightarrow> kept I (c\<lparr>state := snd (m (state c))\<rparr>)"
  by (simp add: kept_def keeps_def)

lemma kept_reader:
  assumes "kept I c" and "rd \<in> readers c"
  shows "kept I (c\<lparr>state := snd (on_world (read_at rd n off) (state c))\<rparr>)"
    and "kept I (c\<lparr>state := snd (on_world (read_size rd) (state c))\<rparr>)"
    and "kept I (c\<lparr>state := snd (on_world (read_close rd) (state c))\<rparr>)"
  using assms by (auto simp: kept_def keeps_reader_def world_on_world)

lemma kept_writer:
  assumes "kept I c" and "wr \<in> writers c"
  shows "kept I (c\<lparr>state := snd (on_world (write_at wr d off) (state c))\<rparr>)"
    and "kept I (c\<lparr>state := snd (on_world (write_close wr) (state c))\<rparr>)"
    and "kept I (c\<lparr>state := snd (on_world (write_abort wr) (state c))\<rparr>)"
  using assms by (auto simp: kept_def keeps_writer_def world_on_world)

lemma client_step_kept:
  assumes "registered_keep f I" and "client_step f c d" and "kept I c"
  shows "kept I d"
proof -
  have k: "kept_by_backends f I"
    using assms(1) by unfold_locales (simp_all add: registered_keep_def backend_keeps_def)
  note ops = kept_by_backends.operations_keep [OF k]
  note new = kept_by_backends.open_reader_keeps [OF k] kept_by_backends.create_writer_keeps [OF k]
  from assms(2,3) show ?thesis
  proof (cases rule: client_step.cases)
    case (open_ok p rd t)
    then show ?thesis using assms(3) new(1) keepsD' [OF ops(3)]
      unfolding kept_def by fastforce
  next
    case (create_ok p wr t)
    then show ?thesis using assms(3) new(2) keepsD' [OF ops(4)]
      unfolding kept_def by fastforce
  next
    case (open_err p e t)
    then show ?thesis using assms(3) keepsD' [OF ops(3)]
      by (metis kept_def kept_state)
  next
    case (create_err p e t)
    then show ?thesis using assms(3) keepsD' [OF ops(4)]
      by (metis kept_def kept_state)
  qed (use assms(3) ops in \<open>simp_all add: kept_op kept_reader kept_writer\<close>)
qed

text \<open>
  Everything a client does to the world, through any operations and the readers and
  writers they return, in any order, goes through the methods of the registered backends: an
  invariant those methods keep holds throughout.
\<close>

lemma clients_keep_backend_invariant:
  assumes "registered_keep f I" and "client_steps f c d" and "I (world (state c))"
    and "readers c = {}" and "writers c = {}"
  shows "I (world (state d))"
proof -
  have "kept I d"
    using assms(2-5)
  proof induction
    case (none c)
    then show ?case by (simp add: kept_def)
  next
    case (more c d e)
    then show ?case using client_step_kept [OF assms(1)] by blast
  qed
  then show ?thesis by (simp add: kept_def)
qed

section \<open>Resolution\<close>

text \<open>
  C1. Resolving a path through the cache gives exactly what the walk from the root over the
  present listings gives, errors included, and leaves the cache coherent with that walk, while
  listings are stable.
\<close>

theorem resolve_refines_walk:
  assumes "stable f L J" and "J (world s)" and "coherent f L s" and "valid_parts ps"
  shows "fst (resolve f ps s) = walk L (root_entry (fs_root f)) ps \<and>
         coherent f L (snd (resolve f ps s)) \<and> J (world (snd (resolve f ps s)))"
proof -
  have "stable_listings f L J" using assms(1) by unfold_locales
  from stable_listings.resolve_walk [OF this _ assms(4)] obtain t
    where "resolve f ps s = (walk L (root_entry (fs_root f)) ps, t)" "J (world t)" "coherent f L t"
    using assms(2,3) by blast
  then show ?thesis by simp
qed

text \<open>
  C15. While listings are stable, no operation of the filesystem can be told from the one that
  has no cache: Stat and List answer what the walk from the root and its listings give, and
  Open, Create, Mkdir, Remove and Rename make on the node the walk finds, or on the child its
  directory's backend names, exactly the checks meant, and call the one method of the one
  backend its URL selects with it, the writer under the node's upload limit, or fail without
  calling any.
\<close>

theorem operations_need_no_cache:
  assumes "stable f L J" and "J (world s)" and "coherent f L s"
  shows "fst (fs_stat f p s) = plain_stat f L p \<and> J (world (snd (fs_stat f p s))) \<and>
         fst (fs_list f p s) = plain_list f L p \<and> J (world (snd (fs_list f p s))) \<and>
         (\<exists>w. J w \<and> seen (fs_open f p s) = plain_open f L p w) \<and>
         (\<exists>w. J w \<and> seen (fs_create f p s) = plain_create f L p w) \<and>
         (\<exists>w. J w \<and> seen (fs_mkdir f p s) = plain_mkdir f L p w) \<and>
         (\<exists>w. J w \<and> seen (fs_remove f p s) = plain_remove f L p w) \<and>
         (\<exists>w. J w \<and> seen (fs_rename f p q s) = plain_rename f L p q w)"
proof -
  have l: "stable_listings f L J" using assms(1) by unfold_locales
  have good: "J (world s) \<and> coherent f L s" using assms(2,3) by blast
  note plain = stable_listings.stat_plain [OF l good, of p] stable_listings.list_op_plain [OF l good, of p]
    stable_listings.open_plain [OF l good, of p] stable_listings.create_plain [OF l good, of p]
    stable_listings.mkdir_plain [OF l good, of p] stable_listings.remove_plain [OF l good, of p]
    stable_listings.rename_plain [OF l good, of p q]
  show ?thesis
    by (intro conjI) (use plain in simp_all)
qed

text \<open>
  While listings are stable, Stat of a path beneath a directory reports what the walk
  from the root finds there, and keeps the cache coherent.
\<close>

theorem stat_refines_walk:
  assumes "stable f L J" and "J (world s)" and "coherent f L s" and "valid_parts (ps @ [p])"
    and "walk L (root_entry (fs_root f)) ps = Inr parent" and "is_directory parent"
  shows "fst (fs_stat f (join_path (ps @ [p])) s) = walk L (root_entry (fs_root f)) (ps @ [p]) \<and>
         coherent f L (snd (fs_stat f (join_path (ps @ [p])) s))"
proof -
  have "stable_listings f L J" using assms(1) by unfold_locales
  from stable_listings.stat_walk [OF this _ _ _ assms(5,6), of s p] show ?thesis
    using assms(2-4) by auto
qed

lemma parent_keys_differ:
  assumes "valid_parts parts" and "parts \<noteq> []"
  shows "join_path (take i (butlast parts)) \<noteq> join_path parts"
proof
  assume "join_path (take i (butlast parts)) = join_path parts"
  moreover have "valid_parts (take i (butlast parts))"
    using assms(1) by (meson in_set_butlastD in_set_takeD)
  ultimately have "take i (butlast parts) = parts"
    using assms(1) join_path_inj by blast
  then have "length (take i (butlast parts)) = length parts" by simp
  moreover have "length (take i (butlast parts)) \<le> length parts - 1" by simp
  moreover have "0 < length parts" using assms(2) by simp
  ultimately show False by linarith
qed

text \<open>
  C9. Stat never answers from the resolution cache: its answer, and what it does to the
  backends, are the same whatever is remembered for the path itself.
\<close>

theorem stat_ignores_own_entry:
  "fst (fs_stat f path (s\<lparr>resolved := (resolved s)(path := entry)\<rparr>)) = fst (fs_stat f path s) \<and>
   world (snd (fs_stat f path (s\<lparr>resolved := (resolved s)(path := entry)\<rparr>))) =
     world (snd (fs_stat f path s))"
proof (cases "split_path path")
  case None
  then show ?thesis by (simp add: fs_stat_def)
next
  case (Some parts)
  let ?t = "s\<lparr>resolved := (resolved s)(path := entry)\<rparr>"
  show ?thesis
  proof (cases "parts = []")
    case True
    then show ?thesis using Some by (simp add: fs_stat_def)
  next
    case False
    have v: "valid_parts parts" using Some split_path_valid by blast
    have path: "path = join_path parts" using Some False split_path_joined by blast
    have "join_path (take i (butlast parts)) \<noteq> path" for i
      using parent_keys_differ [OF v False] unfolding path .
    moreover have "same_but path ?t s" by (simp add: same_but_def)
    ultimately have r: "fst (resolve f (butlast parts) ?t) = fst (resolve f (butlast parts) s)"
      "same_but path (snd (resolve f (butlast parts) ?t)) (snd (resolve f (butlast parts) s))"
      using same_but_resolve [of path ?t s "butlast parts" f] by simp_all
    obtain x a where a: "resolve f (butlast parts) ?t = (x, a)" by (cases "resolve f (butlast parts) ?t")
    obtain b where b: "resolve f (butlast parts) s = (x, b)"
      using r(1) a by (cases "resolve f (butlast parts) s") simp
    have ab: "same_but path a b" using r(2) a b by simp
    have l: "fst (list_node f n a) = fst (list_node f n b)"
        "world (snd (list_node f n a)) = world (snd (list_node f n b))" for n
      using same_but_list_node [OF ab, of f n] by (simp_all add: same_but_def)
    show ?thesis
      using Some False a b ab l
      by (auto simp: fs_stat_def bindE_app remember_def same_but_def
          split: sum.splits prod.splits) (metis fst_conv snd_conv sum.inject Inl_Inr_False)+
  qed
qed

text \<open>
  Once a removal has reached the backend, nothing at or beneath the path is still
  remembered, and every other path is remembered as it was.
\<close>

theorem remove_forgets_subtree:
  assumes "valid_parts ps" and "ps \<noteq> []" and "valid_parts qs"
    and "resolve f ps s = (Inr node, t)" and "backend_for f node = Inr b"
  shows "resolved (snd (fs_remove f (join_path ps) s)) (join_path qs) =
           (if prefix ps qs then None else resolved t (join_path qs))"
proof -
  have "fs_remove f (join_path ps) s = on_world (backend_remove b node) (snd (forget ps t))"
    using assms by (simp add: fs_remove_def split_path_join_path forget_def)
  then show ?thesis using resolved_forget assms(1-3) by (metis on_world_resolved)
qed

text \<open>
  Once a rename has reached the backend, nothing at or beneath its source or its
  destination is still remembered, and every other path is remembered as it was.
\<close>

theorem rename_forgets_both_ends:
  assumes "valid_parts ps" and "ps \<noteq> []" and "valid_parts ts" and "ts \<noteq> []" and "valid_parts qs"
    and "resolve f ps s = (Inr node, t)" and "backend_for f node = Inr b"
  shows "resolved (snd (fs_rename f (join_path ps) (join_path ts) s)) (join_path qs) =
           (if prefix ps qs \<or> prefix ts qs then None else resolved t (join_path qs))"
proof -
  have "fs_rename f (join_path ps) (join_path ts) s =
      on_world (backend_rename b node (join_path ps) (join_path ts)) (snd (forget ts (snd (forget ps t))))"
    using assms by (simp add: fs_rename_def split_path_join_path forget_def)
  then have "resolved (snd (fs_rename f (join_path ps) (join_path ts) s)) (join_path qs) =
      resolved (snd (forget ts (snd (forget ps t)))) (join_path qs)"
    by simp
  then show ?thesis
    using resolved_forget [OF assms(3,5,4), of "snd (forget ps t)"]
      resolved_forget [OF assms(1,5,2), of t] by simp
qed

text \<open>
  C2. Forgetting the removed path before acting is enough: when the backend changes nothing
  outside the subtree removed, the cache is coherent with the tree as it is afterwards,
  whatever the backend answered.
\<close>

theorem remove_stays_coherent:
  assumes "stable f L J" and "J (world s)" and "coherent f L s" and "valid_parts ps" and "ps \<noteq> []"
    and "walk L (root_entry (fs_root f)) ps = Inr node" and "backend_for f node = Inr b"
    and "\<forall>qs n. valid_parts qs \<longrightarrow> \<not> prefix ps qs \<longrightarrow> walk L (root_entry (fs_root f)) qs = Inr n \<longrightarrow>
           walk L' (root_entry (fs_root f)) qs = Inr n"
  shows "coherent f L' (snd (fs_remove f (join_path ps) s))"
proof -
  have "stable_listings f L J" using assms(1) by unfold_locales
  from stable_listings.resolve_walk [OF this _ assms(4)] obtain t
    where t: "resolve f ps s = (Inr node, t)" "coherent f L t"
    using assms(2,3,6) by auto
  have c: "coherent f L' (snd (forget ps t))"
    using coherent_forget [OF t(2) assms(4,5)] assms(8) by blast
  have "fs_remove f (join_path ps) s = on_world (backend_remove b node) (snd (forget ps t))"
    using assms t by (simp add: fs_remove_def split_path_join_path forget_def)
  then show ?thesis using c by (simp add: on_world_def coherent_world split: prod.splits)
qed

section \<open>A filesystem to evaluate them on\<close>

text \<open>
  One backend, registered as \<open>mem\<close>, that serves one directory; the world is its listing.
\<close>

definition mem_file :: "string \<Rightarrow> node" where
  "mem_file name = Entry (no_attrs\<lparr>File := name, Backend := ''mem://d/'' @ name\<rparr>) []"

definition mem_reader :: "node list reader" where
  "mem_reader = \<lparr>read_at = (\<lambda>n off w. (([], Some EOF), w)), read_size = (\<lambda>w. (Inr 0, w)),
     read_close = (\<lambda>w. (None, w))\<rparr>"

definition mem_writer :: "node \<Rightarrow> node list writer" where
  "mem_writer n = \<lparr>write_at = (\<lambda>data off w. ((length data, None), w)),
     write_close = (\<lambda>w. (None, List.insert n w)), write_abort = (\<lambda>w. (None, w))\<rparr>"

definition mem_backend :: "node list backend" where
  "mem_backend = \<lparr>backend_list = (\<lambda>n w. (Inr w, w)), backend_open = (\<lambda>n w. (Inr mem_reader, w)),
     backend_create = (\<lambda>n w. (Inr (mem_writer n), w)),
     backend_mkdir = (\<lambda>n w. (Inl ErrUnsupported, w)),
     backend_remove = (\<lambda>n w. (Inr (), filter (\<lambda>m. entry_name m \<noteq> entry_name n) w)),
     backend_rename = (\<lambda>n from to w. (Inl ErrUnsupported, w)),
     backend_child = (\<lambda>n name. Inr (mem_file name))\<rparr>"

definition mem_root :: root_fs where
  "mem_root = \<lparr>RootBackend = [], RootAllowedMethods = [], RootPermissions = None, RootS3 = None,
     RootChildren = [Entry (no_attrs\<lparr>Directory := ''d'', Backend := ''mem://d''\<rparr>) []],
     RootMaxUploadSize = 0\<rparr>"

definition mem_fs :: "node list fs" where
  "mem_fs = fst (fs_new mem_root [''mem'' \<mapsto> mem_backend] [])"

definition mem_state :: "node list fs_state" where
  "mem_state = snd (fs_new mem_root [''mem'' \<mapsto> mem_backend] [mem_file ''a'', mem_file ''b''])"

lemma mem_stable: "stable mem_fs (listing_in mem_fs w) (\<lambda>x. x = w)"
  by (rule stable_read_only) (auto simp: mem_fs_def fs_new_def mem_backend_def split: if_splits)

lemma mem_state_world: "world mem_state = [mem_file ''a'', mem_file ''b'']"
  by (simp add: mem_state_def fs_new_def)

lemma mem_state_coherent: "coherent mem_fs L mem_state"
  by (rule coherent_empty) (simp add: mem_state_def fs_new_def)

lemma mem_parts: "valid_parts [''d'', ''a'']" "valid_parts [''d'']" "valid_parts [''d'', ''b'']"
  by code_simp+

lemma mem_walk:
  "walk (listing_in mem_fs [mem_file ''a'', mem_file ''b'']) (root_entry (fs_root mem_fs)) [''d'', ''a'']
     = Inr (mem_file ''a'')"
  by code_simp

abbreviation mem_listing :: "node \<Rightarrow> verror + node list" where
  "mem_listing \<equiv> listing_in mem_fs [mem_file ''a'', mem_file ''b'']"

abbreviation mem_top :: node where "mem_top \<equiv> root_entry (fs_root mem_fs)"

lemma mem_directory: "walk mem_listing mem_top [''d''] = Inr (Entry (no_attrs\<lparr>Directory := ''d'', Backend := ''mem://d''\<rparr>) [])"
  by code_simp

lemma mem_resolve: "resolve mem_fs [''d'', ''a''] mem_state =
    (Inr (mem_file ''a''), snd (resolve mem_fs [''d'', ''a''] mem_state))"
proof -
  have "fst (resolve mem_fs [''d'', ''a''] mem_state) = Inr (mem_file ''a'')" by code_simp
  then show ?thesis by (metis prod.collapse)
qed

lemma mem_backend_for: "backend_for mem_fs (mem_file ''a'') = Inr mem_backend"
proof -
  have "url_parse (entry_backend (mem_file ''a'')) \<noteq> None \<and> entry_backend (mem_file ''a'') \<noteq> [] \<and>
     map_option u_scheme (url_parse (entry_backend (mem_file ''a''))) = Some ''mem''"
    by code_simp
  then show ?thesis
    by (auto simp: backend_for_def mem_fs_def fs_new_def split: option.splits)
qed

theorem resolve_refines_walk_witness:
  "fst (resolve mem_fs [''d'', ''a''] mem_state) = Inr (mem_file ''a'')"
  using resolve_refines_walk [OF mem_stable mem_state_world mem_state_coherent mem_parts(1)] mem_walk
  by simp

theorem operations_need_no_cache_witness:
  "fst (fs_open mem_fs ''/d/a'' mem_state) = Inr mem_reader \<and>
   fst (fs_mkdir mem_fs ''/d/a'' mem_state) = Inl ErrExist \<and>
   world (snd (fs_remove mem_fs ''/d/a'' mem_state)) = [mem_file ''b'']"
proof -
  note all = operations_need_no_cache [OF mem_stable mem_state_world mem_state_coherent, of "''/d/a''" "''/d/a''"]
  have at: "node_at mem_fs mem_listing ''/d/a'' = Inr (mem_file ''a'')" by code_simp
  have p: "split_path ''/d/a'' = Some [''d'', ''a'']" by code_simp
  have leaf: "\<not> is_directory (mem_file ''a'')" by code_simp
  have left: "entry_name (mem_file ''b'') \<noteq> entry_name (mem_file ''a'')" by code_simp
  have "plain_open mem_fs mem_listing ''/d/a'' w = (Inr mem_reader, w)" for w
    by (simp add: plain_open_def at a_file_def leaf dispatched_def mem_backend_for) (simp add: mem_backend_def)
  moreover have "plain_mkdir mem_fs mem_listing ''/d/a'' w = (Inl ErrExist, w)" for w
    by (simp add: plain_mkdir_def at dispatched_def but_root_def p)
  moreover have "plain_remove mem_fs mem_listing ''/d/a'' [mem_file ''a'', mem_file ''b''] = (Inr (), [mem_file ''b''])"
    unfolding plain_remove_def at but_root_def p dispatched_def
    by (simp add: mem_backend_for) (simp add: mem_backend_def left)
  ultimately show ?thesis using all by (auto simp: seen_def)
qed

theorem stat_refines_walk_witness:
  "fst (fs_stat mem_fs ''/d/a'' mem_state) = Inr (mem_file ''a'')"
proof -
  have p: "valid_parts ([''d''] @ [''a''])" using mem_parts(1) by simp
  have d: "is_directory (Entry (no_attrs\<lparr>Directory := ''d'', Backend := ''mem://d''\<rparr>) [])" by code_simp
  show ?thesis
    using stat_refines_walk [OF mem_stable mem_state_world mem_state_coherent p mem_directory d] mem_walk
    by (simp add: join_path_def)
qed

theorem remove_forgets_subtree_witness:
  "resolved (snd (fs_remove mem_fs (join_path [''d'', ''a'']) mem_state)) (join_path [''d'', ''a'']) = None"
  using remove_forgets_subtree [OF mem_parts(1) _ mem_parts(1) mem_resolve mem_backend_for] by simp

theorem rename_forgets_both_ends_witness:
  "resolved (snd (fs_rename mem_fs (join_path [''d'', ''a'']) (join_path [''d'', ''b'']) mem_state))
     (join_path [''d'', ''b'']) = None"
  using rename_forgets_both_ends
    [OF mem_parts(1) _ mem_parts(3) _ mem_parts(3) mem_resolve mem_backend_for] by simp

text \<open>After the removal the directory lists one file less, and the walk to any other path is as before.\<close>

abbreviation mem_dir :: node where
  "mem_dir \<equiv> Entry (no_attrs\<lparr>Directory := ''d'', Backend := ''mem://d''\<rparr>) []"

lemma mem_listings:
  "listing_in mem_fs w mem_top = Inr [mem_dir]" "listing_in mem_fs w mem_dir = Inr w"
  "is_directory mem_top" "is_directory mem_dir" "entry_name mem_dir = ''d''"
  "\<not> is_directory (mem_file name)"
proof -
  have "entry_backend mem_top = [] \<and> Children mem_top = [mem_dir]" by code_simp
  then show "listing_in mem_fs w mem_top = Inr [mem_dir]" by (simp add: listing_in_def list_node_def)
  have b: "entry_backend mem_dir \<noteq> [] \<and> map_option u_scheme (url_parse (entry_backend mem_dir)) = Some ''mem''"
    by code_simp
  then have "backend_for mem_fs mem_dir = Inr mem_backend"
    by (auto simp: backend_for_def mem_fs_def fs_new_def split: option.splits)
  then show "listing_in mem_fs w mem_dir = Inr w"
    using b by (simp add: listing_in_def list_node_def on_world_def mem_backend_def)
qed (simp_all add: is_directory_def entry_name_def root_entry_def no_attrs_def mem_file_def)

lemma mem_file_name: "entry_name (mem_file name) = name"
  by (simp add: mem_file_def entry_name_def no_attrs_def)

lemma mem_after_remove:
  assumes "\<not> prefix [''d'', ''a''] qs" and "walk mem_listing mem_top qs = Inr n"
  shows "walk (listing_in mem_fs [mem_file ''b'']) mem_top qs = Inr n"
proof (cases qs)
  case Nil
  then show ?thesis using assms(2) by simp
next
  case (Cons x rest)
  have x: "x = ''d''"
    using assms(2) Cons by (auto simp: mem_listings split: if_splits)
  show ?thesis
  proof (cases rest)
    case Nil
    then show ?thesis using assms(2) \<open>qs = x # rest\<close> x by (auto simp: mem_listings)
  next
    case (Cons y zs)
    then have "y \<noteq> ''a''" using assms(1) \<open>qs = x # rest\<close> x by auto
    then show ?thesis
      using assms(2) \<open>qs = x # rest\<close> x Cons by (cases zs) (auto simp: mem_listings mem_file_name split: if_splits)
  qed
qed

theorem remove_stays_coherent_witness:
  "coherent mem_fs (listing_in mem_fs [mem_file ''b'']) (snd (fs_remove mem_fs (join_path [''d'', ''a'']) mem_state))"
  by (rule remove_stays_coherent [OF mem_stable mem_state_world mem_state_coherent mem_parts(1) _ mem_walk
        mem_backend_for]) (use mem_after_remove in simp_all)

lemma mem_keeps: "registered_keep mem_fs distinct"
  by (auto simp: registered_keep_def mem_fs_def fs_new_def mem_backend_def mem_reader_def mem_writer_def
      backend_keeps_def keeps_def keeps_reader_def keeps_writer_def split: if_splits)

end
