(* ===== verification/Go_Os.thy ===== *)
theory Go_Os
  imports Config "HOL-Library.AList"
begin

text \<open>
  What the program uses of the \<open>os\<close> package and of the filesystem behind it: names in
  directories, the files and directories they name, open files, and calls that may fail.

  The environment is part of the state and nothing in it is assumed: \<open>faults\<close> says which
  calls the operating system refuses, with which error and after how many bytes,
  \<open>clock\<close> what time each call sees, \<open>entropy\<close> what each draw of random text is. Paths are
  lists of components from the root of the host. Following symbolic links is not modelled:
  a link is a \<open>Special\<close> object, as a device or a socket is.
\<close>

section \<open>State\<close>

type_synonym host_path = "string list"

datatype os_error = NotExist | Permission | Exist | OtherError

datatype object = RegularAt nat | DirectoryOf uint32 instant | Special uint32

record inode =
  contents :: bytes
  perm :: uint32
  modified :: instant

datatype handle = ReadHandle nat | WriteHandle nat | DirHandle host_path | SpecialHandle uint32

record host =
  names :: "(host_path \<times> object) list"
  inodes :: "nat \<rightharpoonup> inode"
  next_inode :: nat
  handles :: "nat \<rightharpoonup> handle"
  next_handle :: nat
  positions :: "nat \<Rightarrow> nat"
  calls :: nat
  faults :: "nat \<Rightarrow> (os_error \<times> nat) option"
  clock :: "nat \<Rightarrow> instant"
  entropy :: "nat \<Rightarrow> nat"
  umask :: uint32

record file_info =
  is_regular :: bool
  is_dir :: bool
  info_size :: int64
  info_perm :: uint32
  info_mtime :: instant

section \<open>Names\<close>

definition object_at :: "host \<Rightarrow> host_path \<Rightarrow> object option" where
  "object_at h p = map_of (names h) p"

definition is_directory_at :: "host \<Rightarrow> host_path \<Rightarrow> bool" where
  "is_directory_at h p = (case object_at h p of Some (DirectoryOf _ _) \<Rightarrow> True | _ \<Rightarrow> False)"

lemma object_at_calls [simp]: "object_at (h\<lparr>calls := n\<rparr>) p = object_at h p"
  by (simp add: object_at_def)

lemma is_directory_at_calls [simp]: "is_directory_at (h\<lparr>calls := n\<rparr>) p = is_directory_at h p"
  by (simp add: is_directory_at_def)

text \<open>
  Why a path names nothing: something above it is not there, or is there and is no
  directory.
\<close>

definition missing :: "host \<Rightarrow> host_path \<Rightarrow> os_error" where
  "missing h p =
     (if list_ex (\<lambda>q. object_at h q \<noteq> None \<and> \<not> is_directory_at h q) (prefixes (butlast p))
      then OtherError else NotExist)"

text \<open>A new name wants a directory to be in.\<close>

definition parent_ok :: "host \<Rightarrow> host_path \<Rightarrow> bool" where
  "parent_ok h p \<longleftrightarrow> p \<noteq> [] \<and> is_directory_at h (butlast p)"

definition members :: "host \<Rightarrow> host_path \<Rightarrow> (string \<times> object) list" where
  "members h p = [(last q, ob). (q, ob) \<leftarrow> names h, q \<noteq> [] \<and> butlast q = p]"

section \<open>Calls\<close>

definition os_call :: "(host, os_error, 'a) op \<Rightarrow> (host, os_error, 'a) op" where
  "os_call f h =
     (let h' = h\<lparr>calls := Suc (calls h)\<rparr>
      in case faults h (calls h) of Some (e, _) \<Rightarrow> (Inl e, h') | None \<Rightarrow> f h')"

text \<open>\<open>rand.Text\<close> never fails, and is 26 digits of base 32.\<close>

definition base32_digit :: "nat \<Rightarrow> char" where
  "base32_digit d = (if d < 26 then char_of (65 + d) else char_of (24 + d))"

primrec base32_digits :: "nat \<Rightarrow> nat \<Rightarrow> string" where
  "base32_digits 0 n = []"
| "base32_digits (Suc k) n = base32_digit (n mod 32) # base32_digits k (n div 32)"

definition base32_text :: "nat \<Rightarrow> string" where
  "base32_text n = base32_digits 26 n"

definition rand_text :: "host \<Rightarrow> string \<times> host" where
  "rand_text h = (base32_text (entropy h (calls h)), h\<lparr>calls := Suc (calls h)\<rparr>)"

definition object_info :: "host \<Rightarrow> object \<Rightarrow> file_info option" where
  "object_info h ob =
     (case ob of
        RegularAt i \<Rightarrow> map_option (\<lambda>n. \<lparr>is_regular = True, is_dir = False,
            info_size = word_of_nat (length (contents n)), info_perm = perm n, info_mtime = modified n\<rparr>)
          (inodes h i)
      | DirectoryOf m t \<Rightarrow> Some \<lparr>is_regular = False, is_dir = True, info_size = 0, info_perm = m, info_mtime = t\<rparr>
      | Special m \<Rightarrow> Some \<lparr>is_regular = False, is_dir = False, info_size = 0, info_perm = m, info_mtime = 0\<rparr>)"

definition os_stat :: "host_path \<Rightarrow> (host, os_error, file_info) op" where
  "os_stat p = os_call (\<lambda>h.
     case object_at h p of
       None \<Rightarrow> (Inl (missing h p), h)
     | Some ob \<Rightarrow> (case object_info h ob of None \<Rightarrow> (Inl OtherError, h) | Some i \<Rightarrow> (Inr i, h)))"

definition new_handle :: "handle \<Rightarrow> host \<Rightarrow> nat \<times> host" where
  "new_handle d h =
     (next_handle h, h\<lparr>handles := (handles h)(next_handle h \<mapsto> d),
                       positions := (positions h)(next_handle h := 0),
                       next_handle := Suc (next_handle h)\<rparr>)"

definition os_open :: "host_path \<Rightarrow> (host, os_error, nat) op" where
  "os_open p = os_call (\<lambda>h.
     case object_at h p of
       None \<Rightarrow> (Inl (missing h p), h)
     | Some (RegularAt i) \<Rightarrow> (case new_handle (ReadHandle i) h of (fd, h') \<Rightarrow> (Inr fd, h'))
     | Some (DirectoryOf _ _) \<Rightarrow> (case new_handle (DirHandle p) h of (fd, h') \<Rightarrow> (Inr fd, h'))
     | Some (Special m) \<Rightarrow> (case new_handle (SpecialHandle m) h of (fd, h') \<Rightarrow> (Inr fd, h')))"

text \<open>\<open>O_RDWR | O_CREATE | O_EXCL\<close>.\<close>

definition os_create_excl :: "host_path \<Rightarrow> uint32 \<Rightarrow> (host, os_error, nat) op" where
  "os_create_excl p mode = os_call (\<lambda>h.
     if object_at h p \<noteq> None then (Inl Exist, h)
     else if \<not> parent_ok h p then (Inl (missing h p), h)
     else (let i = next_inode h;
               h1 = h\<lparr>names := names h @ [(p, RegularAt i)],
                      inodes := (inodes h)(i \<mapsto> \<lparr>contents = [], perm = and mode (not (umask h)),
                                                modified = clock h (calls h)\<rparr>),
                      next_inode := Suc i\<rparr>
           in case new_handle (WriteHandle i) h1 of (fd, h2) \<Rightarrow> (Inr fd, h2)))"

definition os_mkdir :: "host_path \<Rightarrow> uint32 \<Rightarrow> (host, os_error, unit) op" where
  "os_mkdir p mode = os_call (\<lambda>h.
     if object_at h p \<noteq> None then (Inl Exist, h)
     else if \<not> parent_ok h p then (Inl (missing h p), h)
     else (Inr (), h\<lparr>names := names h @ [(p, DirectoryOf (and mode (not (umask h))) (clock h (calls h)))]\<rparr>))"

text \<open>A directory that is not empty is not removed, and \<open>ENOTEMPTY\<close> counts as \<open>fs.ErrExist\<close>.\<close>

definition os_remove :: "host_path \<Rightarrow> (host, os_error, unit) op" where
  "os_remove p = os_call (\<lambda>h.
     case object_at h p of
       None \<Rightarrow> (Inl (missing h p), h)
     | Some _ \<Rightarrow>
         if p = [] then (Inl OtherError, h)
         else if members h p \<noteq> [] then (Inl Exist, h)
         else (Inr (), h\<lparr>names := AList.delete p (names h)\<rparr>))"

definition moved :: "host_path \<Rightarrow> host_path \<Rightarrow> host_path \<Rightarrow> host_path" where
  "moved p q r = (if prefix p r then q @ drop (length p) r else r)"

definition os_rename :: "host_path \<Rightarrow> host_path \<Rightarrow> (host, os_error, unit) op" where
  "os_rename p q = os_call (\<lambda>h.
     case object_at h p of
       None \<Rightarrow> (Inl (missing h p), h)
     | Some ob \<Rightarrow>
         (let move = (Inr (), h\<lparr>names := map (\<lambda>(k, ob). (moved p q k, ob)) (AList.delete q (names h))\<rparr>)
          in if p = [] \<or> q = [] then (Inl OtherError, h)
          else if \<not> parent_ok h q then (Inl (missing h q), h)
          else if p = q then (Inr (), h)
          else if prefix p q then (Inl OtherError, h)
          else (case object_at h q of
             None \<Rightarrow> move
           | Some old \<Rightarrow>
               if is_directory_at h q then
                 (if \<not> is_directory_at h p then (Inl OtherError, h)
                  else if members h q \<noteq> [] then (Inl Exist, h)
                  else move)
               else if is_directory_at h p then (Inl OtherError, h)
               else if old = ob then (Inr (), h)
               else move)))"

section \<open>Open files\<close>

definition os_fstat :: "nat \<Rightarrow> (host, os_error, file_info) op" where
  "os_fstat fd = os_call (\<lambda>h.
     case handles h fd of
       None \<Rightarrow> (Inl OtherError, h)
     | Some d \<Rightarrow>
         (case (case d of ReadHandle i \<Rightarrow> object_info h (RegularAt i)
                        | WriteHandle i \<Rightarrow> object_info h (RegularAt i)
                        | DirHandle p \<Rightarrow> Option.bind (object_at h p) (object_info h)
                        | SpecialHandle m \<Rightarrow> object_info h (Special m)) of
            None \<Rightarrow> (Inl OtherError, h) | Some i \<Rightarrow> (Inr i, h)))"

text \<open>A close that fails has closed the file all the same.\<close>

definition os_close :: "nat \<Rightarrow> (host, os_error, unit) op" where
  "os_close fd h =
     (case handles h fd of
        None \<Rightarrow> (Inl OtherError, h)
      | Some _ \<Rightarrow>
          (let h' = h\<lparr>handles := (handles h)(fd := None), calls := Suc (calls h)\<rparr>
           in case faults h (calls h) of Some (e, _) \<Rightarrow> (Inl e, h') | None \<Rightarrow> (Inr (), h')))"

definition os_readdir :: "nat \<Rightarrow> (host, os_error, (string \<times> object) list) op" where
  "os_readdir fd = os_call (\<lambda>h.
     case handles h fd of
       Some (DirHandle p) \<Rightarrow> (Inr (members h p), h)
     | _ \<Rightarrow> (Inl OtherError, h))"

text \<open>A write beyond the end of a file leaves a gap of zero bytes before it.\<close>

definition overwrite :: "bytes \<Rightarrow> nat \<Rightarrow> bytes \<Rightarrow> bytes" where
  "overwrite old off data =
     take off (old @ replicate (off - length old) nul) @ data @ drop (off + length data) old"

text \<open>What a write leaves of a file, for one that writes nothing too.\<close>

definition apply_write :: "bytes \<Rightarrow> bytes \<times> int64 \<Rightarrow> bytes" where
  "apply_write old dw = (case dw of (data, off) \<Rightarrow>
     if data = [] then old else overwrite old (nat (sint off)) data)"

definition inode_of :: "host \<Rightarrow> nat \<Rightarrow> nat option" where
  "inode_of h fd = (case handles h fd of Some (ReadHandle i) \<Rightarrow> Some i | Some (WriteHandle i) \<Rightarrow> Some i | _ \<Rightarrow> None)"

definition put_bytes :: "nat \<Rightarrow> nat \<Rightarrow> bytes \<Rightarrow> host \<Rightarrow> host" where
  "put_bytes i off data h =
     (case inodes h i of
        None \<Rightarrow> h
      | Some n \<Rightarrow> h\<lparr>inodes := (inodes h)(i \<mapsto> n\<lparr>contents := overwrite (contents n) off data,
                                                 modified := clock h (calls h)\<rparr>)\<rparr>)"

text \<open>
  \<open>WriteAt\<close> and \<open>ReadAt\<close> refuse a negative offset themselves, and have nothing to do for no
  bytes. A call that fails may have moved some of the bytes first. The kernel refuses to
  write past the largest offset there is.
\<close>

definition os_write_at :: "nat \<Rightarrow> bytes \<Rightarrow> int64 \<Rightarrow> host \<Rightarrow> (nat \<times> os_error option) \<times> host" where
  "os_write_at fd data offset h =
     (if sint offset < 0 then ((0, Some OtherError), h)
      else if data = [] then ((0, None), h)
      else (let off = nat (sint offset); h' = h\<lparr>calls := Suc (calls h)\<rparr> in
        case handles h fd of
          Some (WriteHandle i) \<Rightarrow>
            (case faults h (calls h) of
               Some (e, k) \<Rightarrow> ((min k (length data), Some e), put_bytes i off (take k data) h')
             | None \<Rightarrow>
                 if 9223372036854775808 \<le> sint offset + int (length data) then ((0, Some OtherError), h')
                 else ((length data, None), put_bytes i off data h'))
        | _ \<Rightarrow> ((0, Some OtherError), h')))"

datatype os_io = OsEOF | OsErr os_error

definition os_read_at :: "nat \<Rightarrow> nat \<Rightarrow> int64 \<Rightarrow> host \<Rightarrow> (bytes \<times> os_io option) \<times> host" where
  "os_read_at fd n offset h =
     (if sint offset < 0 then (([], Some (OsErr OtherError)), h)
      else if n = 0 then (([], None), h)
      else (let h' = h\<lparr>calls := Suc (calls h)\<rparr> in
        case Option.bind (inode_of h fd) (inodes h) of
          None \<Rightarrow> (([], Some (OsErr OtherError)), h')
        | Some file \<Rightarrow>
            (let got = take n (drop (nat (sint offset)) (contents file)) in
             case faults h (calls h) of
               Some (e, k) \<Rightarrow> ((take k got, Some (OsErr e)), h')
             | None \<Rightarrow> ((got, if length got < n then Some OsEOF else None), h'))))"

end
