(* ===== verification/Localfs.thy ===== *)
theory Localfs
  imports Vfs Go_Os "HOL-Library.List_Lexorder" "HOL-Library.Char_ord"
begin

text \<open>
  The local backend: \<open>server/internal/localfs/localfs.go\<close> and \<open>file.go\<close>. It serves directories
  of this host named by \<open>file://\<close> URLs, through one \<open>os.Root\<close> for each allowed prefix.

  A root is its name, the cleaned path it was opened at, and a call on it names its target by
  a path within it. The world is the host and the uploads in progress, each an \<open>upload\<close>
  object the code holds a pointer to.
\<close>

section \<open>State\<close>

record location =
  root :: string
  rel :: string
  target :: string
  mask_bits :: uint32

record upload =
  up_at :: location
  up_file :: nat
  up_temporary :: string
  up_err :: "verror option"

record local_world =
  os :: host
  uploads :: "nat \<rightharpoonup> upload"
  next_upload :: nat

definition create_file_mode :: uint32 where "create_file_mode = 438"
definition create_directory_mode :: uint32 where "create_directory_mode = 511"
definition all_bits :: uint32 where "all_bits = 511"
definition upload_prefix :: string where "upload_prefix = ''.sftp-proxy-upload-''"
definition upload_attempts :: nat where "upload_attempts = 3"

section \<open>Calls on a root\<close>

text \<open>What the operating system reports, as what a caller may see.\<close>

definition outcome :: "os_error \<Rightarrow> verror" where
  "outcome e = (case e of NotExist \<Rightarrow> ErrNotExist | Permission \<Rightarrow> ErrPermission
                | Exist \<Rightarrow> ErrExist | OtherError \<Rightarrow> ErrFailure)"

definition on_os :: "(host \<Rightarrow> 'r \<times> host) \<Rightarrow> local_world \<Rightarrow> 'r \<times> local_world" where
  "on_os m w = (case m (os w) of (r, h) \<Rightarrow> (r, w\<lparr>os := h\<rparr>))"

text \<open>A root refuses a name that leaves it, before anything is asked of the host.\<close>

definition at_root :: "(host_path \<Rightarrow> (host, os_error, 'a) op) \<Rightarrow> string \<Rightarrow> string \<Rightarrow> (host, os_error, 'a) op" where
  "at_root call name within =
     (if is_local within then call (components name @ elements (path_clean within))
      else failE OtherError)"

text \<open>
  A root itself has no name within it: the kernel refuses to remove \<open>.\<close>, and to rename it or
  anything over it.
\<close>

definition at_entry :: "(host_path \<Rightarrow> (host, os_error, 'a) op) \<Rightarrow> string \<Rightarrow> string \<Rightarrow> (host, os_error, 'a) op" where
  "at_entry call name within =
     (if elements (path_clean within) = [] then failE OtherError else at_root call name within)"

definition calling :: "(host, os_error, 'a) op \<Rightarrow> (local_world, verror, 'a) op" where
  "calling m w = (case on_os m w of (Inl e, w') \<Rightarrow> (Inl (outcome e), w') | (Inr x, w') \<Rightarrow> (Inr x, w'))"

section \<open>Opening the allowed prefixes\<close>

definition open_root :: "host_path \<Rightarrow> (host, os_error, unit) op" where
  "open_root p = os_call (\<lambda>h.
     case object_at h p of
       None \<Rightarrow> (Inl (missing h p), h)
     | Some _ \<Rightarrow> if is_directory_at h p then (Inr (), h) else (Inl OtherError, h))"

fun local_new_loop :: "string list \<Rightarrow> string list \<Rightarrow> (host, config_error, string list) op" where
  "local_new_loop opened [] = returnE opened"
| "local_new_loop opened (p # ps) =
     (if \<not> is_abs p then failE (Err ''allowed prefix must be absolute'')
      else (\<lambda>h. case open_root (components (path_clean p)) h of
                  (Inl _, h') \<Rightarrow> (Inl (Err ''open allowed prefix''), h')
                | (Inr _, h') \<Rightarrow> local_new_loop (opened @ [path_clean p]) ps h'))"

definition local_new :: "string list \<Rightarrow> (host, config_error, string list) op" where
  "local_new allowed =
     (if allowed = [] then failE (Err ''at least one allowed prefix is required'')
      else local_new_loop [] allowed)"

section \<open>Locations\<close>

definition child_url :: "location \<Rightarrow> string \<Rightarrow> string" where
  "child_url l name = url_string (empty_url\<lparr>u_scheme := file_scheme, u_path := path_join (target l) name\<rparr>)"

definition mask :: "node \<Rightarrow> uint32" where
  "mask n = (case Permissions (attrs_of n) of None \<Rightarrow> all_bits | Some p \<Rightarrow> and p all_bits)"

definition readable :: "uint32 \<Rightarrow> bool" where "readable mode \<longleftrightarrow> and mode 292 \<noteq> 0"
definition writable :: "uint32 \<Rightarrow> bool" where "writable mode \<longleftrightarrow> and mode 146 \<noteq> 0"

fun root_serving :: "string list \<Rightarrow> string \<Rightarrow> (string \<times> string) option" where
  "root_serving [] path = None"
| "root_serving (r # rs) path =
     (case relative r path of Some within \<Rightarrow> Some (r, within) | None \<Rightarrow> root_serving rs path)"

definition local_resolve :: "string list \<Rightarrow> node \<Rightarrow> verror + location" where
  "local_resolve roots n =
     (case local_path (entry_backend n) of
        None \<Rightarrow> Inl ErrFailure
      | Some path \<Rightarrow>
          (case root_serving roots path of
             None \<Rightarrow> Inl ErrPermission
           | Some (r, within) \<Rightarrow> Inr \<lparr>root = r, rel = within, target = path, mask_bits = mask n\<rparr>))"

text \<open>Whether an existing node may be altered: the mask and the mode must both allow writing.\<close>

definition permit_change :: "location \<Rightarrow> (local_world, verror, unit) op" where
  "permit_change l =
     (if \<not> writable (mask_bits l) then failE ErrPermission
      else bindE (calling (at_root os_stat (root l) (rel l))) (\<lambda>info.
           if \<not> writable (and (info_perm info) (mask_bits l)) then failE ErrPermission
           else returnE ()))"

section \<open>Listing\<close>

definition child_of :: "location \<Rightarrow> string \<Rightarrow> object \<Rightarrow> file_info \<Rightarrow> node" where
  "child_of l name ob info =
     (let base = no_attrs\<lparr>Backend := child_url l name,
                          Permissions := Some (and (info_perm info) (mask_bits l)),
                          Mtime := Some (info_mtime info)\<rparr>
      in case ob of
           DirectoryOf _ _ \<Rightarrow> Entry (base\<lparr>Directory := name\<rparr>) []
         | _ \<Rightarrow> Entry (base\<lparr>File := name, Size := info_size info\<rparr>) [])"

text \<open>\<open>child\<close>: the kind and the name are the directory's, the rest is asked of the host.\<close>

definition local_child_entry :: "location \<Rightarrow> string \<times> object \<Rightarrow> host \<Rightarrow> node option \<times> host" where
  "local_child_entry l e h =
     (case e of (name, ob) \<Rightarrow>
        if (case ob of Special _ \<Rightarrow> True | _ \<Rightarrow> False) then (None, h)
        else if \<not> valid_name name \<or> prefix upload_prefix name then (None, h)
        else (case at_root os_stat (root l) (path_join (rel l) name) h of
                (Inl _, h') \<Rightarrow> (None, h')
              | (Inr info, h') \<Rightarrow> (Some (child_of l name ob info), h')))"

fun local_children :: "location \<Rightarrow> (string \<times> object) list \<Rightarrow> host \<Rightarrow> node list \<times> host" where
  "local_children l [] h = ([], h)"
| "local_children l (e # es) h =
     (case local_child_entry l e h of (c, h1) \<Rightarrow>
        (case local_children l es h1 of (cs, h2) \<Rightarrow>
           ((case c of None \<Rightarrow> cs | Some n \<Rightarrow> n # cs), h2)))"

text \<open>\<open>defer file.Close()\<close>: whatever the body returned, the file is closed and the error dropped.\<close>

definition closing :: "nat \<Rightarrow> (local_world, verror, 'a) op \<Rightarrow> (local_world, verror, 'a) op" where
  "closing fd m w = (case m w of (r, w') \<Rightarrow> (r, snd (on_os (os_close fd) w')))"

definition sorted_children :: "location \<Rightarrow> (string \<times> object) list \<Rightarrow> (local_world, verror, node list) op" where
  "sorted_children l entries w = (case on_os (local_children l entries) w of
     (children, w') \<Rightarrow> (Inr (sort_key entry_name children), w'))"

definition local_list :: "string list \<Rightarrow> node \<Rightarrow> (local_world, verror, node list) op" where
  "local_list roots n =
     bindE (liftE (local_resolve roots n)) (\<lambda>l.
       if \<not> readable (mask_bits l) then returnE []
       else bindE (calling (at_root os_open (root l) (rel l))) (\<lambda>fd.
            closing fd (bindE (calling (os_readdir fd)) (sorted_children l))))"

section \<open>Reading\<close>

definition local_reader :: "nat \<Rightarrow> local_world reader" where
  "local_reader fd = \<lparr>
     read_at = (\<lambda>n offset w. case on_os (os_read_at fd n offset) w of
        ((got, e), w') \<Rightarrow> ((got, map_option (\<lambda>x. case x of OsEOF \<Rightarrow> EOF | OsErr o' \<Rightarrow> IOErr (outcome o')) e), w')),
     read_size = bindE (calling (os_fstat fd)) (\<lambda>info. returnE (info_size info)),
     read_close = (\<lambda>w. case on_os (os_close fd) w of
        (Inl e, w') \<Rightarrow> (Some (outcome e), w') | (Inr _, w') \<Rightarrow> (None, w'))\<rparr>"

definition close_with :: "nat \<Rightarrow> verror \<Rightarrow> (local_world, verror, 'a) op" where
  "close_with fd e w = (Inl e, snd (on_os (os_close fd) w))"

text \<open>The switch on what the file that was opened is.\<close>

definition check_opened :: "location \<Rightarrow> nat \<Rightarrow> (local_world, verror, local_world reader) op" where
  "check_opened l fd w =
    (case calling (os_fstat fd) w of
       (Inl e, w') \<Rightarrow> close_with fd e w'
     | (Inr info, w') \<Rightarrow>
         if \<not> is_regular info then close_with fd ErrUnsupported w'
         else if \<not> readable (and (info_perm info) (mask_bits l)) then close_with fd ErrPermission w'
         else (Inr (local_reader fd), w'))"

definition local_open :: "string list \<Rightarrow> node \<Rightarrow> (local_world, verror, local_world reader) op" where
  "local_open roots n =
     bindE (liftE (local_resolve roots n)) (\<lambda>l.
       if \<not> readable (mask_bits l) then failE ErrPermission
       else bindE (calling (at_root os_open (root l) (rel l))) (check_opened l))"

section \<open>Writing\<close>

text \<open>The loop over the attempts: a name already taken is tried again, any other error is not.\<close>

fun new_upload_loop :: "nat \<Rightarrow> location \<Rightarrow> local_world \<Rightarrow> (verror + nat) \<times> local_world" where
  "new_upload_loop 0 l w = (Inl ErrFailure, w)"
| "new_upload_loop (Suc n) l w =
     (case on_os rand_text w of (digits, w1) \<Rightarrow>
        (let temporary = path_join (path_dir (rel l)) (upload_prefix @ digits) in
         case on_os (at_root (\<lambda>p. os_create_excl p create_file_mode) (root l) temporary) w1 of
           (Inl e, w2) \<Rightarrow> if e = Exist then new_upload_loop n l w2 else (Inl (outcome e), w2)
         | (Inr fd, w2) \<Rightarrow>
             (Inr (next_upload w2),
              w2\<lparr>uploads := (uploads w2)(next_upload w2 \<mapsto>
                    \<lparr>up_at = l, up_file = fd, up_temporary = temporary, up_err = None\<rparr>),
                  next_upload := Suc (next_upload w2)\<rparr>)))"

definition new_upload :: "location \<Rightarrow> (local_world, verror, nat) op" where
  "new_upload l = new_upload_loop upload_attempts l"

text \<open>\<open>u.err = e\<close>, on the upload a writer was made for.\<close>

definition set_upload_err :: "nat \<Rightarrow> upload \<Rightarrow> verror \<Rightarrow> local_world \<Rightarrow> local_world" where
  "set_upload_err u up e w = w\<lparr>uploads := (uploads w)(u \<mapsto> up\<lparr>up_err := Some e\<rparr>)\<rparr>"

definition error_of :: "(os_error + 'a) \<Rightarrow> verror option" where
  "error_of r = (case r of Inl e \<Rightarrow> Some (outcome e) | Inr _ \<Rightarrow> None)"

text \<open>
  \<open>discard\<close> closes and removes whichever of the two fails. What \<open>outcome\<close> makes of the two
  errors joined is the first of its cases that either of them is.
\<close>

definition joined :: "os_error option \<Rightarrow> os_error option \<Rightarrow> verror option" where
  "joined a b =
     (if a = None \<and> b = None then None
      else if a = Some NotExist \<or> b = Some NotExist then Some ErrNotExist
      else if a = Some Permission \<or> b = Some Permission then Some ErrPermission
      else if a = Some Exist \<or> b = Some Exist then Some ErrExist
      else Some ErrFailure)"

definition failed :: "os_error + 'a \<Rightarrow> os_error option" where
  "failed r = (case r of Inl e \<Rightarrow> Some e | Inr _ \<Rightarrow> None)"

definition discard :: "upload \<Rightarrow> local_world \<Rightarrow> verror option \<times> local_world" where
  "discard up w =
     (case on_os (os_close (up_file up)) w of (closed, w1) \<Rightarrow>
        (case on_os (at_entry os_remove (root (up_at up)) (up_temporary up)) w1 of (removed, w2) \<Rightarrow>
           (joined (failed closed) (failed removed), w2)))"

definition upload_write_at :: "nat \<Rightarrow> bytes \<Rightarrow> int64 \<Rightarrow> local_world \<Rightarrow> (nat \<times> verror option) \<times> local_world" where
  "upload_write_at u data offset w =
     (case uploads w u of
        None \<Rightarrow> ((0, Some ErrFailure), w)
      | Some up \<Rightarrow>
          (case up_err up of
             Some e \<Rightarrow> ((0, Some e), w)
           | None \<Rightarrow>
               (case on_os (os_write_at (up_file up) data offset) w of
                  ((n, None), w') \<Rightarrow> ((n, None), w')
                | ((n, Some e), w') \<Rightarrow> ((n, Some (outcome e)), set_upload_err u up (outcome e) w'))))"

text \<open>\<open>_ = u.at.root.Remove(u.temporary); return outcome(u.ctx, err)\<close>\<close>

definition give_up :: "upload \<Rightarrow> os_error \<Rightarrow> local_world \<Rightarrow> verror option \<times> local_world" where
  "give_up up e w =
     (Some (outcome e), snd (on_os (at_entry os_remove (root (up_at up)) (up_temporary up)) w))"

definition upload_close :: "nat \<Rightarrow> local_world \<Rightarrow> verror option \<times> local_world" where
  "upload_close u w =
     (case uploads w u of
        None \<Rightarrow> (Some ErrFailure, w)
      | Some up \<Rightarrow>
          (case up_err up of
             Some e \<Rightarrow> (Some e, snd (discard up w))
           | None \<Rightarrow>
               (case on_os (os_close (up_file up)) (set_upload_err u up ErrFailure w) of
                  (Inl e, w1) \<Rightarrow> give_up up e w1
                | (Inr _, w1) \<Rightarrow>
                    (case on_os (at_entry (\<lambda>p. at_entry (os_rename p) (root (up_at up)) (rel (up_at up)))
                                   (root (up_at up)) (up_temporary up)) w1 of
                       (Inl e, w2) \<Rightarrow> give_up up e w2
                     | (Inr _, w2) \<Rightarrow> (None, w2)))))"

definition upload_abort :: "nat \<Rightarrow> local_world \<Rightarrow> verror option \<times> local_world" where
  "upload_abort u w =
     (case uploads w u of
        None \<Rightarrow> (Some ErrFailure, w)
      | Some up \<Rightarrow>
          if up_err up \<noteq> None then (None, w)
          else discard up (set_upload_err u up ErrFailure w))"

definition upload_writer :: "nat \<Rightarrow> local_world writer" where
  "upload_writer u = \<lparr>write_at = upload_write_at u, write_close = upload_close u, write_abort = upload_abort u\<rparr>"

text \<open>
  A file already there states its own permissions; one that is not there yet has none, and
  the mask is all there is to ask.
\<close>

definition create_at :: "location \<Rightarrow> (local_world, verror, local_world writer) op" where
  "create_at l w =
     (case on_os (at_root os_stat (root l) (rel l)) w of
        (Inl e, w') \<Rightarrow>
          if e \<noteq> NotExist then (Inl (outcome e), w')
          else bindE (new_upload l) (\<lambda>u. returnE (upload_writer u)) w'
      | (Inr info, w') \<Rightarrow>
          if is_dir info then (Inl ErrUnsupported, w')
          else if \<not> writable (and (info_perm info) (mask_bits l)) then (Inl ErrPermission, w')
          else bindE (new_upload l) (\<lambda>u. returnE (upload_writer u)) w')"

definition local_create :: "string list \<Rightarrow> node \<Rightarrow> (local_world, verror, local_world writer) op" where
  "local_create roots n =
     bindE (liftE (local_resolve roots n)) (\<lambda>l.
       if \<not> writable (mask_bits l) then failE ErrPermission else create_at l)"

section \<open>Directories, removal and renaming\<close>

definition local_mkdir :: "string list \<Rightarrow> node \<Rightarrow> (local_world, verror, unit) op" where
  "local_mkdir roots n =
     bindE (liftE (local_resolve roots n)) (\<lambda>l.
       if \<not> writable (mask_bits l) then failE ErrPermission
       else calling (at_root (\<lambda>p. os_mkdir p create_directory_mode) (root l) (rel l)))"

definition local_remove :: "string list \<Rightarrow> node \<Rightarrow> (local_world, verror, unit) op" where
  "local_remove roots n =
     bindE (liftE (local_resolve roots n)) (\<lambda>l.
       bindE (permit_change l) (\<lambda>_. calling (at_entry os_remove (root l) (rel l))))"

text \<open>The destination must not be there: what \<open>Rename\<close> would replace is an error instead.\<close>

definition rename_to :: "location \<Rightarrow> string \<Rightarrow> (local_world, verror, unit) op" where
  "rename_to l dest w =
     (case on_os (at_root os_stat (root l) dest) w of
        (Inr _, w') \<Rightarrow> (Inl ErrExist, w')
      | (Inl e, w') \<Rightarrow>
          if e \<noteq> NotExist then (Inl (outcome e), w')
          else calling (at_entry (\<lambda>p. at_entry (os_rename p) (root l) dest) (root l) (rel l)) w')"

definition local_rename :: "string list \<Rightarrow> node \<Rightarrow> string \<Rightarrow> string \<Rightarrow> (local_world, verror, unit) op" where
  "local_rename roots n from to =
     (if path_dir from \<noteq> path_dir to then failE ErrUnsupported
      else if \<not> valid_name (path_base to) then failE ErrFailure
      else bindE (liftE (local_resolve roots n)) (\<lambda>l.
           bindE (permit_change l) (\<lambda>_. rename_to l (path_join (path_dir (rel l)) (path_base to)))))"

definition local_child :: "string list \<Rightarrow> node \<Rightarrow> string \<Rightarrow> verror + node" where
  "local_child roots n name =
     (case local_resolve roots n of
        Inl e \<Rightarrow> Inl e
      | Inr l \<Rightarrow> Inr (Entry (no_attrs\<lparr>File := name, Backend := child_url l name,
                                        Permissions := Some (mask_bits l),
                                        MaxUploadSize := MaxUploadSize (attrs_of n)\<rparr>) []))"

definition local_backend :: "string list \<Rightarrow> local_world backend" where
  "local_backend roots = \<lparr>backend_list = local_list roots, backend_open = local_open roots,
     backend_create = local_create roots, backend_mkdir = local_mkdir roots,
     backend_remove = local_remove roots, backend_rename = local_rename roots,
     backend_child = local_child roots\<rparr>"

end
