(* ===== verification/Localfs_Facts.thy ===== *)
theory Localfs_Facts
  imports Localfs Config_Facts
begin

text \<open>
  Where the local backend says a node is. The URL it gives a member of a directory leads back
  to that member, under the same root, with a mask that is no wider than the directory's.
\<close>

section \<open>Names and paths\<close>

lemma valid_name_ordinary: "valid_name name \<Longrightarrow> ordinary name"
  unfolding valid_name_def ordinary_def by blast

lemma file_scheme_plain: "plain_scheme file_scheme"
  by (simp add: plain_scheme_def file_scheme_def byte_defs)

lemma local_path_url:
  assumes "ordinaries es"
  shows "local_path (url_string (empty_url\<lparr>u_scheme := file_scheme, u_path := abs_path es\<rparr>)) = Some (abs_path es)"
proof -
  have p: "prefix [slash] (abs_path es)" by (simp add: abs_path_def)
  have h: "plain_host []" by (simp add: plain_host_def)
  have u: "empty_url\<lparr>u_scheme := file_scheme, u_path := abs_path es\<rparr> =
           empty_url\<lparr>u_scheme := file_scheme, u_host := [], u_path := abs_path es\<rparr>"
    by (simp add: empty_url_def)
  have "url_string (empty_url\<lparr>u_scheme := file_scheme, u_path := abs_path es\<rparr>) =
      file_scheme @ ''://'' @ [] @ escape EncodePath (abs_path es)"
    unfolding u using url_string_plain [OF _ h p, of file_scheme] by (simp add: file_scheme_def)
  moreover note url_parse_plain [OF file_scheme_plain h p]
  moreover have "path_clean (abs_path es) = abs_path es" using assms by (rule path_clean_abs_path)
  ultimately show ?thesis using p by (simp add: local_path_def carries_more_def empty_url_def)
qed

lemma local_resolve_target:
  assumes "local_resolve roots n = Inr l"
  obtains es where "ordinaries es" and "target l = abs_path es" and "mask_bits l = mask n"
    and "root_serving roots (abs_path es) = Some (root l, rel l)"
proof -
  obtain path where path: "local_path (entry_backend n) = Some path"
    "root_serving roots path = Some (root l, rel l)" "target l = path" "mask_bits l = mask n"
    using assms by (auto simp: local_resolve_def split: option.splits)
  from local_path_abs [OF path(1)] obtain es where "ordinaries es" "path = abs_path es"
    using clean_abs_cases by blast
  then show ?thesis using that path by blast
qed

text \<open>One root serves a path, and it is the one whose components come first.\<close>

lemma root_serving_Some:
  assumes "root_serving roots p = Some (r, within)"
  shows "r \<in> set roots \<and> relative r p = Some within"
  using assms by (induction roots) (auto split: option.splits)

lemma root_serving_first:
  assumes "\<forall>r \<in> set roots. is_abs r" and "is_abs p" and "r \<in> set roots"
    and "prefix (components r) (components p)"
    and "\<forall>q \<in> set roots. prefix (components q) (components p) \<longrightarrow> q = r"
  shows "root_serving roots p = Some (r, the (relative r p))"
  using assms(1,3,5)
proof (induction roots)
  case (Cons q qs)
  show ?case
  proof (cases "prefix (components q) (components p)")
    case True
    then have "q = r" using Cons.prems by simp
    then show ?thesis using True relative_iff_prefix [of q p] Cons.prems(1) assms(2) by auto
  next
    case False
    then have "relative q p = None" using relative_iff_prefix [of q p] Cons.prems(1) assms(2) by auto
    moreover have "r \<in> set qs" using False Cons.prems(2) assms(4) by auto
    ultimately show ?thesis using Cons by simp
  qed
qed simp

lemma file_backend_roots:
  assumes "file_backend_validate roots = None"
  shows "\<forall>r \<in> set roots. is_abs r" and "prefix_loop [] roots = None"
  using assms by (auto simp: file_backend_validate_def prefix_loop_None split: if_splits)

lemma one_root_serves:
  assumes "file_backend_validate roots = None" and "is_abs p" and "r \<in> set roots" and "q \<in> set roots"
    and "prefix (components r) (components p)" and "prefix (components q) (components p)"
  shows "q = r"
proof -
  obtain i j where ij: "i < length roots" "roots ! i = r" "j < length roots" "roots ! j = q"
    using assms(3,4) by (auto simp: in_set_conv_nth)
  have "i = j"
    using prefixes_of_one_path [OF file_backend_roots(2) [OF assms(1)] assms(2) ij(1,3)]
      relative_iff_prefix file_backend_roots(1) [OF assms(1)] assms ij by blast
  then show ?thesis using ij by simp
qed

lemma relative_rel_path:
  assumes "is_abs r" and "ordinaries es" and "prefix (components r) es"
  shows "relative r (abs_path es) = Some (rel_path (drop (length (components r)) es))"
proof -
  have "relative r (abs_path es) = Some (if components r = es then ''.''
      else join_with slash (drop (length (components r)) es))"
    using relative_abs [OF assms(1) is_abs_abs_path] components_abs_path [OF assms(2)] assms(3) by simp
  moreover have "drop (length (components r)) es = [] \<longleftrightarrow> components r = es"
    using assms(3) by (auto simp: prefix_def)
  ultimately show ?thesis by (simp add: rel_path_def)
qed

lemma local_resolve_path:
  assumes "file_backend_validate roots = None" and "ordinaries es" and "r \<in> set roots"
    and "prefix (components r) es"
  shows "root_serving roots (abs_path es) = Some (r, rel_path (drop (length (components r)) es))"
proof -
  have abs: "\<forall>r \<in> set roots. is_abs r" using file_backend_roots(1) [OF assms(1)] .
  have c: "components (abs_path es) = es" using components_abs_path [OF assms(2)] .
  have "\<forall>q \<in> set roots. prefix (components q) (components (abs_path es)) \<longrightarrow> q = r"
    using one_root_serves [OF assms(1) is_abs_abs_path assms(3)] assms(4) c by metis
  then have "root_serving roots (abs_path es) = Some (r, the (relative r (abs_path es)))"
    using root_serving_first [OF abs is_abs_abs_path assms(3)] assms(4) c by simp
  then show ?thesis using relative_rel_path [OF _ assms(2,4)] abs assms(3) by simp
qed

section \<open>Members of a directory\<close>

lemma mask_subset: "and (mask n) all_bits = mask n"
  by (cases "Permissions (attrs_of n)") (simp_all add: mask_def and.assoc)

lemma local_resolve_member:
  assumes "file_backend_validate roots = None" and "local_resolve roots n = Inr l"
    and "valid_name name" and "entry_backend c = child_url l name"
  shows "local_resolve roots c =
    Inr \<lparr>root = root l, rel = path_join (rel l) name, target = path_join (target l) name, mask_bits = mask c\<rparr>"
proof -
  obtain es where es: "ordinaries es" "target l = abs_path es"
    "root_serving roots (abs_path es) = Some (root l, rel l)"
    using local_resolve_target [OF assms(2)] .
  note name = valid_name_ordinary [OF assms(3)]
  have root: "root l \<in> set roots" "relative (root l) (abs_path es) = Some (rel l)"
    using root_serving_Some [OF es(3)] by simp_all
  have abs: "is_abs (root l)" using file_backend_roots(1) [OF assms(1)] root(1) by blast
  have pre: "prefix (components (root l)) es"
    using root(2) relative_iff_prefix [OF abs is_abs_abs_path] components_abs_path [OF es(1)] by force
  have rel: "rel l = rel_path (drop (length (components (root l))) es)"
    using relative_rel_path [OF abs es(1) pre] root(2) by simp
  have member: "ordinaries (es @ [name])" using es(1) name by simp
  have t: "path_join (target l) name = abs_path (es @ [name])"
    unfolding es(2) using es(1) name by (rule path_join_abs_path)
  have "ordinaries (drop (length (components (root l))) es)" using es(1) in_set_dropD by metis
  then have r: "path_join (rel l) name = rel_path (drop (length (components (root l))) es @ [name])"
    unfolding rel using name by (rule path_join_rel_path)
  have d: "drop (length (components (root l))) (es @ [name]) =
           drop (length (components (root l))) es @ [name]"
    using prefix_length_le [OF pre] by simp
  have "root_serving roots (abs_path (es @ [name])) = Some (root l, path_join (rel l) name)"
    using local_resolve_path [OF assms(1) member root(1)] pre unfolding d r by simp
  moreover have "local_path (entry_backend c) = Some (abs_path (es @ [name]))"
    unfolding assms(4) child_url_def t using local_path_url [OF member] .
  ultimately show ?thesis by (simp add: local_resolve_def t)
qed

lemma child_of_fields:
  assumes "name \<noteq> []"
  shows "entry_name (child_of l name ob info) = name"
    and "entry_backend (child_of l name ob info) = child_url l name"
    and "Permissions (attrs_of (child_of l name ob info)) = Some (and (info_perm info) (mask_bits l))"
  using assms
  by (cases ob; simp add: child_of_def entry_name_def no_attrs_def Let_def)+

lemma child_of_mask:
  assumes "name \<noteq> []" and "and m all_bits = m" and "mask_bits l = m"
  shows "mask (child_of l name ob info) = and (info_perm info) m"
  using assms(2,3) child_of_fields(3) [OF assms(1), of l ob info]
  by (simp add: mask_def and.assoc)

lemma local_children_members:
  assumes "c \<in> set (fst (local_children l es h))"
  shows "\<exists>name ob info. c = child_of l name ob info \<and> valid_name name \<and> \<not> prefix upload_prefix name"
  using assms
proof (induction es arbitrary: h)
  case (Cons e es)
  obtain name ob where e: "e = (name, ob)" by (cases e)
  obtain x h1 where x: "local_child_entry l e h = (x, h1)" by (metis surj_pair)
  show ?case
  proof (cases "x = Some c")
    case True
    then show ?thesis using x e
      by (auto simp: local_child_entry_def split: if_splits prod.splits sum.splits)
  next
    case False
    then have "c \<in> set (fst (local_children l es h1))"
      using Cons.prems x by (auto split: prod.splits option.splits)
    then show ?thesis by (rule Cons.IH)
  qed
qed simp

lemma local_list_children:
  assumes "local_list roots n w = (Inr cs, w')"
  shows "\<exists>l. local_resolve roots n = Inr l \<and> sorted (map entry_name cs) \<and>
    (\<forall>c \<in> set cs. \<exists>name ob info. c = child_of l name ob info \<and> valid_name name \<and>
                    \<not> prefix upload_prefix name)"
proof -
  obtain l where l: "local_resolve roots n = Inr l"
    using assms by (cases "local_resolve roots n") (auto simp: local_list_def)
  show ?thesis
  proof (cases "readable (mask_bits l)")
    case False
    then show ?thesis using assms l by (simp add: local_list_def)
  next
    case True
    then obtain fd w1 w2 where "closing fd (bindE (calling (os_readdir fd)) (sorted_children l)) w1 = (Inr cs, w2)"
      using assms l by (auto simp: local_list_def bindE_Inr_iff)
    then obtain fd w1 w2 where "bindE (calling (os_readdir fd)) (sorted_children l) w1 = (Inr cs, w2)"
      by (cases "bindE (calling (os_readdir fd)) (sorted_children l) w1") (auto simp: closing_def)
    then obtain es w3 where "sorted_children l es w3 = (Inr cs, w2)" by (auto simp: bindE_Inr_iff)
    then have "cs = sort_key entry_name (fst (local_children l es (os w3)))"
      by (cases "local_children l es (os w3)") (simp add: sorted_children_def on_os_def)
    then show ?thesis using l local_children_members by auto
  qed
qed

end
