(* ===== verification/Localfs_Upload.thy ===== *)
theory Localfs_Upload
  imports Localfs_Facts
begin

text \<open>
  What an upload to the local backend does. It is a state machine: in progress it owns a
  hidden file beside the one the client named, and closing it either replaces that one name
  by the whole of what was written or leaves it as it was, whatever calls fail on the way.
\<close>

section \<open>Hosts\<close>

text \<open>Everything but the root is in a directory, and no name is ahead of the inodes handed out.\<close>

definition wf_host :: "host \<Rightarrow> bool" where
  "wf_host h \<longleftrightarrow>
     (\<forall>p. object_at h p \<noteq> None \<longrightarrow> p = [] \<or> is_directory_at h (butlast p)) \<and>
     (\<forall>p i. object_at h p = Some (RegularAt i) \<longrightarrow> i < next_inode h)"

lemma wf_host_above:
  assumes "wf_host h" and "object_at h (p @ s) \<noteq> None" and "s \<noteq> []"
  shows "is_directory_at h p"
  using assms(2,3)
proof (induction s rule: rev_induct)
  case (snoc x s)
  have "is_directory_at h (p @ s)"
    using assms(1) snoc.prems(1) by (auto simp: wf_host_def simp flip: append_assoc)
  moreover from this have "object_at h (p @ s) \<noteq> None" by (auto simp: is_directory_at_def split: option.splits)
  ultimately show ?case using snoc.IH by (cases "s = []") simp_all
qed simp

lemma wf_host_nothing_beneath:
  assumes "wf_host h" and "\<not> is_directory_at h p" and "strict_prefix p r"
  shows "object_at h r = None"
proof -
  obtain s where "r = p @ s" "s \<noteq> []" using assms(3) by (auto simp: strict_prefix_def prefix_def)
  then show ?thesis using wf_host_above [OF assms(1)] assms(2) by blast
qed

lemma map_of_move_leaf:
  assumes "p \<noteq> q" and "\<And>r. strict_prefix p r \<Longrightarrow> map_of xs r = None"
  shows "map_of (map (\<lambda>(k, ob). (moved p q k, ob)) (AList.delete q xs)) r =
           (if r = q then map_of xs p else if r = p then None else map_of xs r)"
proof -
  have keys: "moved p q k = (if k = p then q else k)" if "map_of xs k \<noteq> None" for k
  proof (cases "prefix p k")
    case True
    moreover have "\<not> strict_prefix p k" using assms(2) [of k] that by auto
    ultimately have "k = p" by (auto simp: strict_prefix_def)
    then show ?thesis by (simp add: moved_def)
  next
    case False
    then show ?thesis by (auto simp: moved_def)
  qed
  have gen: "map_of (map (\<lambda>(k, ob). (moved p q k, ob)) ys) r =
      (if r = q then map_of ys p else if r = p then None else map_of ys r)"
    if "\<forall>k \<in> fst ` set ys. k \<noteq> q \<and> moved p q k = (if k = p then q else k)" for ys
    using that
  proof (induction ys)
    case (Cons kv ys)
    obtain k v where kv: "kv = (k, v)" by (cases kv)
    have "k \<noteq> q" "moved p q k = (if k = p then q else k)" using Cons.prems kv by simp_all
    moreover have "map_of (map (\<lambda>(k, ob). (moved p q k, ob)) ys) r =
        (if r = q then map_of ys p else if r = p then None else map_of ys r)"
      by (rule Cons.IH) (use Cons.prems in simp)
    ultimately show ?case using kv assms(1) by auto
  qed (use assms(1) in auto)
  have "k \<noteq> q \<and> moved p q k = (if k = p then q else k)" if "k \<in> fst ` set (AList.delete q xs)" for k
  proof -
    have "k \<noteq> q" "k \<in> fst ` set xs" using that by (auto simp: AList.delete_eq)
    then have "map_of xs k \<noteq> None" by (simp add: map_of_eq_None_iff)
    then show ?thesis using keys \<open>k \<noteq> q\<close> by blast
  qed
  with gen [of "AList.delete q xs"] show ?thesis
    using assms(1) by (simp add: delete_conv')
qed

section \<open>Paths\<close>

lemma at_root_path:
  assumes "ordinaries ps"
  shows "at_root call name (rel_path ps) = call (components name @ ps)"
  using assms is_local_rel_path path_clean_rel_path elements_rel_path by (simp add: at_root_def)

lemma at_entry_path:
  assumes "ordinaries ps" and "ps \<noteq> []"
  shows "at_entry call name (rel_path ps) = call (components name @ ps)"
  using assms at_root_path path_clean_rel_path elements_rel_path by (simp add: at_entry_def)

lemma base32_digit_no_slash: "d < 32 \<Longrightarrow> base32_digit d \<noteq> slash"
proof -
  assume d: "d < 32"
  then have "of_char (base32_digit d) \<noteq> (of_char slash :: nat)"
    by (cases "d < 26") (simp_all add: base32_digit_def)
  then show ?thesis by metis
qed

lemma base32_ordinary: "ordinary (upload_prefix @ base32_text n)"
proof -
  have "slash \<notin> set (base32_digits k n)" for k
  proof (induction k arbitrary: n)
    case (Suc k)
    have "base32_digit (n mod 32) \<noteq> slash" by (rule base32_digit_no_slash) simp
    then show ?case using Suc by auto
  qed simp
  then have "slash \<notin> set (base32_text n)" by (simp add: base32_text_def)
  then show ?thesis by (simp add: ordinary_def upload_prefix_def)
qed

section \<open>An upload in progress\<close>

definition in_progress :: "local_world \<Rightarrow> nat \<Rightarrow> upload \<Rightarrow> nat \<Rightarrow> bool" where
  "in_progress w u up i \<longleftrightarrow>
     uploads w u = Some up \<and> up_err up = None \<and> handles (os w) (up_file up) = Some (WriteHandle i) \<and>
     inodes (os w) i \<noteq> None"

definition file_contents :: "local_world \<Rightarrow> nat \<Rightarrow> bytes" where
  "file_contents w i = (case inodes (os w) i of None \<Rightarrow> [] | Some n \<Rightarrow> contents n)"

text \<open>Names, and the files there were, as they are in both.\<close>

definition same_names :: "host \<Rightarrow> host \<Rightarrow> bool" where
  "same_names h h' \<longleftrightarrow> names h' = names h \<and> next_inode h' = next_inode h"

lemma same_names_refl [simp]: "same_names h h"
  by (simp add: same_names_def)

lemma same_names_trans: "same_names a b \<Longrightarrow> same_names b c \<Longrightarrow> same_names a c"
  by (simp add: same_names_def)

lemma same_names_object: "same_names h h' \<Longrightarrow> object_at h' p = object_at h p"
  by (simp add: same_names_def object_at_def)

lemma same_names_calls [simp]: "same_names h (h'\<lparr>calls := n\<rparr>) = same_names h h'"
  by (simp add: same_names_def)

lemma put_bytes_fields [simp]:
  "names (put_bytes i off d h) = names h" "next_inode (put_bytes i off d h) = next_inode h"
  "handles (put_bytes i off d h) = handles h"
  "inodes (put_bytes i off d h) j = None \<longleftrightarrow> inodes h j = None"
  "j \<noteq> i \<Longrightarrow> inodes (put_bytes i off d h) j = inodes h j"
  by (auto simp: put_bytes_def split: option.splits)

lemma upload_write:
  assumes "in_progress w u up i" and "upload_write_at u data off w = ((n, None), w')"
  shows "in_progress w' u up i" and "same_names (os w) (os w')" and "n = length data"
    and "file_contents w' i = apply_write (file_contents w i) (data, off)"
    and "j \<noteq> i \<Longrightarrow> inodes (os w') j = inodes (os w) j"
proof -
  obtain h where h: "os_write_at (up_file up) data off (os w) = ((n, None), h)" "w' = w\<lparr>os := h\<rparr>"
    using assms by (auto simp: in_progress_def upload_write_at_def on_os_def split: prod.splits option.splits)
  have hh: "handles (os w) (up_file up) = Some (WriteHandle i)" using assms(1) by (simp add: in_progress_def)
  have pos: "0 \<le> sint off" using h(1) by (auto simp: os_write_at_def split: if_splits)
  show "n = length data" and "same_names (os w) (os w')" and "in_progress w' u up i"
    and "j \<noteq> i \<Longrightarrow> inodes (os w') j = inodes (os w) j"
    and "file_contents w' i = apply_write (file_contents w i) (data, off)"
    using assms(1) h hh pos
    by (auto simp: os_write_at_def in_progress_def same_names_def Let_def file_contents_def apply_write_def
        put_bytes_def split: if_splits option.splits)
qed

fun write_all :: "nat \<Rightarrow> (bytes \<times> int64) list \<Rightarrow> local_world \<Rightarrow> local_world option" where
  "write_all u [] w = Some w"
| "write_all u ((data, off) # ds) w =
     (case upload_write_at u data off w of ((_, None), w') \<Rightarrow> write_all u ds w' | _ \<Rightarrow> None)"

lemma write_all_contents:
  assumes "in_progress w u up i" and "write_all u ds w = Some w'"
  shows "in_progress w' u up i" and "same_names (os w) (os w')"
    and "file_contents w' i = foldl apply_write (file_contents w i) ds"
    and "j \<noteq> i \<Longrightarrow> inodes (os w') j = inodes (os w) j"
  using assms
proof (atomize (full), induction ds arbitrary: w)
  case Nil
  then show ?case by simp
next
  case (Cons dw ds)
  obtain data off where dw: "dw = (data, off)" by (cases dw)
  obtain n w1 where w1: "upload_write_at u data off w = ((n, None), w1)" "write_all u ds w1 = Some w'"
    using Cons.prems(2) dw by (auto split: prod.splits option.splits)
  note step = upload_write [OF Cons.prems(1) w1(1)]
  from Cons.IH [OF step(1) w1(2)] step(2,4,5) show ?case
    using same_names_trans dw by (auto simp: fun_eq_iff)
qed

section \<open>Beginning one\<close>

text \<open>
  The file a location names is \<open>es @ [x]\<close> within its root; its hidden file is a sibling.
\<close>

definition placed :: "location \<Rightarrow> string list \<Rightarrow> string \<Rightarrow> bool" where
  "placed l es x \<longleftrightarrow> ordinaries (es @ [x]) \<and> rel l = rel_path (es @ [x])"

definition dest_path :: "location \<Rightarrow> string list \<Rightarrow> string \<Rightarrow> host_path" where
  "dest_path l es x = components (root l) @ es @ [x]"

definition hidden_path :: "location \<Rightarrow> string list \<Rightarrow> nat \<Rightarrow> host_path" where
  "hidden_path l es k = components (root l) @ es @ [upload_prefix @ base32_text k]"

lemma hidden_temporary:
  assumes "placed l es x"
  shows "path_join (path_dir (rel l)) (upload_prefix @ base32_text k) =
           rel_path (es @ [upload_prefix @ base32_text k])"
    and "ordinaries (es @ [upload_prefix @ base32_text k])"
proof -
  have es: "ordinaries es" "ordinary x" using assms by (simp_all add: placed_def)
  show "path_join (path_dir (rel l)) (upload_prefix @ base32_text k) =
           rel_path (es @ [upload_prefix @ base32_text k])"
    using es base32_ordinary assms by (simp add: placed_def path_dir_rel_path path_join_rel_path)
  show "ordinaries (es @ [upload_prefix @ base32_text k])" using es(1) base32_ordinary by simp
qed

lemma os_create_excl_cases:
  assumes "os_create_excl p mode h = (r, h')"
  shows "(\<exists>e. r = Inl e \<and> same_names h h' \<and> inodes h' = inodes h) \<or>
         (\<exists>fd. r = Inr fd \<and> object_at h p = None \<and> parent_ok h p \<and> names h' = names h @ [(p, RegularAt (next_inode h))] \<and>
               next_inode h' = Suc (next_inode h) \<and> handles h' fd = Some (WriteHandle (next_inode h)) \<and>
               map_option contents (inodes h' (next_inode h)) = Some [] \<and>
               (\<forall>j. j \<noteq> next_inode h \<longrightarrow> inodes h' j = inodes h j))"
  using assms
  by (auto simp: os_create_excl_def os_call_def Let_def same_names_def new_handle_def parent_ok_def
      split: option.splits if_splits)

lemma object_at_snoc:
  "names h' = names h @ [(p, ob)] \<Longrightarrow> object_at h p = None \<Longrightarrow>
   object_at h' q = (if q = p then Some ob else object_at h q)"
  by (auto simp: object_at_def map_add_def split: option.splits)

text \<open>An upload that has begun on a host: its hidden file is new, empty, and all there is that is.\<close>

definition begun :: "location \<Rightarrow> string list \<Rightarrow> host \<Rightarrow> local_world \<Rightarrow> nat \<Rightarrow> upload \<Rightarrow> nat \<Rightarrow> bool" where
  "begun l es h w u up k \<longleftrightarrow>
     in_progress w u up (next_inode h) \<and> up_at up = l \<and>
     up_temporary up = rel_path (es @ [upload_prefix @ base32_text k]) \<and>
     next_inode (os w) = Suc (next_inode h) \<and> file_contents w (next_inode h) = [] \<and>
     object_at h (hidden_path l es k) = None \<and> parent_ok h (hidden_path l es k) \<and>
     (\<forall>q. object_at (os w) q =
            (if q = hidden_path l es k then Some (RegularAt (next_inode h)) else object_at h q)) \<and>
     (\<forall>j. j \<noteq> next_inode h \<longrightarrow> inodes (os w) j = inodes h j)"

lemma begun_same:
  assumes "same_names h h2" and "inodes h2 = inodes h" and "begun l es h2 w u up k"
  shows "begun l es h w u up k"
proof -
  have "object_at h2 = object_at h" "is_directory_at h2 = is_directory_at h" "next_inode h2 = next_inode h"
    using assms(1) by (simp_all add: same_names_def object_at_def is_directory_at_def fun_eq_iff)
  then show ?thesis using assms(2,3) by (simp add: begun_def parent_ok_def)
qed

lemma new_upload_begins:
  assumes "placed l es x" and "new_upload_loop n l w = (Inr u, w')"
  shows "\<exists>up k. begun l es (os w) w' u up k"
  using assms(2)
proof (induction n arbitrary: w)
  case 0
  then show ?case by simp
next
  case (Suc n)
  let ?k = "entropy (os w) (calls (os w))"
  define h1 where "h1 = (os w)\<lparr>calls := Suc (calls (os w))\<rparr>"
  let ?p = "hidden_path l es ?k"
  note tmp = hidden_temporary [OF assms(1), of ?k]
  have at: "at_root (\<lambda>p. os_create_excl p create_file_mode) (root l)
      (path_join (path_dir (rel l)) (upload_prefix @ base32_text ?k)) h1 = os_create_excl ?p create_file_mode h1"
    unfolding tmp(1) at_root_path [OF tmp(2)] hidden_path_def by simp
  obtain r h2 where h2: "os_create_excl ?p create_file_mode h1 = (r, h2)" by (metis surj_pair)
  have same1: "same_names (os w) h1" "inodes h1 = inodes (os w)" by (simp_all add: h1_def same_names_def)
  have loop: "new_upload_loop (Suc n) l w =
      (case r of Inl e \<Rightarrow> if e = Exist then new_upload_loop n l (w\<lparr>os := h2\<rparr>) else (Inl (outcome e), w\<lparr>os := h2\<rparr>)
       | Inr fd \<Rightarrow> (Inr (next_upload w), w\<lparr>os := h2, uploads := (uploads w)(next_upload w \<mapsto>
           \<lparr>up_at = l, up_file = fd, up_temporary = rel_path (es @ [upload_prefix @ base32_text ?k]), up_err = None\<rparr>),
           next_upload := Suc (next_upload w)\<rparr>))"
    using at h2 tmp(1) by (auto simp: on_os_def rand_text_def h1_def Let_def split: sum.splits)
  show ?case
  proof (cases r)
    case (Inl e)
    then have rest: "new_upload_loop n l (w\<lparr>os := h2\<rparr>) = (Inr u, w')"
      using Suc.prems loop by (auto split: if_splits)
    have h: "same_names h1 h2" "inodes h2 = inodes h1" using os_create_excl_cases [OF h2] Inl by auto
    then have "same_names (os w) h2" "inodes h2 = inodes (os w)"
      using same1 same_names_trans by (blast, simp)
    moreover obtain up k where "begun l es h2 w' u up k" using Suc.IH [OF rest] by auto
    ultimately show ?thesis using begun_same by blast
  next
    case (Inr fd)
    have c: "object_at h1 ?p = None" "parent_ok h1 ?p" "names h2 = names h1 @ [(?p, RegularAt (next_inode h1))]"
      "next_inode h2 = Suc (next_inode h1)" "handles h2 fd = Some (WriteHandle (next_inode h1))"
      "map_option contents (inodes h2 (next_inode h1)) = Some []"
      "\<forall>j. j \<noteq> next_inode h1 \<longrightarrow> inodes h2 j = inodes h1 j"
      using os_create_excl_cases [OF h2] Inr by auto
    have obj: "object_at h2 q = (if q = ?p then Some (RegularAt (next_inode h1)) else object_at h1 q)" for q
      using object_at_snoc [OF c(3,1)] .
    have h1: "object_at h1 q = object_at (os w) q" "next_inode h1 = next_inode (os w)"
        "inodes h1 = inodes (os w)" "is_directory_at h1 q = is_directory_at (os w) q" for q
      by (simp_all add: h1_def is_directory_at_def object_at_def)
    have w': "u = next_upload w" "w' = w\<lparr>os := h2, uploads := (uploads w)(next_upload w \<mapsto>
           \<lparr>up_at = l, up_file = fd, up_temporary = rel_path (es @ [upload_prefix @ base32_text ?k]), up_err = None\<rparr>),
           next_upload := Suc (next_upload w)\<rparr>"
      using Suc.prems loop Inr by auto
    let ?up = "\<lparr>up_at = l, up_file = fd, up_temporary = rel_path (es @ [upload_prefix @ base32_text ?k]), up_err = None\<rparr>"
    have "in_progress w' u ?up (next_inode (os w))" "file_contents w' (next_inode (os w)) = []"
      "\<forall>j. j \<noteq> next_inode (os w) \<longrightarrow> inodes (os w') j = inodes (os w) j"
      "next_inode (os w') = Suc (next_inode (os w))"
      using w' c h1 by (auto simp: in_progress_def file_contents_def)
    moreover have "object_at (os w) ?p = None" "parent_ok (os w) ?p"
      using c(1,2) h1 by (simp_all add: parent_ok_def)
    moreover have "\<forall>q. object_at (os w') q = (if q = ?p then Some (RegularAt (next_inode (os w))) else object_at (os w) q)"
      using obj w' h1 by simp
    ultimately have "begun l es (os w) w' u ?up ?k" by (simp add: begun_def)
    then show ?thesis by blast
  qed
qed

section \<open>Ending one\<close>

text \<open>The state an upload is in from its beginning to its end, its writes done.\<close>

definition pending :: "location \<Rightarrow> string list \<Rightarrow> host \<Rightarrow> local_world \<Rightarrow> nat \<Rightarrow> upload \<Rightarrow> nat \<Rightarrow> bytes \<Rightarrow> bool" where
  "pending l es h w u up k data \<longleftrightarrow>
     in_progress w u up (next_inode h) \<and> up_at up = l \<and>
     up_temporary up = rel_path (es @ [upload_prefix @ base32_text k]) \<and>
     next_inode (os w) = Suc (next_inode h) \<and> file_contents w (next_inode h) = data \<and>
     object_at h (hidden_path l es k) = None \<and>
     (\<forall>q. object_at (os w) q =
            (if q = hidden_path l es k then Some (RegularAt (next_inode h)) else object_at h q)) \<and>
     (\<forall>j. j \<noteq> next_inode h \<longrightarrow> inodes (os w) j = inodes h j)"

lemma pending_writes:
  assumes "begun l es h w1 u up k" and "write_all u ds w1 = Some w2"
  shows "pending l es h w2 u up k (foldl apply_write [] ds)"
proof -
  have "in_progress w1 u up (next_inode h)" using assms(1) by (simp add: begun_def)
  note ws = write_all_contents [OF this assms(2)]
  have "object_at (os w2) q = object_at (os w1) q" for q using same_names_object [OF ws(2)] .
  moreover have "next_inode (os w2) = next_inode (os w1)" using ws(2) by (simp add: same_names_def)
  ultimately show ?thesis using assms(1) ws by (simp add: pending_def begun_def)
qed

text \<open>
  The same, whether or not a write has failed and been remembered: the hidden file is still
  there and is still all there is that is new, though what it holds may be part of a write.
\<close>

definition held :: "location \<Rightarrow> string list \<Rightarrow> host \<Rightarrow> local_world \<Rightarrow> nat \<Rightarrow> upload \<Rightarrow> nat \<Rightarrow> bool" where
  "held l es h w u up k \<longleftrightarrow>
     uploads w u = Some up \<and> handles (os w) (up_file up) = Some (WriteHandle (next_inode h)) \<and>
     inodes (os w) (next_inode h) \<noteq> None \<and> up_at up = l \<and>
     up_temporary up = rel_path (es @ [upload_prefix @ base32_text k]) \<and>
     next_inode (os w) = Suc (next_inode h) \<and>
     object_at h (hidden_path l es k) = None \<and>
     (\<forall>q. object_at (os w) q =
            (if q = hidden_path l es k then Some (RegularAt (next_inode h)) else object_at h q)) \<and>
     (\<forall>j. j \<noteq> next_inode h \<longrightarrow> inodes (os w) j = inodes h j)"

lemma pending_held:
  "pending l es h w u up k data \<longleftrightarrow>
     held l es h w u up k \<and> up_err up = None \<and> file_contents w (next_inode h) = data"
  by (auto simp: pending_def held_def in_progress_def)

lemma begun_held: "begun l es h w u up k \<Longrightarrow> held l es h w u up k \<and> up_err up = None"
  by (simp add: begun_def held_def in_progress_def)

lemma os_write_at_keeps:
  assumes "os_write_at fd d off h = (r, h')" and "handles h fd = Some (WriteHandle i)"
  shows "same_names h h' \<and> handles h' = handles h \<and>
         (\<forall>j. inodes h' j = None \<longleftrightarrow> inodes h j = None) \<and> (\<forall>j. j \<noteq> i \<longrightarrow> inodes h' j = inodes h j)"
  using assms by (auto simp: os_write_at_def Let_def same_names_def split: if_splits option.splits)

lemma held_write:
  assumes "held l es h w u up k" and "upload_write_at u d off w = ((n, e), w')"
  shows "\<exists>up'. held l es h w' u up' k \<and> (up_err up' = None \<longleftrightarrow> up_err up = None \<and> e = None)"
proof (cases "up_err up")
  case (Some e')
  then have "w' = w" using assms by (simp add: held_def upload_write_at_def)
  then show ?thesis using assms(1) Some by (intro exI [of _ up]) simp
next
  case None
  note p = assms(1) [unfolded held_def]
  obtain n' r g where g: "os_write_at (up_file up) d off (os w) = ((n', r), g)" by (metis surj_pair)
  note same = os_write_at_keeps [OF g, of "next_inode h"]
  have obj: "object_at g q = object_at (os w) q" for q using same p same_names_object by blast
  obtain file' where new: "inodes g (next_inode h) = Some file'" using same p by (cases "inodes g (next_inode h)") simp_all
  have w': "e = map_option outcome r"
    "w' = (if r = None then w\<lparr>os := g\<rparr> else set_upload_err u up (outcome (the r)) (w\<lparr>os := g\<rparr>))"
    using assms(2) p None g by (auto simp: upload_write_at_def on_os_def split: option.splits)
  then show ?thesis
    using p None same obj new
    by (intro exI [of _ "if r = None then up else up\<lparr>up_err := Some (outcome (the r))\<rparr>"])
      (simp add: held_def set_upload_err_def same_names_def)
qed

lemma os_remove_names:
  "os_remove p h = (r, h') \<Longrightarrow> (\<forall>q. q \<noteq> p \<longrightarrow> object_at h' q = object_at h q) \<and> inodes h' = inodes h \<and>
     (r = Inr () \<longrightarrow> object_at h' p = None) \<and> (r \<noteq> Inr () \<longrightarrow> names h' = names h)"
  by (auto simp: os_remove_def os_call_def Let_def object_at_def delete_conv' split: option.splits if_splits)

lemma os_rename_leaf:
  assumes "os_rename p q h = (r, h')" and "\<And>s. strict_prefix p s \<Longrightarrow> object_at h s = None"
    and "object_at h p = Some ob" and "\<And>s. s \<noteq> p \<Longrightarrow> object_at h s \<noteq> Some ob" and "\<not> is_directory_at h p"
  shows "inodes h' = inodes h \<and>
     (r = Inr () \<longrightarrow> (\<forall>s. object_at h' s = (if s = q then Some ob else if s = p then None else object_at h s))) \<and>
     (r \<noteq> Inr () \<longrightarrow> names h' = names h)"
proof -
  have leaf: "map_of (map (\<lambda>(k, ob). (moved p q k, ob)) (AList.delete q (names h))) s =
      (if s = q then map_of (names h) p else if s = p then None else map_of (names h) s)" if "p \<noteq> q" for s
    by (rule map_of_move_leaf [OF that assms(2) [unfolded object_at_def]])
  have other: "object_at h q \<noteq> Some ob" if "p \<noteq> q" using assms(4) [of q] that by simp
  have inodes: "inodes h' = inodes h"
    using assms(1) by (auto simp: os_rename_def os_call_def Let_def split: option.splits if_splits)
  show ?thesis
  proof (cases "r = Inr ()")
    case True
    show ?thesis
    proof (cases "p = q")
      case True
      then have "names h' = names h"
        using assms(1,3) by (auto simp: os_rename_def os_call_def Let_def split: option.splits if_splits)
      then show ?thesis using inodes \<open>r = Inr ()\<close> True assms(3) by (simp add: object_at_def)
    next
      case False
      then have "names h' = map (\<lambda>(k, ob). (moved p q k, ob)) (AList.delete q (names h))"
        using assms(1,3) other [OF False] \<open>r = Inr ()\<close>
        by (auto simp: os_rename_def os_call_def Let_def split: option.splits if_splits)
      then show ?thesis
        using inodes \<open>r = Inr ()\<close> leaf [OF False] assms(3) by (simp add: object_at_def)
    qed
  next
    case False
    then have "names h' = names h"
      using assms(1,3) by (auto simp: os_rename_def os_call_def Let_def split: option.splits if_splits)
    then show ?thesis using inodes False by simp
  qed
qed

lemma pending_hidden_leaf:
  assumes "pending l es h w u up k data" and "wf_host h"
  shows "strict_prefix (hidden_path l es k) s \<Longrightarrow> object_at (os w) s = None"
    and "s \<noteq> hidden_path l es k \<Longrightarrow> object_at (os w) s \<noteq> Some (RegularAt (next_inode h))"
    and "\<not> is_directory_at (os w) (hidden_path l es k)"
proof -
  note obj = assms(1) [unfolded pending_def]
  have "\<not> is_directory_at h (hidden_path l es k)" using obj by (simp add: is_directory_at_def)
  then show "strict_prefix (hidden_path l es k) s \<Longrightarrow> object_at (os w) s = None"
    using obj wf_host_nothing_beneath [OF assms(2)] by auto
  show "s \<noteq> hidden_path l es k \<Longrightarrow> object_at (os w) s \<noteq> Some (RegularAt (next_inode h))"
    using obj assms(2) by (auto simp: wf_host_def)
  show "\<not> is_directory_at (os w) (hidden_path l es k)"
    using obj by (simp add: is_directory_at_def)
qed

lemma os_close_same: "os_close fd h = (r, h') \<Longrightarrow> same_names h h' \<and> inodes h' = inodes h"
  by (auto simp: os_close_def Let_def same_names_def split: option.splits)

text \<open>What is left when the hidden file is removed, or when even that fails.\<close>

definition left_alone :: "location \<Rightarrow> string list \<Rightarrow> nat \<Rightarrow> host \<Rightarrow> host \<Rightarrow> bool" where
  "left_alone l es k h h' \<longleftrightarrow>
     (\<forall>q. q \<noteq> hidden_path l es k \<longrightarrow> object_at h' q = object_at h q) \<and>
     (\<forall>j < next_inode h. inodes h' j = inodes h j)"

lemma remove_hidden:
  assumes "held l es h w u up k" and "placed l es x" and "names g = names (os w)" and "inodes g = inodes (os w)"
    and "at_entry os_remove (root l) (up_temporary up) g = (r, g')"
  shows "left_alone l es k h g' \<and> (r = Inr () \<longrightarrow> object_at g' (hidden_path l es k) = None)"
proof -
  note p = assms(1) [unfolded held_def]
  have "at_entry os_remove (root l) (up_temporary up) = os_remove (hidden_path l es k)"
    using p at_entry_path [OF hidden_temporary(2) [OF assms(2)]] by (simp add: hidden_path_def)
  then have "os_remove (hidden_path l es k) g = (r, g')" using assms(5) by simp
  from os_remove_names [OF this] show ?thesis
    using p assms(3,4) by (auto simp: left_alone_def object_at_def)
qed

lemma pending_close:
  assumes "pending l es h w u up k data" and "placed l es x" and "wf_host h"
    and "upload_close u w = (r, w')"
  shows "(r = None \<longrightarrow>
            (\<forall>q. object_at (os w') q = (if q = dest_path l es x then Some (RegularAt (next_inode h)) else object_at h q)) \<and>
            file_contents w' (next_inode h) = data \<and> (\<forall>j < next_inode h. inodes (os w') j = inodes h j)) \<and>
         (r \<noteq> None \<longrightarrow> left_alone l es k h (os w'))"
proof -
  note p = assms(1) [unfolded pending_def in_progress_def]
  let ?w1 = "set_upload_err u up ErrFailure w"
  let ?hidden = "hidden_path l es k"
  obtain r1 h1 where c: "os_close (up_file up) (os w) = (r1, h1)" by (metis surj_pair)
  have w1: "on_os (os_close (up_file up)) ?w1 = (r1, ?w1\<lparr>os := h1\<rparr>)"
    using c by (simp add: on_os_def set_upload_err_def)
  note same1 = os_close_same [OF c]
  have up: "uploads w u = Some up" "up_err up = None" "up_at up = l" using p by simp_all
  have rm: "left_alone l es k h (snd (at_entry os_remove (root l) (up_temporary up) g))"
    if "names g = names (os w)" "inodes g = inodes (os w)" for g
    using remove_hidden [OF _ assms(2) that] assms(1) unfolding pending_held by (metis prod.collapse)
  show ?thesis
  proof (cases r1)
    case (Inl e)
    then have "r = Some (outcome e) \<and> os w' = snd (at_entry os_remove (root l) (up_temporary up) h1)"
      using assms(4) up w1 by (auto simp: upload_close_def give_up_def on_os_def split: prod.splits)
    then show ?thesis using rm same1 by (simp add: same_names_def)
  next
    case (Inr ok)
    have tmp: "up_temporary up = rel_path (es @ [upload_prefix @ base32_text k])" using p by simp
    have dest: "rel l = rel_path (es @ [x])" "ordinaries (es @ [x])" using assms(2) by (simp_all add: placed_def)
    have ren: "at_entry (\<lambda>p. at_entry (os_rename p) (root l) (rel l)) (root l) (up_temporary up) =
        os_rename ?hidden (dest_path l es x)"
      unfolding tmp dest(1) at_entry_path [OF hidden_temporary(2) [OF assms(2)], simplified]
        hidden_path_def dest_path_def
      using at_entry_path [OF dest(2)] by simp
    obtain r2 h2 where h2: "os_rename ?hidden (dest_path l es x) h1 = (r2, h2)" by (metis surj_pair)
    have h1: "object_at h1 q = object_at (os w) q" "is_directory_at h1 q = is_directory_at (os w) q" for q
      using same1 same_names_object by (auto simp: is_directory_at_def)
    have "object_at h1 ?hidden = Some (RegularAt (next_inode h))" using h1 p by simp
    from os_rename_leaf [OF h2 _ this] have leaf: "inodes h2 = inodes h1 \<and>
       (r2 = Inr () \<longrightarrow> (\<forall>s. object_at h2 s = (if s = dest_path l es x then Some (RegularAt (next_inode h))
                                    else if s = ?hidden then None else object_at h1 s))) \<and>
       (r2 \<noteq> Inr () \<longrightarrow> names h2 = names h1)"
      using pending_hidden_leaf [OF assms(1,3)] h1 by auto
    show ?thesis
    proof (cases r2)
      case (Inl e)
      then have "r = Some (outcome e) \<and> os w' = snd (at_entry os_remove (root l) (up_temporary up) h2)"
        using assms(4) up w1 ren h2 \<open>r1 = Inr ok\<close>
        by (auto simp: upload_close_def give_up_def on_os_def split: prod.splits)
      moreover have "names h2 = names (os w) \<and> inodes h2 = inodes (os w)"
        using leaf Inl same1 by (auto simp: same_names_def)
      ultimately show ?thesis using rm by simp
    next
      case (Inr ok2)
      then have "r = None \<and> os w' = h2"
        using assms(4) up w1 ren h2 \<open>r1 = Inr ok\<close> by (auto simp: upload_close_def on_os_def)
      then show ?thesis
        using leaf Inr same1 h1 p by (auto simp: file_contents_def)
    qed
  qed
qed

lemma pending_abort:
  assumes "pending l es h w u up k data" and "placed l es x" and "upload_abort u w = (r, w')"
  shows "left_alone l es k h (os w') \<and> (r = None \<longrightarrow> object_at (os w') (hidden_path l es k) = None)"
proof -
  note p = assms(1) [unfolded pending_def in_progress_def]
  let ?w1 = "set_upload_err u up ErrFailure w"
  obtain r1 h1 where c: "os_close (up_file up) (os w) = (r1, h1)" by (metis surj_pair)
  obtain r2 h2 where rm: "at_entry os_remove (root l) (up_temporary up) h1 = (r2, h2)" by (metis surj_pair)
  have "os ?w1 = os w" by (simp add: set_upload_err_def)
  then have d: "discard up ?w1 = (joined (failed r1) (failed r2), ?w1\<lparr>os := h2\<rparr>)"
    using c rm p by (simp add: discard_def on_os_def)
  have "r = joined (failed r1) (failed r2)" and w': "os w' = h2"
    using assms(3) p d by (auto simp: upload_abort_def)
  then have "r2 = Inr ()" if "r = None"
    using that by (cases r2) (auto simp: joined_def failed_def split: if_splits)
  moreover have "left_alone l es k h h2 \<and> (r2 = Inr () \<longrightarrow> object_at h2 (hidden_path l es k) = None)"
    using remove_hidden [OF conjunct1 [OF assms(1) [unfolded pending_held]] assms(2) _ _ rm] os_close_same [OF c]
    by (simp add: same_names_def)
  ultimately show ?thesis using w' by simp
qed

text \<open>
  However it is ended: once a write has failed it cannot be published, and whether it has or
  not, an end that does not publish it leaves everything else alone.
\<close>

lemma failed_close:
  assumes "held l es h w u up k" and "placed l es x" and "up_err up = Some e"
    and "upload_close u w = (r, w')"
  shows "r = Some e \<and> left_alone l es k h (os w')"
proof -
  have up: "uploads w u = Some up" using assms(1) by (simp add: held_def)
  obtain r1 h1 where c: "os_close (up_file up) (os w) = (r1, h1)" by (metis surj_pair)
  obtain r2 h2 where rm: "at_entry os_remove (root l) (up_temporary up) h1 = (r2, h2)" by (metis surj_pair)
  have "r = Some e \<and> os w' = h2"
    using assms(1,3,4) up c rm by (auto simp: upload_close_def discard_def on_os_def held_def)
  moreover have "left_alone l es k h h2"
    using remove_hidden [OF assms(1,2) _ _ rm] os_close_same [OF c] by (simp add: same_names_def)
  ultimately show ?thesis by simp
qed

lemma held_end:
  assumes "held l es h w u up k" and "placed l es x" and "wf_host h"
    and "upload_close u w = (Some e, w') \<or> upload_abort u w = (r, w')"
  shows "left_alone l es k h (os w')"
proof (cases "up_err up")
  case None
  then have "pending l es h w u up k (file_contents w (next_inode h))"
    using assms(1) by (simp add: pending_held)
  from pending_close [OF this assms(2,3)] pending_abort [OF this assms(2)] show ?thesis
    using assms(4) by auto
next
  case (Some e')
  from assms(4) show ?thesis
  proof
    assume "upload_close u w = (Some e, w')"
    then show ?thesis using failed_close [OF assms(1,2) Some] by blast
  next
    assume "upload_abort u w = (r, w')"
    then have "w' = w" using assms(1) Some by (simp add: upload_abort_def held_def)
    then show ?thesis using assms(1) by (simp add: left_alone_def held_def)
  qed
qed

section \<open>From the create to the end\<close>

text \<open>
  Writes through a writer, in order, whatever comes of each, and whether all of them succeeded.
\<close>

fun write_each :: "'w writer \<Rightarrow> (bytes \<times> int64) list \<Rightarrow> 'w \<Rightarrow> bool \<times> 'w" where
  "write_each wr [] w = (True, w)"
| "write_each wr ((data, off) # ds) w =
     (case write_at wr data off w of ((_, e), w') \<Rightarrow>
        (case write_each wr ds w' of (ok, w'') \<Rightarrow> (e = None \<and> ok, w'')))"

lemma held_writes:
  assumes "held l es h w u up k" and "write_each (upload_writer u) ds w = (ok, w')"
  shows "\<exists>up'. held l es h w' u up' k \<and> (up_err up' = None \<longleftrightarrow> up_err up = None \<and> ok)"
  using assms
proof (induction ds arbitrary: w up ok)
  case Nil
  then show ?case by auto
next
  case (Cons d ds)
  obtain data off where d: "d = (data, off)" by (cases d)
  obtain n e w1 where w1: "upload_write_at u data off w = ((n, e), w1)" by (metis surj_pair)
  obtain ok1 w2 where w2: "write_each (upload_writer u) ds w1 = (ok1, w2)" by (metis surj_pair)
  have ok: "ok = (e = None \<and> ok1)" "w' = w2"
    using Cons.prems(2) d w1 w2 by (simp_all add: upload_writer_def)
  from held_write [OF Cons.prems(1) w1] obtain up1 where
    up1: "held l es h w1 u up1 k \<and> (up_err up1 = None \<longleftrightarrow> up_err up = None \<and> e = None)" ..
  from Cons.IH [OF conjunct1 [OF up1] w2 [folded ok(2)]] obtain up2 where
    up2: "held l es h w' u up2 k \<and> (up_err up2 = None \<longleftrightarrow> up_err up1 = None \<and> ok1)" ..
  have "up_err up2 = None \<longleftrightarrow> up_err up = None \<and> ok"
    unfolding ok(1) conjunct2 [OF up2] conjunct2 [OF up1] by (rule conj_assoc)
  then show ?case using conjunct1 [OF up2] by (intro exI [of _ up2]) simp
qed

section \<open>Writes that all succeed\<close>

text \<open>Writes through a writer, in order, each of which must succeed.\<close>

fun write_through :: "'w writer \<Rightarrow> (bytes \<times> int64) list \<Rightarrow> 'w \<Rightarrow> 'w option" where
  "write_through wr [] w = Some w"
| "write_through wr ((data, off) # ds) w =
     (case write_at wr data off w of ((_, None), w') \<Rightarrow> write_through wr ds w' | _ \<Rightarrow> None)"

lemma write_through_upload: "write_through (upload_writer u) ds w = write_all u ds w"
  by (induction u ds w rule: write_all.induct) (auto simp: upload_writer_def split: prod.splits option.splits)

lemma os_stat_same: "os_stat p h = (r, h') \<Longrightarrow> same_names h h' \<and> inodes h' = inodes h"
  by (auto simp: os_stat_def os_call_def Let_def same_names_def split: option.splits)

lemma local_create_begins:
  assumes "local_create roots n w = (Inr wr, w1)" and "local_resolve roots n = Inr l" and "placed l es x"
  shows "\<exists>u up k. wr = upload_writer u \<and> begun l es (os w) w1 u up k"
proof -
  obtain r h where stat: "at_root os_stat (root l) (rel l) (os w) = (r, h)" by (metis surj_pair)
  have same: "same_names (os w) h \<and> inodes h = inodes (os w)"
    using stat os_stat_same by (auto simp: at_root_def split: if_splits)
  have "bindE (new_upload l) (\<lambda>u. returnE (upload_writer u)) (w\<lparr>os := h\<rparr>) = (Inr wr, w1)"
    using assms(1,2) stat by (auto simp: local_create_def create_at_def on_os_def split: if_splits sum.splits)
  then obtain u where "new_upload l (w\<lparr>os := h\<rparr>) = (Inr u, w1)" "wr = upload_writer u"
    by (auto simp: bindE_Inr_iff)
  moreover from this new_upload_begins [OF assms(3)] obtain up k where "begun l es h w1 u up k"
    unfolding new_upload_def by fastforce
  ultimately show ?thesis using begun_same same by blast
qed

end
