(* ===== verification/Localfs_Contained.thy ===== *)
theory Localfs_Contained
  imports Localfs Vfs_Facts
begin

text \<open>
  Confinement of the local backend: through any of its operations, and the readers and writers
  they return, whatever calls the host refuses, no name outside the allowed prefixes changes
  and no file that was there before is written to. The invariant is the contract of
  \<open>kept_by_backends\<close>, which the backend is shown to be an instance of.
\<close>

section \<open>What lies within the prefixes\<close>

definition inside :: "string list \<Rightarrow> host_path \<Rightarrow> bool" where
  "inside roots p \<longleftrightarrow> (\<exists>r \<in> set roots. prefix (components r) p)"

definition untouched :: "string list \<Rightarrow> host \<Rightarrow> host \<Rightarrow> bool" where
  "untouched roots h0 h \<longleftrightarrow>
     (\<forall>p. \<not> inside roots p \<longrightarrow> object_at h p = object_at h0 p) \<and>
     (\<forall>i < next_inode h0. inodes h i = inodes h0 i) \<and> next_inode h0 \<le> next_inode h \<and>
     (\<forall>fd i. handles h fd = Some (WriteHandle i) \<longrightarrow> next_inode h0 \<le> i)"

lemma untouched_calls [simp]: "untouched roots h0 (h\<lparr>calls := n\<rparr>) = untouched roots h0 h"
  by (simp add: untouched_def)

lemma keeps_os_call:
  "keeps (untouched roots h0) f \<Longrightarrow> keeps (untouched roots h0) (os_call f)"
  by (auto simp: keeps_def os_call_def Let_def split: option.splits)

lemma keeps_os_stat [keeps_rules]: "keeps (untouched roots h0) (os_stat p)"
  unfolding os_stat_def by (rule keeps_os_call) (auto simp: keeps_def split: option.splits)

lemma untouched_new_handle:
  assumes "untouched roots h0 h" and "\<And>i. d = WriteHandle i \<Longrightarrow> next_inode h0 \<le> i"
  shows "untouched roots h0 (snd (new_handle d h))"
  using assms by (auto simp: untouched_def new_handle_def object_at_def)

lemma keeps_os_open [keeps_rules]: "keeps (untouched roots h0) (os_open p)"
  unfolding os_open_def
proof (rule keeps_os_call, rule keepsI)
  fix h
  assume u: "untouched roots h0 h"
  have "untouched roots h0 (snd (new_handle d h))" if "\<nexists>i. d = WriteHandle i" for d
    using untouched_new_handle [OF u] that by blast
  from this [of "ReadHandle _"] this [of "DirHandle _"] this [of "SpecialHandle _"] u
  show "untouched roots h0 (snd (case object_at h p of
       None \<Rightarrow> (Inl (missing h p), h)
     | Some (RegularAt i) \<Rightarrow> (case new_handle (ReadHandle i) h of (fd, h') \<Rightarrow> (Inr fd, h'))
     | Some (DirectoryOf _ _) \<Rightarrow> (case new_handle (DirHandle p) h of (fd, h') \<Rightarrow> (Inr fd, h'))
     | Some (Special m) \<Rightarrow> (case new_handle (SpecialHandle m) h of (fd, h') \<Rightarrow> (Inr fd, h'))))"
    by (auto split: option.splits object.splits prod.splits) (metis snd_conv handle.distinct)+
qed

lemma keeps_os_create_excl:
  assumes "inside roots p"
  shows "keeps (untouched roots h0) (os_create_excl p mode)"
  unfolding os_create_excl_def
proof (rule keeps_os_call, rule keepsI)
  fix h
  assume u: "untouched roots h0 h"
  then show "untouched roots h0 (snd (
     if object_at h p \<noteq> None then (Inl Exist, h)
     else if \<not> parent_ok h p then (Inl (missing h p), h)
     else (let i = next_inode h;
               h1 = h\<lparr>names := names h @ [(p, RegularAt i)],
                      inodes := (inodes h)(i \<mapsto> \<lparr>contents = [], perm = and mode (not (umask h)),
                                                modified = clock h (calls h)\<rparr>),
                      next_inode := Suc i\<rparr>
           in case new_handle (WriteHandle i) h1 of (fd, h2) \<Rightarrow> (Inr fd, h2))))"
    using assms by (auto simp: untouched_def new_handle_def object_at_def Let_def map_add_def split: option.splits)
qed

lemma keeps_os_mkdir:
  "inside roots p \<Longrightarrow> keeps (untouched roots h0) (os_mkdir p mode)"
  unfolding os_mkdir_def
  by (rule keeps_os_call) (auto simp: keeps_def untouched_def object_at_def map_add_def split: option.splits)

lemma keeps_os_remove:
  "inside roots p \<Longrightarrow> keeps (untouched roots h0) (os_remove p)"
  unfolding os_remove_def
  by (rule keeps_os_call) (auto simp: keeps_def untouched_def object_at_def delete_conv' split: option.splits)

lemma map_of_moved:
  assumes "\<not> prefix p r" and "\<not> prefix q r"
  shows "map_of (map (\<lambda>(k, ob). (moved p q k, ob)) xs) r = map_of xs r"
  using assms by (induction xs) (auto simp: moved_def)

lemma inside_prefix: "inside roots p \<Longrightarrow> prefix p r \<Longrightarrow> inside roots r"
  unfolding inside_def using prefix_order.trans by blast

lemma keeps_os_rename:
  assumes "inside roots p" and "inside roots q"
  shows "keeps (untouched roots h0) (os_rename p q)"
proof -
  have m: "map_of (map (\<lambda>(k, ob). (moved p q k, ob)) (AList.delete q xs)) r = map_of xs r"
    if "\<not> inside roots r" for r and xs :: "(host_path \<times> object) list"
  proof -
    have "\<not> prefix p r" "\<not> prefix q r" using that assms inside_prefix by blast+
    then have "map_of (map (\<lambda>(k, ob). (moved p q k, ob)) (AList.delete q xs)) r = map_of (AList.delete q xs) r"
      by (rule map_of_moved)
    moreover have "r \<noteq> q" using \<open>\<not> prefix q r\<close> by auto
    ultimately show ?thesis by (simp add: delete_conv')
  qed
  show ?thesis
    unfolding os_rename_def
    by (rule keeps_os_call) (auto simp: keeps_def untouched_def object_at_def m Let_def split: option.splits)
qed

lemma keeps_os_fstat [keeps_rules]: "keeps (untouched roots h0) (os_fstat fd)"
  unfolding os_fstat_def by (rule keeps_os_call) (auto simp: keeps_def split: option.splits)

lemma keeps_os_close [keeps_rules]: "keeps (untouched roots h0) (os_close fd)"
  by (auto simp: keeps_def os_close_def untouched_def object_at_def Let_def split: option.splits)

lemma keeps_os_readdir [keeps_rules]: "keeps (untouched roots h0) (os_readdir fd)"
  unfolding os_readdir_def by (rule keeps_os_call) (auto simp: keeps_def split: option.splits handle.splits)

lemma untouched_put_bytes:
  "untouched roots h0 h \<Longrightarrow> next_inode h0 \<le> i \<Longrightarrow> untouched roots h0 (put_bytes i off data h)"
  by (auto simp: untouched_def put_bytes_def object_at_def split: option.splits)

lemma untouched_write_at:
  assumes "untouched roots h0 h"
  shows "untouched roots h0 (snd (os_write_at fd data off h))"
proof -
  have "next_inode h0 \<le> i" if "handles h fd = Some (WriteHandle i)" for i
    using assms that by (simp add: untouched_def)
  then show ?thesis using assms untouched_put_bytes
    by (auto simp: os_write_at_def Let_def split: option.splits handle.splits)
qed

lemma untouched_read_at:
  "untouched roots h0 h \<Longrightarrow> untouched roots h0 (snd (os_read_at fd n off h))"
  by (auto simp: os_read_at_def Let_def split: option.splits)

section \<open>Calls on a root\<close>

lemma keeps_at_root:
  assumes "\<And>p. inside roots p \<Longrightarrow> keeps (untouched roots h0) (call p)" and "name \<in> set roots"
  shows "keeps (untouched roots h0) (at_root call name within)"
proof -
  have "inside roots (components name @ es)" for es
    using assms(2) unfolding inside_def by (metis prefixI)
  then show ?thesis using assms(1) by (simp add: at_root_def keeps_failE)
qed

lemma keeps_at_entry:
  assumes "\<And>p. inside roots p \<Longrightarrow> keeps (untouched roots h0) (call p)" and "name \<in> set roots"
  shows "keeps (untouched roots h0) (at_entry call name within)"
  using keeps_at_root [OF assms] by (simp add: at_entry_def keeps_failE)

lemma keeps_stat_within: "keeps (untouched roots h0) (at_root os_stat name within)"
  by (simp add: at_root_def keeps_rules)

lemma keeps_open_within: "keeps (untouched roots h0) (at_root os_open name within)"
  by (simp add: at_root_def keeps_rules)

lemma keeps_create_within:
  "name \<in> set roots \<Longrightarrow> keeps (untouched roots h0) (at_root (\<lambda>p. os_create_excl p mode) name within)"
  using keeps_os_create_excl by (rule keeps_at_root)

lemma keeps_mkdir_within:
  "name \<in> set roots \<Longrightarrow> keeps (untouched roots h0) (at_root (\<lambda>p. os_mkdir p mode) name within)"
  using keeps_os_mkdir by (rule keeps_at_root)

lemma keeps_remove_within:
  "name \<in> set roots \<Longrightarrow> keeps (untouched roots h0) (at_entry os_remove name within)"
  using keeps_os_remove by (rule keeps_at_entry)

lemma keeps_rename_within:
  assumes "name \<in> set roots"
  shows "keeps (untouched roots h0) (at_entry (\<lambda>p. at_entry (os_rename p) name dest) name within)"
proof (rule keeps_at_entry [OF _ assms])
  fix p
  assume "inside roots p"
  then show "keeps (untouched roots h0) (at_entry (os_rename p) name dest)"
    using keeps_os_rename by (intro keeps_at_entry [OF _ assms])
qed

lemmas keeps_within = keeps_stat_within keeps_open_within
  keeps_create_within keeps_mkdir_within keeps_remove_within keeps_rename_within

section \<open>The backend\<close>

definition confined :: "string list \<Rightarrow> host \<Rightarrow> local_world \<Rightarrow> bool" where
  "confined roots h0 w \<longleftrightarrow>
     untouched roots h0 (os w) \<and> (\<forall>u up. uploads w u = Some up \<longrightarrow> root (up_at up) \<in> set roots)"

lemma confined_os:
  "confined roots h0 w \<Longrightarrow> untouched roots h0 h \<Longrightarrow> confined roots h0 (w\<lparr>os := h\<rparr>)"
  by (simp add: confined_def)

lemma confined_on_os:
  assumes "confined roots h0 w" and "untouched roots h0 (os w) \<Longrightarrow> untouched roots h0 (snd (m (os w)))"
  shows "confined roots h0 (snd (on_os m w))"
  using assms by (auto simp: on_os_def confined_def split: prod.splits)

lemma confined_on_op:
  "confined roots h0 w \<Longrightarrow> keeps (untouched roots h0) m \<Longrightarrow> confined roots h0 (snd (on_os m w))"
  by (rule confined_on_os) (auto simp: keeps_def)

lemma on_os_confined:
  "on_os m w = (r, w') \<Longrightarrow> confined roots h0 w \<Longrightarrow> keeps (untouched roots h0) m \<Longrightarrow> confined roots h0 w'"
  by (metis confined_on_op snd_conv)

lemma keeps_calling [keeps_rules]:
  "keeps (untouched roots h0) m \<Longrightarrow> keeps (confined roots h0) (calling m)"
  by (rule keepsI) (auto simp: calling_def split: prod.splits sum.splits dest: on_os_confined)

lemma local_resolve_root:
  assumes "local_resolve roots n = Inr l"
  shows "root l \<in> set roots"
proof -
  have "root_serving rs p = Some (r, within) \<Longrightarrow> r \<in> set rs" for rs p r within
    by (induction rs) (auto split: option.splits)
  then show ?thesis using assms by (auto simp: local_resolve_def split: option.splits)
qed

lemma local_resolved_within:
  "set served \<subseteq> set roots \<Longrightarrow> local_resolve served n = Inr l \<Longrightarrow> root l \<in> set roots"
  using local_resolve_root by blast

lemma keeps_permit_change [keeps_rules]: "keeps (confined roots h0) (permit_change l)"
  by (auto simp: permit_change_def intro!: keeps_rules keeps_within)

lemma keeps_closing: "keeps (confined roots h0) m \<Longrightarrow> keeps (confined roots h0) (closing fd m)"
  by (rule keepsI)
     (auto simp: closing_def split: prod.splits intro!: confined_on_op keeps_os_close dest: keepsD')

lemma untouched_children:
  "untouched roots h0 h \<Longrightarrow> untouched roots h0 (snd (local_children l es h))"
proof (induction es arbitrary: h)
  case (Cons e es)
  have "untouched roots h0 (snd (local_child_entry l e h))"
    using Cons.prems keepsD [OF keeps_stat_within]
    by (auto simp: local_child_entry_def split: prod.splits sum.splits) (metis snd_conv)+
  then show ?case using Cons.IH by (auto split: prod.splits) (metis snd_conv)+
qed simp

lemma keeps_local_list: "keeps (confined roots h0) (local_list served n)"
proof -
  have "keeps (confined roots h0) (sorted_children l es)" for l es
    by (rule keepsI)
       (auto simp: sorted_children_def split: prod.splits, metis confined_on_os untouched_children snd_conv)
  then show ?thesis
    unfolding local_list_def
    by (intro keeps_bind_lift keeps_if keeps_rules keeps_within keeps_closing)
qed

lemma keeps_close_with: "keeps (confined roots h0) (close_with fd e)"
  by (rule keepsI) (simp add: close_with_def confined_on_op keeps_rules)

lemma keeps_check_opened: "keeps (confined roots h0) (check_opened l fd)"
proof (rule keepsI)
  fix w
  assume "confined roots h0 w"
  moreover obtain r w' where r: "calling (os_fstat fd) w = (r, w')" by (cases "calling (os_fstat fd) w")
  ultimately have "confined roots h0 w'"
    using keepsD' [OF keeps_calling [OF keeps_os_fstat]] by blast
  then show "confined roots h0 (snd (check_opened l fd w))"
    using r by (cases r) (simp_all add: check_opened_def keepsD [OF keeps_close_with])
qed

lemma keeps_local_open: "keeps (confined roots h0) (local_open served n)"
  unfolding local_open_def
  by (intro keeps_bind_lift keeps_if keeps_rules keeps_within keeps_check_opened)

lemma local_reader_keeps: "keeps_reader (confined roots h0) (local_reader fd)"
proof -
  have "confined roots h0 (snd (on_os (os_read_at fd n off) w))" if "confined roots h0 w" for n off w
    using that untouched_read_at by (intro confined_on_os)
  moreover have "keeps (confined roots h0) (read_size (local_reader fd))"
    by (simp add: local_reader_def keeps_rules)
  moreover have "confined roots h0 (snd (on_os (os_close fd) w))" if "confined roots h0 w" for w
    using that by (intro confined_on_op keeps_rules)
  ultimately show ?thesis
    by (auto simp: keeps_reader_def local_reader_def keeps_def split: prod.splits sum.splits) (metis snd_conv)+
qed

lemma check_opened_reader: "check_opened l fd w = (Inr rd, w') \<Longrightarrow> rd = local_reader fd"
  by (cases "calling (os_fstat fd) w") (auto simp: check_opened_def close_with_def split: sum.splits if_splits)

lemma local_open_reader: "local_open roots n w = (Inr rd, w') \<Longrightarrow> \<exists>fd. rd = local_reader fd"
  by (auto simp: local_open_def bindE_Inr_iff split: if_splits dest: check_opened_reader)

section \<open>Uploads\<close>

lemma confined_set_err:
  "confined roots h0 w \<Longrightarrow> root (up_at up) \<in> set roots \<Longrightarrow> confined roots h0 (set_upload_err u up e w)"
  by (simp add: confined_def set_upload_err_def)

lemma confined_upload: "confined roots h0 w \<Longrightarrow> uploads w u = Some up \<Longrightarrow> root (up_at up) \<in> set roots"
  by (simp add: confined_def)

lemma on_os_uploads [simp]: "uploads (snd (on_os m w)) = uploads w"
  by (simp add: on_os_def split: prod.splits)

lemma confined_discard:
  assumes "confined roots h0 w" and "root (up_at up) \<in> set roots"
  shows "confined roots h0 (snd (discard up w))"
  using assms keeps_within(5)
  by (auto simp: discard_def split: prod.splits dest!: on_os_confined intro: keeps_os_close)

lemma confined_write_at:
  assumes "confined roots h0 w"
  shows "confined roots h0 (snd (upload_write_at u data off w))"
proof (cases "uploads w u")
  case None
  then show ?thesis using assms by (simp add: upload_write_at_def)
next
  case (Some up)
  note root = confined_upload [OF assms Some]
  obtain n e w' where w': "on_os (os_write_at (up_file up) data off) w = ((n, e), w')"
    by (metis surj_pair)
  have "confined roots h0 (snd (on_os (os_write_at (up_file up) data off) w))"
    using assms untouched_write_at by (intro confined_on_os)
  then have "confined roots h0 w'" using w' by simp
  then show ?thesis using assms Some w' root confined_set_err
    by (cases e) (auto simp: upload_write_at_def split: option.splits)
qed

lemma confined_give_up:
  "confined roots h0 w \<Longrightarrow> root (up_at up) \<in> set roots \<Longrightarrow> confined roots h0 (snd (give_up up e w))"
  by (simp add: give_up_def confined_on_op keeps_within)

lemma confined_close:
  assumes "confined roots h0 w"
  shows "confined roots h0 (snd (upload_close u w))"
proof (cases "uploads w u")
  case None
  then show ?thesis using assms by (simp add: upload_close_def)
next
  case (Some up)
  note root = confined_upload [OF assms Some]
  show ?thesis
  proof (cases "up_err up")
    case None
    obtain r w1 where w1: "on_os (os_close (up_file up)) (set_upload_err u up ErrFailure w) = (r, w1)"
      by (metis surj_pair)
    have c1: "confined roots h0 w1"
      using on_os_confined [OF w1] confined_set_err [OF assms root] keeps_os_close by blast
    obtain r2 w2 where w2: "on_os (at_entry (\<lambda>p. at_entry (os_rename p) (root (up_at up)) (rel (up_at up)))
        (root (up_at up)) (up_temporary up)) w1 = (r2, w2)"
      by (metis surj_pair)
    have c2: "confined roots h0 w2"
      using on_os_confined [OF w2 c1] keeps_within(6) root by blast
    show ?thesis
      using Some None w1 w2 c1 c2 confined_give_up [OF _ root]
      by (cases r; cases r2) (auto simp: upload_close_def)
  next
    case (Some e)
    then show ?thesis using \<open>uploads w u = Some up\<close> confined_discard [OF assms root]
      by (simp add: upload_close_def)
  qed
qed

lemma confined_abort:
  assumes "confined roots h0 w"
  shows "confined roots h0 (snd (upload_abort u w))"
proof (cases "uploads w u")
  case None
  then show ?thesis using assms by (simp add: upload_abort_def)
next
  case (Some up)
  note root = confined_upload [OF assms Some]
  show ?thesis using Some assms root confined_discard confined_set_err
    by (simp add: upload_abort_def)
qed

lemma upload_writer_keeps: "keeps_writer (confined roots h0) (upload_writer u)"
  by (simp add: keeps_writer_def upload_writer_def confined_write_at confined_close confined_abort)

lemma keeps_new_upload:
  assumes "root l \<in> set roots"
  shows "keeps (confined roots h0) (new_upload_loop n l)"
proof (induction n)
  case 0
  then show ?case by (simp add: keeps_def)
next
  case (Suc n)
  show ?case
  proof (rule keepsI)
    fix w
    assume c: "confined roots h0 w"
    obtain digits w1 where w1: "on_os rand_text w = (digits, w1)" by (metis surj_pair)
    have "confined roots h0 (snd (on_os rand_text w))"
      using c by (intro confined_on_os) (auto simp: rand_text_def)
    then have c1: "confined roots h0 w1" using w1 by simp
    let ?m = "at_root (\<lambda>p. os_create_excl p create_file_mode) (root l)
        (path_join (path_dir (rel l)) (upload_prefix @ digits))"
    obtain r w2 where w2: "on_os ?m w1 = (r, w2)" by (metis surj_pair)
    have c2: "confined roots h0 w2"
      using on_os_confined [OF w2 c1] keeps_within(3) assms by blast
    show "confined roots h0 (snd (new_upload_loop (Suc n) l w))"
      using w1 w2 c2 keepsD [OF Suc.IH] assms
      by (cases r) (auto simp: Let_def, simp add: confined_def)
  qed
qed

lemma keeps_create_at:
  assumes "root l \<in> set roots"
  shows "keeps (confined roots h0) (create_at l)"
proof (rule keepsI)
  fix w
  assume c: "confined roots h0 w"
  have m: "keeps (confined roots h0) (bindE (new_upload l) (\<lambda>u. returnE (upload_writer u)))"
    unfolding new_upload_def using keeps_new_upload [OF assms] by (intro keeps_rules)
  obtain r w' where w': "on_os (at_root os_stat (root l) (rel l)) w = (r, w')" by (metis surj_pair)
  have "confined roots h0 w'" using on_os_confined [OF w' c] keeps_within(1) by blast
  then show "confined roots h0 (snd (create_at l w))"
    using w' keepsD [OF m] by (cases r) (auto simp: create_at_def)
qed

lemma keeps_local_create: "set served \<subseteq> set roots \<Longrightarrow> keeps (confined roots h0) (local_create served n)"
  unfolding local_create_def
  by (intro keeps_bind_lift keeps_if keeps_failE keeps_create_at local_resolved_within)

lemma local_create_writer: "local_create roots n w = (Inr wr, w') \<Longrightarrow> \<exists>u. wr = upload_writer u"
  by (auto simp: local_create_def create_at_def bindE_Inr_iff split: prod.splits sum.splits if_splits)

section \<open>The contract\<close>

lemma keeps_local_mkdir: "set served \<subseteq> set roots \<Longrightarrow> keeps (confined roots h0) (local_mkdir served n)"
  unfolding local_mkdir_def
  by (intro keeps_bind_lift keeps_if keeps_rules keeps_within local_resolved_within)

lemma keeps_local_remove: "set served \<subseteq> set roots \<Longrightarrow> keeps (confined roots h0) (local_remove served n)"
  unfolding local_remove_def
  by (intro keeps_bind_lift keeps_rules keeps_within local_resolved_within)

lemma keeps_rename_to:
  assumes "root l \<in> set roots"
  shows "keeps (confined roots h0) (rename_to l dest)"
proof (rule keepsI)
  fix w
  assume c: "confined roots h0 w"
  obtain r w' where w': "on_os (at_root os_stat (root l) dest) w = (r, w')" by (metis surj_pair)
  have "confined roots h0 w'" using on_os_confined [OF w' c] keeps_within(1) by blast
  then show "confined roots h0 (snd (rename_to l dest w))"
    using w' keepsD [OF keeps_calling [OF keeps_rename_within [OF assms]]]
    by (cases r) (auto simp: rename_to_def)
qed

lemma keeps_local_rename:
  "set served \<subseteq> set roots \<Longrightarrow> keeps (confined roots h0) (local_rename served n from to)"
  unfolding local_rename_def
  by (intro keeps_if keeps_failE, rule keeps_bind_lift)
     (intro keeps_bindE keeps_permit_change keeps_rename_to local_resolved_within)

text \<open>More may be allowed than the backend serves: where others keep files of theirs, say.\<close>

lemma local_backend_keeps_within:
  assumes "set served \<subseteq> set roots"
  shows "backend_keeps (confined roots h0) (local_backend served)"
  unfolding backend_keeps_def local_backend_def
  using assms local_reader_keeps upload_writer_keeps
  by (auto simp: keeps_local_list keeps_local_open keeps_local_create keeps_local_mkdir
      keeps_local_remove keeps_local_rename dest!: local_open_reader local_create_writer)

lemmas local_backend_keeps = local_backend_keeps_within [OF subset_refl]

interpretation local_only: kept_by_backends "\<lparr>fs_root = r, fs_backends = [file_scheme \<mapsto> local_backend roots]\<rparr>"
    "confined roots h0" for r roots h0
  using local_backend_keeps by unfold_locales (auto simp: backend_keeps_def split: if_splits)

end
