(* ===== verification/Localfs_Properties.thy ===== *)
theory Localfs_Properties
  imports Localfs_Upload Localfs_Contained Vfs_Properties
begin

text \<open>
  The properties of the local backend, alone and under the virtual filesystem, and a host they
  are evaluated on: a directory \<open>/srv/a\<close> that is served and a file \<open>/etc/p\<close> that is not.
\<close>

section \<open>A host to evaluate them on\<close>

definition sample_host :: host where
  "sample_host = \<lparr>
     names = [([], DirectoryOf 493 0), ([''srv''], DirectoryOf 493 0), ([''srv'', ''a''], DirectoryOf 493 0),
              ([''srv'', ''a'', ''f''], RegularAt 0), ([''etc''], DirectoryOf 493 0), ([''etc'', ''p''], RegularAt 1)],
     inodes = [0 \<mapsto> \<lparr>contents = ''old'', perm = 420, modified = 0\<rparr>, 1 \<mapsto> \<lparr>contents = ''secret'', perm = 420, modified = 0\<rparr>],
     next_inode = 2, handles = Map.empty, next_handle = 3, positions = (\<lambda>_. 0), calls = 0,
     faults = (\<lambda>_. None), clock = (\<lambda>_. 7), entropy = (\<lambda>_. 5), umask = 18\<rparr>"

definition sample_world :: local_world where
  "sample_world = \<lparr>os = sample_host, uploads = Map.empty, next_upload = 0\<rparr>"

abbreviation sample_roots :: "string list" where "sample_roots \<equiv> [''/srv/a'']"

definition sample_file :: node where
  "sample_file = Entry (no_attrs\<lparr>File := ''f'', Backend := ''file:///srv/a/f''\<rparr>) []"

definition sample_dir :: node where
  "sample_dir = Entry (no_attrs\<lparr>Directory := ''/'', Backend := ''file:///srv/a''\<rparr>) []"

definition sample_at :: location where
  "sample_at = \<lparr>root = ''/srv/a'', rel = ''f'', target = ''/srv/a/f'', mask_bits = 511\<rparr>"

lemma sample_resolves: "local_resolve sample_roots sample_file = Inr sample_at"
  by code_simp

lemma sample_placed: "placed sample_at [] ''f''"
  by code_simp

lemma sample_wf: "wf_host sample_host"
  by (auto simp: wf_host_def sample_host_def object_at_def is_directory_at_def split: if_splits)

text \<open>An upload of two writes, one state after another.\<close>

definition after_stat :: local_world where
  "after_stat = snd (on_os (at_root os_stat ''/srv/a'' ''f'') sample_world)"

definition after_create :: local_world where
  "after_create = snd (new_upload sample_at after_stat)"

definition after_write :: local_world where
  "after_write = snd (upload_write_at 0 ''world'' 6 after_create)"

definition after_writes :: local_world where
  "after_writes = snd (upload_write_at 0 ''hello,'' 0 after_write)"

definition after_close :: local_world where
  "after_close = snd (upload_close 0 after_writes)"

lemma sample_stat: "on_os (at_root os_stat ''/srv/a'' ''f'') sample_world =
    (Inr \<lparr>is_regular = True, is_dir = False, info_size = 3, info_perm = 420, info_mtime = 0\<rparr>, after_stat)"
proof -
  have "fst (on_os (at_root os_stat ''/srv/a'' ''f'') sample_world) =
      Inr \<lparr>is_regular = True, is_dir = False, info_size = 3, info_perm = 420, info_mtime = 0\<rparr>" by code_simp
  then show ?thesis by (simp add: prod_eq_iff after_stat_def)
qed

lemma sample_new_upload: "new_upload sample_at after_stat = (Inr 0, after_create)"
proof -
  have "fst (new_upload sample_at after_stat) = Inr 0" by code_simp
  then show ?thesis by (simp add: prod_eq_iff after_create_def)
qed

lemma sample_create: "local_create sample_roots sample_file sample_world = (Inr (upload_writer 0), after_create)"
proof -
  have "writable 511 \<and> writable (and 420 511)" by code_simp
  then show ?thesis
    using sample_stat sample_new_upload
    by (simp add: local_create_def sample_resolves create_at_def sample_at_def)
qed

lemma sample_writes:
  "write_through (upload_writer 0) [(''world'', 6), (''hello,'', 0)] after_create = Some after_writes"
proof -
  have "fst (upload_write_at 0 ''world'' 6 after_create) = (5, None)" by code_simp
  then have "upload_write_at 0 ''world'' 6 after_create = ((5, None), after_write)"
    by (simp add: prod_eq_iff after_write_def)
  moreover have "fst (upload_write_at 0 ''hello,'' 0 after_write) = (6, None)" by code_simp
  then have "upload_write_at 0 ''hello,'' 0 after_write = ((6, None), after_writes)"
    by (simp add: prod_eq_iff after_writes_def)
  ultimately show ?thesis by (simp add: upload_writer_def)
qed

lemma sample_close: "write_close (upload_writer 0) after_writes = (None, after_close)"
proof -
  have "fst (upload_close 0 after_writes) = None" by code_simp
  then show ?thesis by (simp add: upload_writer_def prod_eq_iff after_close_def)
qed

lemma sample_world_wf: "wf_host (os sample_world)"
  using sample_wf by (simp add: sample_world_def)

section \<open>Uploads\<close>

lemma local_upload_replaces:
  assumes "local_resolve roots n = Inr l" and "placed l es x" and "wf_host (os w)"
    and "local_create roots n w = (Inr wr, w1)" and "write_through wr ds w1 = Some w2"
    and "write_close wr w2 = (None, w3)"
  shows "\<exists>i. object_at (os w3) (dest_path l es x) = Some (RegularAt i) \<and>
             file_contents w3 i = foldl apply_write [] ds \<and>
             (\<forall>q. q \<noteq> dest_path l es x \<longrightarrow> object_at (os w3) q = object_at (os w) q) \<and>
             (\<forall>j < next_inode (os w). inodes (os w3) j = inodes (os w) j)"
proof -
  obtain u up k where u: "wr = upload_writer u" "begun l es (os w) w1 u up k"
    using local_create_begins [OF assms(4,1,2)] by blast
  have "write_all u ds w1 = Some w2" using assms(5) u(1) write_through_upload by simp
  from pending_writes [OF u(2) this] have p: "pending l es (os w) w2 u up k (foldl apply_write [] ds)" .
  have "upload_close u w2 = (None, w3)" using assms(6) u(1) by (simp add: upload_writer_def)
  from pending_close [OF p assms(2,3) this] show ?thesis
    by (intro exI [of _ "next_inode (os w)"]) simp
qed

text \<open>
  C6. An upload whose close succeeds replaces exactly one name, the destination, by a new file
  that holds exactly what the writes put at their offsets, in whatever order they came; every
  other name and every existing file is as it was before the create.
\<close>

theorem local_upload_publishes:
  assumes "local_resolve roots n = Inr l" and "placed l es x" and "wf_host (os w)"
    and "local_create roots n w = (Inr wr, w1)" and "write_through wr ds w1 = Some w2"
    and "write_close wr w2 = (None, w3)"
  shows "\<exists>i. object_at (os w3) (dest_path l es x) = Some (RegularAt i) \<and>
             file_contents w3 i = foldl apply_write [] ds \<and>
             (\<forall>q. q \<noteq> dest_path l es x \<longrightarrow> object_at (os w3) q = object_at (os w) q) \<and>
             (\<forall>j < next_inode (os w). inodes (os w3) j = inodes (os w) j)"
  by (rule local_upload_replaces [OF assms])

theorem local_upload_publishes_witness:
  "\<exists>i. object_at (os after_close) [''srv'', ''a'', ''f''] = Some (RegularAt i) \<and>
       file_contents after_close i = ''hello,world''"
proof -
  have "foldl apply_write [] [(''world'', 6), (''hello,'', 0)] = ''hello,world''" by code_simp
  moreover have "dest_path sample_at [] ''f'' = [''srv'', ''a'', ''f'']" by code_simp
  ultimately show ?thesis
    using local_upload_publishes [OF sample_resolves sample_placed sample_world_wf sample_create
        sample_writes sample_close] by metis
qed

text \<open>
  C7. Whatever writes an upload was sent and whichever of them failed, an upload one of whose
  writes failed cannot be closed with success, and one whose close fails, at any of its steps,
  or that is aborted, leaves every name as it was before the create except its own hidden one,
  which named nothing before, and every existing file untouched.
\<close>

theorem local_upload_all_or_nothing:
  assumes "local_resolve roots n = Inr l" and "placed l es x" and "wf_host (os w)"
    and "local_create roots n w = (Inr wr, w1)" and "write_each wr ds w1 = (ok, w2)"
  shows "(\<not> ok \<longrightarrow> fst (write_close wr w2) \<noteq> None) \<and>
         (\<exists>k. object_at (os w) (hidden_path l es k) = None \<and>
           (\<forall>w3. fst (write_close wr w2) \<noteq> None \<and> w3 = snd (write_close wr w2) \<or>
                 w3 = snd (write_abort wr w2) \<longrightarrow>
              (\<forall>q. q \<noteq> hidden_path l es k \<longrightarrow> object_at (os w3) q = object_at (os w) q) \<and>
              (\<forall>j < next_inode (os w). inodes (os w3) j = inodes (os w) j)))"
proof -
  obtain u up k where u: "wr = upload_writer u" "begun l es (os w) w1 u up k"
    using local_create_begins [OF assms(4,1,2)] by blast
  obtain up' where up: "held l es (os w) w2 u up' k" "up_err up' = None \<longleftrightarrow> ok"
    using held_writes [of l es "os w" w1 u up k ds ok w2] begun_held [OF u(2)] assms(5) u(1) by auto
  have "fst (write_close wr w2) \<noteq> None" if "\<not> ok"
    using failed_close [OF up(1) assms(2)] up(2) that u(1)
    by (cases "up_err up'") (auto simp: upload_writer_def prod_eq_iff)
  moreover have "left_alone l es k (os w) (os w3)"
    if "fst (write_close wr w2) \<noteq> None \<and> w3 = snd (write_close wr w2) \<or> w3 = snd (write_abort wr w2)" for w3
    using held_end [OF up(1) assms(2,3)] that u(1)
    by (cases "upload_close u w2"; cases "upload_abort u w2") (auto simp: upload_writer_def)
  moreover have "object_at (os w) (hidden_path l es k) = None" using u(2) by (simp add: begun_def)
  ultimately show ?thesis unfolding left_alone_def by blast
qed

text \<open>The create on a host whose fourth call, the first write, fails after two bytes.\<close>

definition full_disk :: local_world where
  "full_disk = sample_world\<lparr>os := sample_host\<lparr>faults := [3 \<mapsto> (OtherError, 2)]\<rparr>\<rparr>"

definition full_after_stat :: local_world where
  "full_after_stat = snd (on_os (at_root os_stat ''/srv/a'' ''f'') full_disk)"

definition full_after_create :: local_world where
  "full_after_create = snd (new_upload sample_at full_after_stat)"

definition full_after_write :: local_world where
  "full_after_write = snd (upload_write_at 0 ''hello'' 0 full_after_create)"

lemma full_disk_wf: "wf_host (os full_disk)"
  using sample_wf by (simp add: full_disk_def wf_host_def object_at_def is_directory_at_def)

lemma full_create: "local_create sample_roots sample_file full_disk = (Inr (upload_writer 0), full_after_create)"
proof -
  have "fst (on_os (at_root os_stat ''/srv/a'' ''f'') full_disk) =
      Inr \<lparr>is_regular = True, is_dir = False, info_size = 3, info_perm = 420, info_mtime = 0\<rparr>" by code_simp
  then have s: "on_os (at_root os_stat ''/srv/a'' ''f'') full_disk =
      (Inr \<lparr>is_regular = True, is_dir = False, info_size = 3, info_perm = 420, info_mtime = 0\<rparr>, full_after_stat)"
    by (simp add: prod_eq_iff full_after_stat_def)
  have "fst (new_upload sample_at full_after_stat) = Inr 0" by code_simp
  then have u: "new_upload sample_at full_after_stat = (Inr 0, full_after_create)"
    by (simp add: prod_eq_iff full_after_create_def)
  have "writable 511 \<and> writable (and 420 511)" by code_simp
  then show ?thesis using s u by (simp add: local_create_def sample_resolves create_at_def sample_at_def)
qed

lemma full_write: "write_at (upload_writer 0) ''hello'' 0 full_after_create = ((2, Some ErrFailure), full_after_write)"
proof -
  have "fst (upload_write_at 0 ''hello'' 0 full_after_create) = (2, Some ErrFailure)" by code_simp
  then show ?thesis by (simp add: prod_eq_iff upload_writer_def full_after_write_def)
qed

theorem local_upload_all_or_nothing_witness:
  "fst (upload_close 0 full_after_write) \<noteq> None \<and>
   object_at (os (snd (upload_close 0 full_after_write))) [''srv'', ''a'', ''f''] = Some (RegularAt 0)"
proof -
  have ws: "write_each (upload_writer 0) [(''hello'', 0)] full_after_create = (False, full_after_write)"
    by (simp add: full_write)
  note all = local_upload_all_or_nothing [OF sample_resolves sample_placed full_disk_wf full_create ws]
  have c: "fst (upload_close 0 full_after_write) \<noteq> None" using all by (simp add: upload_writer_def)
  have f: "object_at (os full_disk) [''srv'', ''a'', ''f''] = Some (RegularAt 0)" by code_simp
  obtain k where k: "object_at (os full_disk) (hidden_path sample_at [] k) = None"
      "\<forall>q. q \<noteq> hidden_path sample_at [] k \<longrightarrow>
         object_at (os (snd (upload_close 0 full_after_write))) q = object_at (os full_disk) q"
    using all c by (auto simp: upload_writer_def simp del: not_None_eq)
  then have "[''srv'', ''a'', ''f''] \<noteq> hidden_path sample_at [] k" using f by (metis option.distinct(1))
  then show ?thesis using k(2) c f by simp
qed

text \<open>
  C14. An upload to the local backend one of whose writes failed, be it the first or a later
  one, cannot be aborted: the abort reports success and does nothing, so the hidden file the
  upload was writing is left behind under its name.
\<close>

theorem abort_after_failed_write_leaks:
  assumes "local_resolve roots n = Inr l" and "placed l es x"
    and "local_create roots n w = (Inr wr, w1)" and "write_each wr ds w1 = (False, w2)"
  shows "\<exists>k. object_at (os w) (hidden_path l es k) = None \<and> write_abort wr w2 = (None, w2) \<and>
             object_at (os w2) (hidden_path l es k) \<noteq> None"
proof -
  obtain u up k where u: "wr = upload_writer u" "begun l es (os w) w1 u up k"
    using local_create_begins [OF assms(3,1,2)] by blast
  obtain up' where up: "held l es (os w) w2 u up' k" "up_err up' \<noteq> None"
    using held_writes [of l es "os w" w1 u up k ds False w2] begun_held [OF u(2)] assms(4) u(1) by auto
  have "write_abort wr w2 = (None, w2)"
    using up u(1) by (simp add: upload_writer_def upload_abort_def held_def)
  moreover have "object_at (os w2) (hidden_path l es k) \<noteq> None" using up(1) by (simp add: held_def)
  ultimately show ?thesis using u(2) by (auto simp: begun_def)
qed

text \<open>The fifth call of the host fails: a first write was stored, and the second is not.\<close>

definition filling_disk :: local_world where
  "filling_disk = sample_world\<lparr>os := sample_host\<lparr>faults := [4 \<mapsto> (OtherError, 2)]\<rparr>\<rparr>"

definition filling_after_stat :: local_world where
  "filling_after_stat = snd (on_os (at_root os_stat ''/srv/a'' ''f'') filling_disk)"

definition filling_after_create :: local_world where
  "filling_after_create = snd (new_upload sample_at filling_after_stat)"

definition filling_after_write :: local_world where
  "filling_after_write = snd (upload_write_at 0 ''hello'' 0 filling_after_create)"

theorem abort_after_failed_write_leaks_witness:
  "\<exists>k w2. object_at (os w2) (hidden_path sample_at [] k) \<noteq> None \<and>
     write_abort (upload_writer 0) w2 = (None, w2)"
proof -
  have "fst (on_os (at_root os_stat ''/srv/a'' ''f'') filling_disk) =
      Inr \<lparr>is_regular = True, is_dir = False, info_size = 3, info_perm = 420, info_mtime = 0\<rparr>" by code_simp
  then have s: "on_os (at_root os_stat ''/srv/a'' ''f'') filling_disk =
      (Inr \<lparr>is_regular = True, is_dir = False, info_size = 3, info_perm = 420, info_mtime = 0\<rparr>, filling_after_stat)"
    by (simp add: prod_eq_iff filling_after_stat_def)
  have "fst (new_upload sample_at filling_after_stat) = Inr 0" by code_simp
  then have u: "new_upload sample_at filling_after_stat = (Inr 0, filling_after_create)"
    by (simp add: prod_eq_iff filling_after_create_def)
  have "writable 511 \<and> writable (and 420 511)" by code_simp
  then have c: "local_create sample_roots sample_file filling_disk = (Inr (upload_writer 0), filling_after_create)"
    using s u by (simp add: local_create_def sample_resolves create_at_def sample_at_def)
  have "fst (upload_write_at 0 ''hello'' 0 filling_after_create) = (5, None)" by code_simp
  then have w1: "upload_write_at 0 ''hello'' 0 filling_after_create = ((5, None), filling_after_write)"
    by (simp add: prod_eq_iff filling_after_write_def)
  have "fst (upload_write_at 0 '' world'' 5 filling_after_write) = (2, Some ErrFailure)" by code_simp
  then obtain w2 where w2: "upload_write_at 0 '' world'' 5 filling_after_write = ((2, Some ErrFailure), w2)"
    by (metis prod.collapse)
  have "write_each (upload_writer 0) [(''hello'', 0), ('' world'', 5)] filling_after_create = (False, w2)"
    using w1 w2 by (simp add: upload_writer_def)
  from abort_after_failed_write_leaks [OF sample_resolves sample_placed c this] show ?thesis by blast
qed

section \<open>Listings\<close>

text \<open>
  C8. A listing of a local directory is sorted by name, and every node in it has a valid name
  that is not a hidden upload, permissions no wider than the mask of the directory, and a
  backend URL that resolves, under the same root, to the member of the directory it was made
  for, whatever characters its name has.
\<close>

theorem local_list_leads_back:
  assumes "file_backend_validate roots = None" and "local_list roots n w = (Inr cs, w')"
  shows "sorted (map entry_name cs) \<and>
    (\<exists>l. local_resolve roots n = Inr l \<and>
      (\<forall>c \<in> set cs. valid_name (entry_name c) \<and> \<not> prefix upload_prefix (entry_name c) \<and>
         and (mask c) (mask n) = mask c \<and>
         local_resolve roots c = Inr \<lparr>root = root l, rel = path_join (rel l) (entry_name c),
           target = path_join (target l) (entry_name c), mask_bits = mask c\<rparr>))"
proof -
  obtain l where l: "local_resolve roots n = Inr l" "sorted (map entry_name cs)"
    and cs: "\<And>c. c \<in> set cs \<Longrightarrow> \<exists>name ob info. c = child_of l name ob info \<and> valid_name name \<and>
                                       \<not> prefix upload_prefix name"
    using local_list_children [OF assms(2)] by blast
  have m: "mask_bits l = mask n" using local_resolve_target [OF l(1)] by blast
  have "valid_name (entry_name c) \<and> \<not> prefix upload_prefix (entry_name c) \<and>
         and (mask c) (mask n) = mask c \<and>
         local_resolve roots c = Inr \<lparr>root = root l, rel = path_join (rel l) (entry_name c),
           target = path_join (target l) (entry_name c), mask_bits = mask c\<rparr>" if c: "c \<in> set cs" for c
  proof -
    obtain name ob info where c: "c = child_of l name ob info" "valid_name name" "\<not> prefix upload_prefix name"
      using cs [OF c] by blast
    have ne: "name \<noteq> []" using c(2) by (simp add: valid_name_def)
    note fields = child_of_fields [OF ne, of l ob info]
    have "mask c = and (info_perm info) (mask n)"
      unfolding c(1) using child_of_mask [OF ne mask_subset m] .
    then have "and (mask c) (mask n) = mask c" by (simp add: and.assoc)
    then show ?thesis
      using c fields(1) local_resolve_member [OF assms(1) l(1) c(2), of c] fields(2) by simp
  qed
  then show ?thesis using l by blast
qed

definition after_list :: local_world where "after_list = snd (local_list sample_roots sample_dir sample_world)"

definition listed :: node where
  "listed = Entry (no_attrs\<lparr>File := ''f'', Backend := ''file:///srv/a/f'', Size := 3, Mtime := Some 0,
     Permissions := Some 420\<rparr>) []"

lemma sample_list: "local_list sample_roots sample_dir sample_world = (Inr [listed], after_list)"
proof -
  have "fst (local_list sample_roots sample_dir sample_world) = Inr [listed]" by code_simp
  then show ?thesis by (simp add: prod_eq_iff after_list_def)
qed

theorem local_list_leads_back_witness:
  "\<exists>l. local_resolve sample_roots sample_dir = Inr l \<and> path_join (rel l) ''f'' = ''f'' \<and>
       local_resolve sample_roots listed =
         Inr \<lparr>root = root l, rel = path_join (rel l) ''f'', target = path_join (target l) ''f'', mask_bits = 420\<rparr>"
proof -
  have v: "file_backend_validate sample_roots = None" by code_simp
  have d: "local_resolve sample_roots sample_dir =
      Inr \<lparr>root = ''/srv/a'', rel = ''.'', target = ''/srv/a'', mask_bits = 511\<rparr>" by code_simp
  have f: "entry_name listed = ''f'' \<and> mask listed = 420 \<and> path_join ''.'' ''f'' = ''f''" by code_simp
  from local_list_leads_back [OF v sample_list] show ?thesis using d f by auto
qed

section \<open>Confinement\<close>

definition local_fs :: "root_fs \<Rightarrow> string list \<Rightarrow> local_world fs" where
  "local_fs r roots = \<lparr>fs_root = r, fs_backends = [file_scheme \<mapsto> local_backend roots]\<rparr>"

lemma local_fs_backend: "fs_backends (local_fs r roots) = [file_scheme \<mapsto> local_backend roots]"
  by (simp add: local_fs_def)

lemma local_fs_kept: "kept_by_backends (local_fs r roots) (confined roots h0)"
  using local_backend_keeps by unfold_locales (auto simp: local_fs_backend backend_keeps_def split: if_splits)

text \<open>A world in which nothing is being uploaded is confined to begin with.\<close>

definition idle :: "local_world \<Rightarrow> bool" where
  "idle w \<longleftrightarrow> uploads w = Map.empty \<and> (\<forall>fd i. handles (os w) fd \<noteq> Some (WriteHandle i))"

lemma idle_confined: "idle w \<Longrightarrow> confined roots (os w) w"
  by (simp add: idle_def confined_def untouched_def)

lemma confined_outside:
  "confined roots h w \<Longrightarrow> \<forall>r \<in> set roots. \<not> prefix (components r) p \<Longrightarrow> object_at (os w) p = object_at h p"
  by (simp add: confined_def untouched_def inside_def)

lemma confined_inodes: "confined roots h w \<Longrightarrow> i < next_inode h \<Longrightarrow> inodes (os w) i = inodes h i"
  by (simp add: confined_def untouched_def)

lemma sample_idle: "idle sample_world"
  by (simp add: idle_def sample_world_def sample_host_def)

text \<open>
  C5. Whatever a client does through a virtual filesystem served by the local backend, and
  whichever calls the host refuses on the way, no name outside the allowed prefixes changes,
  and no file that was there before, inside or outside, is ever written to in place.
\<close>

theorem local_clients_confined:
  assumes "client_steps (local_fs r roots) c d" and "readers c = {}" and "writers c = {}"
    and "uploads (world (state c)) = Map.empty"
    and "\<forall>fd i. handles (os (world (state c))) fd \<noteq> Some (WriteHandle i)"
  shows "(\<forall>p. (\<forall>r \<in> set roots. \<not> prefix (components r) p) \<longrightarrow>
            object_at (os (world (state d))) p = object_at (os (world (state c))) p) \<and>
         (\<forall>i < next_inode (os (world (state c))).
            inodes (os (world (state d))) i = inodes (os (world (state c))) i)"
proof -
  let ?h0 = "os (world (state c))"
  have k: "registered_keep (local_fs r roots) (confined roots ?h0)"
    by (simp add: registered_keep_def local_fs_backend local_backend_keeps)
  have "confined roots ?h0 (world (state c))"
    using assms(4,5) by (simp add: confined_def untouched_def)
  with clients_keep_backend_invariant [OF k assms(1)] assms(2,3)
  have "confined roots ?h0 (world (state d))" by blast
  then show ?thesis by (simp add: confined_def untouched_def inside_def)
qed

definition sample_root :: root_fs where
  "sample_root = \<lparr>RootBackend = ''file:///srv/a'', RootAllowedMethods = [], RootPermissions = None,
     RootS3 = None, RootChildren = [], RootMaxUploadSize = 0\<rparr>"

definition sample_client :: "local_world client" where
  "sample_client = \<lparr>state = \<lparr>resolved = Map.empty, world = sample_world\<rparr>, readers = {}, writers = {}\<rparr>"

theorem local_clients_confined_witness:
  "object_at (os (world (snd (fs_remove (local_fs sample_root sample_roots) ''/f'' (state sample_client)))))
     [''etc'', ''p''] = Some (RegularAt 1)"
proof -
  let ?d = "sample_client\<lparr>state := snd (fs_remove (local_fs sample_root sample_roots) ''/f'' (state sample_client))\<rparr>"
  have steps: "client_steps (local_fs sample_root sample_roots) sample_client ?d"
    by (rule client_steps.more [OF client_steps.none client_step.remove])
  have none: "uploads (world (state sample_client)) = Map.empty"
    "\<forall>fd i. handles (os (world (state sample_client))) fd \<noteq> Some (WriteHandle i)"
    "readers sample_client = {}" "writers sample_client = {}"
    by (simp_all add: sample_client_def sample_world_def sample_host_def)
  have p: "\<forall>r \<in> set sample_roots. \<not> prefix (components r) [''etc'', ''p'']" by code_simp
  have o: "object_at (os (world (state sample_client))) [''etc'', ''p''] = Some (RegularAt 1)" by code_simp
  show ?thesis
    using local_clients_confined [OF steps none(3,4,1,2)] p o by simp
qed

section \<open>An upload through the filesystem\<close>

text \<open>\<open>hello\<close> written over \<open>/f\<close> of the sample host, one state after another.\<close>

definition up_at :: location where
  "up_at = \<lparr>root = ''/srv/a'', rel = ''f'', target = ''/srv/a/f'', mask_bits = 420\<rparr>"

definition up_resolved :: "local_world fs_state" where
  "up_resolved = snd (node_to_create (local_fs sample_root sample_roots) [''f''] (state sample_client))"

definition up_stat :: local_world where
  "up_stat = snd (on_os (at_root os_stat ''/srv/a'' ''f'') (world up_resolved))"

definition up_created :: local_world where "up_created = snd (new_upload up_at up_stat)"
definition up_written :: local_world where "up_written = snd (upload_write_at 0 ''hello'' 0 up_created)"
definition up_closed :: local_world where "up_closed = snd (upload_close 0 up_written)"

lemma up_node: "node_to_create (local_fs sample_root sample_roots) [''f''] (state sample_client) = (Inr listed, up_resolved)"
proof -
  have "fst (node_to_create (local_fs sample_root sample_roots) [''f''] (state sample_client)) = Inr listed"
    by code_simp
  then show ?thesis by (simp add: prod_eq_iff up_resolved_def)
qed

lemma up_located: "local_resolve sample_roots listed = Inr up_at" by code_simp

lemma up_local_create: "local_create sample_roots listed (world up_resolved) = (Inr (upload_writer 0), up_created)"
proof -
  have "fst (on_os (at_root os_stat ''/srv/a'' ''f'') (world up_resolved)) =
      Inr \<lparr>is_regular = True, is_dir = False, info_size = 3, info_perm = 420, info_mtime = 0\<rparr>" by code_simp
  then have s: "on_os (at_root os_stat ''/srv/a'' ''f'') (world up_resolved) =
      (Inr \<lparr>is_regular = True, is_dir = False, info_size = 3, info_perm = 420, info_mtime = 0\<rparr>, up_stat)"
    by (simp add: prod_eq_iff up_stat_def)
  have "fst (new_upload up_at up_stat) = Inr 0" by code_simp
  then have u: "new_upload up_at up_stat = (Inr 0, up_created)" by (simp add: prod_eq_iff up_created_def)
  have "writable 420 \<and> writable (and 420 420)" by code_simp
  then show ?thesis using s u by (simp add: local_create_def up_located create_at_def up_at_def)
qed

lemma up_write: "write_at (upload_writer 0) ''hello'' 0 up_created = ((5, None), up_written)"
proof -
  have "fst (upload_write_at 0 ''hello'' 0 up_created) = (5, None)" by code_simp
  then show ?thesis by (simp add: prod_eq_iff up_written_def upload_writer_def)
qed

lemma up_close: "write_close (upload_writer 0) up_written = (None, up_closed)"
proof -
  have "fst (upload_close 0 up_written) = None" by code_simp
  then show ?thesis by (simp add: prod_eq_iff up_closed_def upload_writer_def)
qed

lemma up_create: "fs_create (local_fs sample_root sample_roots) ''/f'' (state sample_client) =
    (Inr (upload_writer 0), up_resolved\<lparr>world := up_created\<rparr>)"
proof -
  have p: "split_path ''/f'' = Some [''f'']" by code_simp
  have b: "url_parse (entry_backend listed) \<noteq> None \<and> entry_backend listed \<noteq> [] \<and>
     map_option u_scheme (url_parse (entry_backend listed)) = Some file_scheme \<and> MaxUploadSize (attrs_of listed) = 0" by code_simp
  then have "backend_for (local_fs sample_root sample_roots) listed = Inr (local_backend sample_roots)"
    by (auto simp: backend_for_def local_fs_def split: option.splits) (simp_all add: file_scheme_def)
  then show ?thesis using b up_node up_local_create
    by (simp add: fs_create_def p bindE_app on_world_def local_backend_def)
qed

text \<open>A name that listings hide is resolved like any other when it is asked for.\<close>

lemma hidden_name_can_be_asked_for:
  "\<exists>c l. local_child sample_roots sample_dir (upload_prefix @ ''x'') = Inr c \<and>
     local_resolve sample_roots c = Inr l \<and> rel l = upload_prefix @ ''x''"
proof -
  let ?n = "upload_prefix @ ''x''"
  have "case local_child sample_roots sample_dir ?n of Inl _ \<Rightarrow> False | Inr c \<Rightarrow>
      (case local_resolve sample_roots c of Inl _ \<Rightarrow> False | Inr l \<Rightarrow> rel l = ?n)" by code_simp
  then show ?thesis by (auto split: sum.splits)
qed

end
