(* ===== verification/Go_Runes.thy ===== *)
theory Go_Runes
  imports Go_Url
begin

text \<open>
  Runes and numbers as Go writes them. A conversion of a string to runes decodes UTF-8 and
  puts U+FFFD for every byte that starts no character; writing a rune encodes it. \<open>ParseInt\<close>
  and the verbs \<open>%d\<close> and \<open>%04o\<close> of \<open>fmt\<close> are here too. The lemmas show that what was
  written is read back.
\<close>

section \<open>UTF-8\<close>

type_synonym rune = nat

definition rune_error :: rune where "rune_error = 65533"

definition continuation :: "char \<Rightarrow> bool" where
  "continuation c \<longleftrightarrow> 128 \<le> ord c \<and> ord c \<le> 191"

text \<open>
  What may follow a first byte: the range that keeps a character from being written longer
  than it needs, from being a surrogate and from exceeding U+10FFFF.
\<close>

definition second_of_three :: "nat \<Rightarrow> char \<Rightarrow> bool" where
  "second_of_three first c \<longleftrightarrow> continuation c \<and> (first = 224 \<longrightarrow> 160 \<le> ord c) \<and> (first = 237 \<longrightarrow> ord c \<le> 159)"

definition second_of_four :: "nat \<Rightarrow> char \<Rightarrow> bool" where
  "second_of_four first c \<longleftrightarrow> continuation c \<and> (first = 240 \<longrightarrow> 144 \<le> ord c) \<and> (first = 244 \<longrightarrow> ord c \<le> 143)"

fun decode_rune :: "string \<Rightarrow> rune \<times> string" where
  "decode_rune [] = (rune_error, [])"
| "decode_rune (a # s) =
     (if ord a < 128 then (ord a, s)
      else if 194 \<le> ord a \<and> ord a \<le> 223 then
        (case s of
           b # t \<Rightarrow> if continuation b then ((ord a - 192) * 64 + (ord b - 128), t) else (rune_error, s)
         | [] \<Rightarrow> (rune_error, s))
      else if 224 \<le> ord a \<and> ord a \<le> 239 then
        (case s of
           b # c # t \<Rightarrow>
             if second_of_three (ord a) b \<and> continuation c
             then ((ord a - 224) * 4096 + (ord b - 128) * 64 + (ord c - 128), t) else (rune_error, s)
         | _ \<Rightarrow> (rune_error, s))
      else if 240 \<le> ord a \<and> ord a \<le> 244 then
        (case s of
           b # c # d # t \<Rightarrow>
             if second_of_four (ord a) b \<and> continuation c \<and> continuation d
             then ((ord a - 240) * 262144 + (ord b - 128) * 4096 + (ord c - 128) * 64 + (ord d - 128), t)
             else (rune_error, s)
         | _ \<Rightarrow> (rune_error, s))
      else (rune_error, s))"

lemma decode_rune_shorter: "length (snd (decode_rune (a # s))) \<le> length s"
  by (auto split: list.splits)

text \<open>\<open>[]rune(s)\<close>.\<close>

function runes_of :: "string \<Rightarrow> rune list" where
  "runes_of [] = []"
| "runes_of (a # s) = (case decode_rune (a # s) of (r, t) \<Rightarrow> r # runes_of t)"
  by pat_completeness auto
termination
proof (relation "measure length")
  fix a s r t
  assume "(r, t) = decode_rune (a # s)"
  then have "t = snd (decode_rune (a # s))" by (metis snd_conv)
  then show "(t, a # s) \<in> measure length"
    using decode_rune_shorter [of a s] by simp
qed simp

definition valid_rune :: "rune \<Rightarrow> bool" where
  "valid_rune r \<longleftrightarrow> r < 55296 \<or> 57344 \<le> r \<and> r \<le> 1114111"

text \<open>\<open>strings.Builder.WriteRune\<close>.\<close>

definition encode_rune :: "rune \<Rightarrow> string" where
  "encode_rune rune =
     (let r = (if valid_rune rune then rune else rune_error) in
      if r < 128 then [char_of r]
      else if r < 2048 then [char_of (192 + r div 64), char_of (128 + r mod 64)]
      else if r < 65536 then
        [char_of (224 + r div 4096), char_of (128 + r div 64 mod 64), char_of (128 + r mod 64)]
      else [char_of (240 + r div 262144), char_of (128 + r div 4096 mod 64),
            char_of (128 + r div 64 mod 64), char_of (128 + r mod 64)])"

definition runes_string :: "rune list \<Rightarrow> string" where
  "runes_string rs = concat (map encode_rune rs)"

definition utf8 :: "string \<Rightarrow> bool" where
  "utf8 s \<longleftrightarrow> runes_string (runes_of s) = s"

lemma mod_64_le: "(n :: nat) mod 64 \<le> 63"
  using mod_less_divisor [of 64 n] by linarith

lemma base64_two: "(r :: nat) div 4096 * 4096 + r div 64 mod 64 * 64 + r mod 64 = r"
proof -
  have "r div 4096 = r div 64 div 64" by (simp flip: div_mult2_eq)
  then have "r div 4096 * 64 + r div 64 mod 64 = r div 64" by simp
  then have "r div 4096 * 4096 + r div 64 mod 64 * 64 = r div 64 * 64" by linarith
  then show ?thesis by simp
qed

lemma base64_three:
  "(r :: nat) div 262144 * 262144 + r div 4096 mod 64 * 4096 + r div 64 mod 64 * 64 + r mod 64 = r"
proof -
  have "r div 262144 = r div 4096 div 64" by (simp flip: div_mult2_eq)
  then have "r div 262144 * 64 + r div 4096 mod 64 = r div 4096" by simp
  then have "r div 262144 * 262144 + r div 4096 mod 64 * 4096 = r div 4096 * 4096" by linarith
  then show ?thesis using base64_two [of r] by simp
qed

lemma decode_four:
  assumes "x < 5" and "y \<le> 63" and "z \<le> 63" and "u \<le> 63" and "x = 0 \<Longrightarrow> 16 \<le> y" and "x = 4 \<Longrightarrow> y \<le> 15"
  shows "decode_rune ([char_of (240 + x), char_of (128 + y), char_of (128 + z), char_of (128 + u)] @ s) =
           (x * 262144 + y * 4096 + z * 64 + u, s)"
proof -
  have "ord (char_of (240 + x)) = 240 + x" "ord (char_of (128 + y)) = 128 + y"
      "ord (char_of (128 + z)) = 128 + z" "ord (char_of (128 + u)) = 128 + u"
    using assms(1-4) by (simp_all del: of_char_of)
  then show ?thesis using assms by (simp add: continuation_def second_of_four_def del: of_char_of)
qed

lemma decode_encode:
  assumes "valid_rune r"
  shows "decode_rune (encode_rune r @ s) = (r, s)"
proof -
  consider "r < 128" | "128 \<le> r" "r < 2048" | "2048 \<le> r" "r < 65536" | "65536 \<le> r" "r \<le> 1114111"
    using assms unfolding valid_rune_def by linarith
  then show ?thesis
  proof cases
    case 1
    then show ?thesis using assms by (simp add: encode_rune_def)
  next
    case 2
    then have "r div 64 < 32" "2 \<le> r div 64" by auto
    then show ?thesis using 2 assms by (simp add: encode_rune_def continuation_def)
  next
    case 3
    have b: "r div 4096 < 16" "r div 64 mod 64 < 64" "r mod 64 < 64" using 3 by auto
    have e: "r div 4096 * 4096 + r div 64 mod 64 * 64 + r mod 64 = r"
      by (rule base64_two)
    have f: "r div 4096 * 64 + r div 64 mod 64 = r div 64"
      using div_mult_mod_eq [of "r div 64" 64] by (simp flip: div_mult2_eq)
    have "r div 64 < 864 \<or> 896 \<le> r div 64" "32 \<le> r div 64" using 3 assms unfolding valid_rune_def by auto
    then have "r div 4096 = 0 \<Longrightarrow> 32 \<le> r div 64 mod 64" "r div 4096 = 13 \<Longrightarrow> r div 64 mod 64 \<le> 31"
      using f b by linarith+
    moreover have enc: "encode_rune r = [char_of (224 + r div 4096), char_of (128 + r div 64 mod 64), char_of (128 + r mod 64)]"
      using 3 assms by (simp add: encode_rune_def)
    ultimately show ?thesis using b(1) e
      by (simp add: enc continuation_def mod_64_le second_of_three_def)
  next
    case 4
    have b: "r div 262144 < 5" "r div 4096 mod 64 < 64" "r div 64 mod 64 < 64" "r mod 64 < 64" using 4 by auto
    have e: "r div 262144 * 262144 + r div 4096 mod 64 * 4096 + r div 64 mod 64 * 64 + r mod 64 = r"
      by (rule base64_three)
    have f: "r div 262144 * 64 + r div 4096 mod 64 = r div 4096"
      using div_mult_mod_eq [of "r div 4096" 64] by (simp flip: div_mult2_eq)
    have "16 \<le> r div 4096" "r div 4096 \<le> 271" using 4 by auto
    then have "r div 262144 = 0 \<Longrightarrow> 16 \<le> r div 4096 mod 64" "r div 262144 = 4 \<Longrightarrow> r div 4096 mod 64 \<le> 15"
      using f by linarith+
    moreover have "encode_rune r = [char_of (240 + r div 262144), char_of (128 + r div 4096 mod 64),
        char_of (128 + r div 64 mod 64), char_of (128 + r mod 64)]"
      using 4 assms by (simp add: encode_rune_def)
    ultimately show ?thesis
      using decode_four [of "r div 262144" "r div 4096 mod 64" "r div 64 mod 64" "r mod 64" s] b(1) e
      by (simp only: mod_64_le)
  qed
qed


lemma encode_rune_not_Nil: "encode_rune r \<noteq> []"
  by (simp add: encode_rune_def Let_def)

lemma runes_of_encode:
  assumes "valid_rune r"
  shows "runes_of (encode_rune r @ s) = r # runes_of s"
proof -
  obtain a t where a: "encode_rune r @ s = a # t"
    using encode_rune_not_Nil [of r] by (cases "encode_rune r") auto
  then show ?thesis using decode_encode [OF assms, of s] by simp
qed

lemma runes_of_runes_string:
  "\<forall>r \<in> set rs. valid_rune r \<Longrightarrow> runes_of (runes_string rs @ s) = rs @ runes_of s"
proof (induction rs)
  case Nil
  then show ?case by (simp add: runes_string_def)
next
  case (Cons r rs)
  then show ?case using runes_of_encode [of r] by (simp add: runes_string_def)
qed

lemma three_bytes_valid:
  assumes "a \<le> 15" and "b < 64" and "c < 64" and "a = 13 \<Longrightarrow> b \<le> 31"
  shows "valid_rune (a * 4096 + b * 64 + c)"
proof -
  consider "a \<le> 12" | "a = 13" | "14 \<le> a" by linarith
  then show ?thesis unfolding valid_rune_def using assms by cases linarith+
qed

lemma four_bytes_valid:
  assumes "a \<le> 4" and "b < 64" and "c < 64" and "d < 64" and "a = 0 \<Longrightarrow> 16 \<le> b" and "a = 4 \<Longrightarrow> b \<le> 15"
  shows "valid_rune (a * 262144 + b * 4096 + c * 64 + d)"
proof -
  consider "a = 0" | "1 \<le> a" "a \<le> 3" | "a = 4" using assms(1) by linarith
  then show ?thesis unfolding valid_rune_def using assms by cases linarith+
qed

lemma continuation_bits: "continuation c \<Longrightarrow> ord c - 128 < 64"
  unfolding continuation_def by linarith

lemma second_of_three_bits:
  "second_of_three x b \<Longrightarrow> 224 \<le> x \<Longrightarrow> ord b - 128 < 64 \<and> (x - 224 = 13 \<longrightarrow> ord b - 128 \<le> 31)"
  unfolding second_of_three_def continuation_def by linarith

lemma second_of_four_bits:
  "second_of_four x b \<Longrightarrow> 240 \<le> x \<Longrightarrow>
     ord b - 128 < 64 \<and> (x - 240 = 0 \<longrightarrow> 16 \<le> ord b - 128) \<and> (x - 240 = 4 \<longrightarrow> ord b - 128 \<le> 15)"
  unfolding second_of_four_def continuation_def by linarith

lemma rune_error_valid [simp]: "valid_rune rune_error"
  by (simp add: valid_rune_def rune_error_def)

lemma decode_rune_valid: "valid_rune (fst (decode_rune s))"
proof (cases s)
  case (Cons a t)
  consider "ord a < 128" | "194 \<le> ord a" "ord a \<le> 223" | "224 \<le> ord a" "ord a \<le> 239"
    | "240 \<le> ord a" "ord a \<le> 244" | "128 \<le> ord a" "ord a < 194 \<or> 244 < ord a" by linarith
  then have "valid_rune (fst (decode_rune (a # t)))"
  proof cases
    case 1
    then show ?thesis by (simp add: valid_rune_def)
  next
    case 2
    have "valid_rune ((ord a - 192) * 64 + (ord b - 128))" if "continuation b" for b
      unfolding valid_rune_def using 2 continuation_bits [OF that] by linarith
    then show ?thesis using 2 by (simp split: list.split)
  next
    case 3
    have "valid_rune ((ord a - 224) * 4096 + (ord b - 128) * 64 + (ord c - 128))"
      if "second_of_three (ord a) b" "continuation c" for b c
      using 3 second_of_three_bits [OF that(1)] continuation_bits [OF that(2)]
      by (intro three_bytes_valid) simp_all
    then show ?thesis using 3 by (simp split: list.split)
  next
    case 4
    have "valid_rune ((ord a - 240) * 262144 + (ord b - 128) * 4096 + (ord c - 128) * 64 + (ord d - 128))"
      if "second_of_four (ord a) b" "continuation c" "continuation d" for b c d
      using 4 second_of_four_bits [OF that(1)] continuation_bits [OF that(2)] continuation_bits [OF that(3)]
      by (intro four_bytes_valid) simp_all
    then show ?thesis using 4 by (simp split: list.split)
  next
    case 5
    then show ?thesis by auto
  qed
  then show ?thesis by (simp only: Cons)
qed simp

lemma runes_of_valid: "r \<in> set (runes_of s) \<Longrightarrow> valid_rune r"
proof (induction s rule: runes_of.induct)
  case (2 a s)
  obtain x t where d: "decode_rune (a # s) = (x, t)" by (metis surj_pair)
  have "valid_rune x" using decode_rune_valid [of "a # s"] d by simp
  then show ?case using 2 d by auto
qed simp

lemma runes_of_append:
  assumes "utf8 s"
  shows "runes_of (s @ t) = runes_of s @ runes_of t"
  using runes_of_runes_string [of "runes_of s" t] runes_of_valid assms unfolding utf8_def by metis

lemma runes_string_append [simp]: "runes_string (rs @ qs) = runes_string rs @ runes_string qs"
  by (simp add: runes_string_def)

lemma runes_string_Nil [simp]: "runes_string [] = []"
  by (simp add: runes_string_def)

lemma runes_string_Cons: "runes_string (r # rs) = encode_rune r @ runes_string rs"
  by (simp add: runes_string_def)

lemma runes_of_ascii: "ord a < 128 \<Longrightarrow> runes_of (a # s) = ord a # runes_of s"
  by simp

lemma encode_rune_ascii: "r < 128 \<Longrightarrow> encode_rune r = [char_of r]"
  by (simp add: encode_rune_def valid_rune_def)

lemma ascii_utf8: "\<forall>c \<in> set s. ord c < 128 \<Longrightarrow> utf8 s"
proof (induction s)
  case (Cons a s)
  then show ?case by (simp add: utf8_def runes_string_Cons encode_rune_ascii)
qed (simp add: utf8_def)

text \<open>A byte below 128 in an encoding is the whole of it.\<close>

lemma encode_rune_bytes:
  assumes "c \<in> set (encode_rune r)" and "ord c < 128"
  shows "encode_rune r = [c] \<and> r = ord c"
  using assms
  by (auto simp: encode_rune_def Let_def rune_error_def valid_rune_def split: if_splits)

section \<open>Numbers\<close>

text \<open>\<open>strconv.ParseInt(s, 10, 64)\<close>: a sign may come first, and the value has to fit.\<close>

definition parse_digits :: "string \<Rightarrow> int option" where
  "parse_digits s = (if s = [] \<or> \<not> list_all is_digit s then None
     else Some (foldl (\<lambda>n c. n * 10 + (int (ord c) - 48)) 0 s))"

definition in_int64 :: "int \<Rightarrow> bool" where
  "in_int64 i \<longleftrightarrow> -9223372036854775808 \<le> i \<and> i < 9223372036854775808"

definition parse_int :: "string \<Rightarrow> int option" where
  "parse_int s =
     (let negative = prefix ''-'' s;
          digits = (if negative \<or> prefix ''+'' s then drop 1 s else s)
      in case parse_digits digits of
           None \<Rightarrow> None
         | Some n \<Rightarrow> (let value = (if negative then - n else n) in
             if in_int64 value then Some value else None))"

text \<open>The digits of a number in a base of at most ten, and \<open>%d\<close> and \<open>%04o\<close>.\<close>

function digits_in :: "int \<Rightarrow> int \<Rightarrow> string" where
  "digits_in b n = (if b \<le> 1 \<or> n < b then [char_of (48 + nat n)]
     else digits_in b (n div b) @ [char_of (48 + nat (n mod b))])"
  by pat_completeness auto
termination
proof (relation "measure (\<lambda>(b, n). nat n)")
  fix b n :: int
  assume "\<not> (b \<le> 1 \<or> n < b)"
  then have "n div b < n" and "0 < n" by (simp_all add: int_div_less_self)
  then show "((b, n div b), (b, n)) \<in> measure (\<lambda>(b, n). nat n)" by simp
qed simp

declare digits_in.simps [simp del]

definition show_int :: "int \<Rightarrow> string" where
  "show_int i = (if i < 0 then ''-'' @ digits_in 10 (- i) else digits_in 10 i)"

definition show_octal4 :: "uint32 \<Rightarrow> string" where
  "show_octal4 m = (let s = digits_in 8 (uint m) in replicate (4 - length s) (CHR ''0'') @ s)"

lemma parse_digits_digits_in:
  "0 \<le> n \<Longrightarrow> parse_digits (digits_in 10 n) = Some n"
proof (induction "10 :: int" n rule: digits_in.induct)
  case (1 n)
  show ?case
  proof (cases "n < 10")
    case True
    then have d: "digits_in 10 n = [char_of (48 + nat n)]" by (subst digits_in.simps) simp
    have "48 + nat n < 256" using True by linarith
    then show ?thesis using True 1 by (simp add: d parse_digits_def is_digit_def)
  next
    case False
    have d: "digits_in 10 n = digits_in 10 (n div 10) @ [char_of (48 + nat (n mod 10))]"
      using False by (subst digits_in.simps) simp
    have s: "48 + nat (n mod 10) < 256" "nat (n mod 10) \<le> 9" by linarith+
    have "parse_digits (digits_in 10 (n div 10)) = Some (n div 10)"
      using 1 False by simp
    then show ?thesis using s False
      by (auto simp: d parse_digits_def is_digit_def split: if_splits)
  qed
qed

lemma digits_in_digits:
  "0 \<le> n \<Longrightarrow> 2 \<le> b \<Longrightarrow> b \<le> 10 \<Longrightarrow> digits_in b n \<noteq> [] \<and> list_all is_digit (digits_in b n)"
proof (induction b n rule: digits_in.induct)
  case (1 b n)
  show ?case
  proof (cases "n < b")
    case True
    then show ?thesis using 1 by (subst (1 2) digits_in.simps) (simp add: is_digit_def)
  next
    case False
    have s: "nat (n mod b) \<le> 9" "\<not> b \<le> 1" using 1 pos_mod_bound [of b n] by linarith+
    have "list_all is_digit (digits_in b (n div b))" using 1 False by (simp add: pos_imp_zdiv_nonneg_iff)
    then show ?thesis using s False 1(4) by (subst (1 2) digits_in.simps) (auto simp: is_digit_def)
  qed
qed

lemma show_int_first: "0 \<le> n \<Longrightarrow> \<not> prefix ''-'' (digits_in 10 n) \<and> \<not> prefix ''+'' (digits_in 10 n)"
  using digits_in_digits [of n 10] by (cases "digits_in 10 n") (auto simp: is_digit_def)

lemma parse_show_int:
  assumes "in_int64 i"
  shows "parse_int (show_int i) = Some i"
proof (cases "i < 0")
  case True
  then show ?thesis using assms parse_digits_digits_in [of "- i"]
    by (simp add: parse_int_def show_int_def)
next
  case False
  then show ?thesis using assms parse_digits_digits_in [of i] show_int_first [of i]
    by (simp add: parse_int_def show_int_def)
qed

lemma show_int_bytes: "c \<in> set (show_int i) \<Longrightarrow> c = CHR ''-'' \<or> is_digit c"
  using digits_in_digits [of i 10] digits_in_digits [of "- i" 10]
  by (auto simp: show_int_def list_all_iff split: if_splits)

lemma show_octal4_bytes: "c \<in> set (show_octal4 m) \<Longrightarrow> is_digit c"
  using digits_in_digits [of "uint m" 8]
  by (auto simp: show_octal4_def Let_def list_all_iff is_digit_def)

end
