(* ===== verification/Scp_Command.thy ===== *)
theory Scp_Command
  imports Go_Runes Vfs_Facts
begin

text \<open>
  What an SCP session is told before it starts: the exec request that has to be an scp
  invocation (\<open>parseSCPCommand\<close> and \<open>shellSplit\<close> of \<open>server/internal/server/scp.go\<close>), the
  path in it (\<open>virtualPath\<close>), and the control lines a client announces files and
  directories with (\<open>parseSCPFileHeader\<close> of \<open>scp_sink.go\<close>).
\<close>

section \<open>Errors\<close>

text \<open>
  The errors a session meets: a filesystem's, the two of the protocol, the end of the
  client's stream, and whatever else the channel reports.
\<close>

datatype scp_error = VErr verror | SCPProtocol | SCPRefused | StreamEnd | Transport

section \<open>The command\<close>

record scp_command =
  sink :: bool
  source :: bool
  recursive :: bool
  preserve :: bool
  directory :: bool
  cmd_path :: string

definition no_command :: scp_command where
  "no_command = \<lparr>sink = False, source = False, recursive = False, preserve = False, directory = False, cmd_path = []\<rparr>"

abbreviation quote_rune :: rune where "quote_rune \<equiv> 39"
abbreviation double_rune :: rune where "double_rune \<equiv> 34"
abbreviation backslash_rune :: rune where "backslash_rune \<equiv> 92"

definition blank_rune :: "rune \<Rightarrow> bool" where
  "blank_rune r \<longleftrightarrow> r = 32 \<or> r = 9 \<or> r = 10"

text \<open>What a backslash escapes within double quotes: itself, the quote, a dollar and a backquote.\<close>

definition escapable :: "rune \<Rightarrow> bool" where
  "escapable r \<longleftrightarrow> r = 34 \<or> r = 92 \<or> r = 36 \<or> r = 96"

text \<open>The loop of \<open>shellSplit\<close>, and the two inner loops that look for the closing quote.\<close>

fun split_plain :: "rune list \<Rightarrow> string list \<Rightarrow> string \<Rightarrow> bool \<Rightarrow> string list option"
  and split_single :: "rune list \<Rightarrow> string list \<Rightarrow> string \<Rightarrow> string list option"
  and split_double :: "rune list \<Rightarrow> string list \<Rightarrow> string \<Rightarrow> string list option" where
  "split_plain [] tokens current started = Some (if started then tokens @ [current] else tokens)"
| "split_plain (c # rs) tokens current started =
     (if blank_rune c then
        (if started then split_plain rs (tokens @ [current]) [] False
         else split_plain rs tokens current started)
      else if c = quote_rune then split_single rs tokens current
      else if c = double_rune then split_double rs tokens current
      else if c = backslash_rune then
        (case rs of [] \<Rightarrow> None | d # rs' \<Rightarrow> split_plain rs' tokens (current @ encode_rune d) True)
      else split_plain rs tokens (current @ encode_rune c) True)"
| "split_single [] tokens current = None"
| "split_single (c # rs) tokens current =
     (if c = quote_rune then split_plain rs tokens current True
      else split_single rs tokens (current @ encode_rune c))"
| "split_double [] tokens current = None"
| "split_double (c # rs) tokens current =
     (if c = double_rune then split_plain rs tokens current True
      else if c = backslash_rune \<and> rs \<noteq> [] \<and> escapable (hd rs)
      then split_double (tl rs) tokens (current @ encode_rune (hd rs))
      else split_double rs tokens (current @ encode_rune c))"

definition shell_split :: "string \<Rightarrow> string list option" where
  "shell_split command = split_plain (runes_of command) [] [] False"

fun parse_flags :: "rune list \<Rightarrow> scp_command \<Rightarrow> scp_command option" where
  "parse_flags [] c = Some c"
| "parse_flags (flag # rest) c =
     (if flag = 116 then parse_flags rest (c\<lparr>sink := True\<rparr>)
      else if flag = 102 then parse_flags rest (c\<lparr>source := True\<rparr>)
      else if flag = 114 then parse_flags rest (c\<lparr>recursive := True\<rparr>)
      else if flag = 112 then parse_flags rest (c\<lparr>preserve := True\<rparr>)
      else if flag = 100 then parse_flags rest (c\<lparr>directory := True\<rparr>)
      else if flag = 118 \<or> flag = 113 then parse_flags rest c
      else None)"

text \<open>The loop over the arguments: the command so far, the operands, and whether \<open>--\<close> was met.\<close>

fun parse_arguments :: "string list \<Rightarrow> scp_command \<Rightarrow> string list \<Rightarrow> bool \<Rightarrow> (scp_command \<times> string list) option" where
  "parse_arguments [] c operands ended = Some (c, operands)"
| "parse_arguments (token # rest) c operands ended =
     (if ended \<or> \<not> prefix ''-'' token \<or> token = ''-'' then parse_arguments rest c (operands @ [token]) ended
      else if token = ''--'' then parse_arguments rest c operands True
      else (case parse_flags (runes_of (drop 1 token)) c of
              None \<Rightarrow> None
            | Some c' \<Rightarrow> parse_arguments rest c' operands ended))"

definition parse_scp_command :: "string \<Rightarrow> scp_command option" where
  "parse_scp_command command =
     (case shell_split command of
        None \<Rightarrow> None
      | Some [] \<Rightarrow> None
      | Some (name # arguments) \<Rightarrow>
          if name \<noteq> ''scp'' \<and> \<not> suffix ''/scp'' name then None
          else (case parse_arguments arguments no_command [] False of
                  None \<Rightarrow> None
                | Some (parsed, operands) \<Rightarrow>
                    if sink parsed = source parsed \<or> length operands \<noteq> 1 then None
                    else Some (parsed\<lparr>cmd_path := hd operands\<rparr>)))"

section \<open>The path\<close>

definition virtual_path :: "string \<Rightarrow> verror + string" where
  "virtual_path raw =
     (if nul \<in> set raw then Inl ErrNotExist
      else if raw \<noteq> [] \<and> raw \<noteq> ''~'' \<and> \<not> prefix ''~/'' raw \<and> prefix ''~'' raw then Inl ErrNotExist
      else (let home = (if raw = [] \<or> raw = ''~'' then ''/'' else if prefix ''~/'' raw then drop 1 raw else raw);
                rooted = (if prefix ''/'' home then home else ''/'' @ home)
            in Inr (path_clean rooted)))"

section \<open>Control lines\<close>

definition parse_scp_file_header :: "string \<Rightarrow> scp_error + int \<times> string" where
  "parse_scp_file_header header =
     (case cut space (drop 1 header) of (_, remainder, ok1) \<Rightarrow>
        if \<not> ok1 then Inl SCPProtocol
        else (case cut space remainder of (sizeText, name, ok2) \<Rightarrow>
          if \<not> ok2 \<or> \<not> valid_name name then Inl SCPProtocol
          else (case parse_int sizeText of
                  None \<Rightarrow> Inl SCPProtocol
                | Some fileSize \<Rightarrow> if fileSize < 0 then Inl SCPProtocol else Inr (fileSize, name))))"


section \<open>Quoting and splitting\<close>

text \<open>
  How a POSIX client quotes an argument: single quotes around it, and each quote within it
  left outside them behind a backslash.
\<close>

definition shell_quote :: "string \<Rightarrow> string" where
  "shell_quote s = CHR 0x27 # concat (map (\<lambda>c. if c = CHR 0x27 then [CHR 0x27, CHR 0x5C, CHR 0x27, CHR 0x27] else [c]) s) @ [CHR 0x27]"

definition quote_runes :: "rune list \<Rightarrow> rune list" where
  "quote_runes rs = quote_rune # concat (map (\<lambda>r. if r = quote_rune then [39, 92, 39, 39] else [r]) rs) @ [quote_rune]"

lemma char_of_ord: "ord c = n \<Longrightarrow> char_of n = c"
  by auto

lemma encode_quote: "encode_rune 39 = [CHR 0x27]"
  by (simp add: encode_rune_ascii char_of_ord [of "CHR 0x27" 39])

lemma encode_backslash: "encode_rune 92 = [CHR 0x5C]"
  by (simp add: encode_rune_ascii char_of_ord [of "CHR 0x5C" 92])

lemma split_single_literal:
  "split_single (concat (map (\<lambda>r. if r = quote_rune then [39, 92, 39, 39] else [r]) rs) @ quote_rune # qs) tokens current =
     split_plain qs tokens (current @ runes_string rs) True"
proof (induction rs arbitrary: current)
  case (Cons r rs)
  show ?case
  proof (cases "r = quote_rune")
    case True
    show ?thesis using True Cons encode_quote by (simp add: blank_rune_def runes_string_Cons)
  next
    case False
    then show ?thesis using Cons by (simp add: runes_string_Cons)
  qed
qed (simp add: runes_string_def)

lemma split_plain_quoted:
  "split_plain (quote_runes rs @ qs) tokens [] False = split_plain qs tokens (runes_string rs) True"
  using split_single_literal [of rs qs tokens "[]"] by (simp add: quote_runes_def blank_rune_def)

lemma quote_nothing:
  "q \<notin> set s \<Longrightarrow> concat (map (\<lambda>c. if c = q then qs else [c]) s) = s"
  by (induction s) auto

lemma quote_encoded:
  "concat (map (\<lambda>c. if c = CHR 0x27 then [CHR 0x27, CHR 0x5C, CHR 0x27, CHR 0x27] else [c]) (runes_string rs)) =
     runes_string (concat (map (\<lambda>r. if r = quote_rune then [39, 92, 39, 39] else [r]) rs))"
proof (induction rs)
  case (Cons r rs)
  show ?case
  proof (cases "r = quote_rune")
    case True
    show ?thesis using True Cons encode_quote encode_backslash by (simp add: runes_string_Cons)
  next
    case False
    have "ord (CHR 0x27) = 39" by simp
    then have "CHR 0x27 \<notin> set (encode_rune r)"
      using encode_rune_bytes [of "CHR 0x27" r] False by auto
    then have "concat (map (\<lambda>c. if c = CHR 0x27 then [CHR 0x27, CHR 0x5C, CHR 0x27, CHR 0x27] else [c]) (encode_rune r)) = encode_rune r"
      by (rule quote_nothing)
    then show ?thesis using False Cons by (simp add: runes_string_Cons)
  qed
qed (simp add: runes_string_def)

lemma shell_quote_runes:
  assumes "utf8 s"
  shows "shell_quote s = runes_string (quote_runes (runes_of s))"
proof -
  show ?thesis
    using encode_quote quote_encoded [of "runes_of s"] assms
    by (simp add: shell_quote_def quote_runes_def runes_string_Cons utf8_def)
qed

lemma runes_of_shell_quote:
  assumes "utf8 s"
  shows "runes_of (shell_quote s @ t) = quote_runes (runes_of s) @ runes_of t"
proof -
  have "\<forall>r \<in> set (quote_runes (runes_of s)). valid_rune r"
    using runes_of_valid by (auto simp: quote_runes_def valid_rune_def)
  then show ?thesis using runes_of_runes_string shell_quote_runes [OF assms] by simp
qed

lemma shell_quoted_arguments:
  assumes "\<forall>s \<in> set args. utf8 s"
  shows "split_plain (runes_of (concat (map (\<lambda>s. space # shell_quote s) args))) tokens current True =
           Some (tokens @ current # args)"
  using assms
proof (induction args arbitrary: tokens current)
  case (Cons s args)
  then have u: "utf8 s" by simp
  have "split_plain (runes_of (space # shell_quote s @ concat (map (\<lambda>s. space # shell_quote s) args))) tokens current True =
      split_plain (runes_of (concat (map (\<lambda>s. space # shell_quote s) args))) (tokens @ [current]) s True"
    using u by (simp del: runes_of.simps add: runes_of_ascii runes_of_shell_quote [OF u] blank_rune_def
        split_plain_quoted utf8_def)
  then show ?case using Cons by simp
qed simp


definition plain_rune :: "rune \<Rightarrow> bool" where
  "plain_rune r \<longleftrightarrow> \<not> blank_rune r \<and> r \<noteq> quote_rune \<and> r \<noteq> double_rune \<and> r \<noteq> backslash_rune"

lemma split_plain_word:
  "list_all plain_rune rs \<Longrightarrow> rs \<noteq> [] \<or> started \<Longrightarrow>
     split_plain (rs @ qs) tokens current started = split_plain qs tokens (current @ runes_string rs) True"
proof (induction rs arbitrary: current started)
  case (Cons r rs)
  then show ?case by (simp add: plain_rune_def runes_string_Cons)
qed (simp add: runes_string_def)

text \<open>A word of plain ASCII bytes is a token as it stands.\<close>

definition plain_word :: "string \<Rightarrow> bool" where
  "plain_word s \<longleftrightarrow> s \<noteq> [] \<and> list_all (\<lambda>c. ord c < 128 \<and> plain_rune (ord c)) s"

lemma plain_word_utf8: "plain_word s \<Longrightarrow> utf8 s"
  by (rule ascii_utf8) (auto simp: plain_word_def list_all_iff)

lemma plain_word_runes: "plain_word s \<Longrightarrow> list_all plain_rune (runes_of s) \<and> runes_of s \<noteq> []"
proof -
  have "list_all (\<lambda>c. ord c < 128 \<and> plain_rune (ord c)) s \<Longrightarrow> list_all plain_rune (runes_of s)"
    by (induction s) (simp_all add: runes_of_ascii del: runes_of.simps(2))
  moreover assume "plain_word s"
  ultimately show ?thesis by (cases s) (auto simp: plain_word_def split: prod.splits)
qed

lemma split_plain_word_string:
  assumes "plain_word s"
  shows "split_plain (runes_of (s @ t)) tokens [] False = split_plain (runes_of t) tokens s True"
  using split_plain_word [of "runes_of s" False "runes_of t" tokens "[]"] plain_word_runes [OF assms]
    runes_of_append [OF plain_word_utf8 [OF assms]] plain_word_utf8 [OF assms]
  by (simp add: utf8_def)

lemma split_plain_space:
  "split_plain (runes_of (space # t)) tokens current True = split_plain (runes_of t) (tokens @ [current]) [] False"
  by (simp add: runes_of_ascii blank_rune_def del: runes_of.simps(2))

text \<open>The invocation a client makes of a command.\<close>

definition flags_of :: "scp_command \<Rightarrow> string" where
  "flags_of c = ''-'' @ (if sink c then ''t'' else ''f'') @ (if recursive c then ''r'' else []) @
     (if preserve c then ''p'' else []) @ (if directory c then ''d'' else [])"

definition invocation :: "scp_command \<Rightarrow> string" where
  "invocation c = ''scp'' @ space # flags_of c @ space # ''--'' @ space # shell_quote (cmd_path c)"

lemma parse_arguments_flags:
  assumes "sink c = (\<not> source c)"
  shows "parse_arguments [flags_of c, ''--'', p] no_command [] False = Some (c\<lparr>cmd_path := []\<rparr>, [p])"
  using assms
  by (cases c; cases "sink c"; cases "recursive c"; cases "preserve c"; cases "directory c")
     (simp_all add: flags_of_def no_command_def)

lemma flags_plain: "plain_word (flags_of c)"
  by (simp add: plain_word_def flags_of_def plain_rune_def blank_rune_def)

lemma shell_split_invocation:
  assumes "utf8 (cmd_path c)"
  shows "shell_split (invocation c) = Some [''scp'', flags_of c, ''--'', cmd_path c]"
proof -
  have w: "plain_word ''scp''" "plain_word ''--''"
    by (simp_all add: plain_word_def plain_rune_def blank_rune_def)
  have q: "split_plain (runes_of (shell_quote (cmd_path c))) tokens [] False = Some (tokens @ [cmd_path c])" for tokens
    using runes_of_shell_quote [OF assms, of "[]"] split_plain_quoted [of "runes_of (cmd_path c)" "[]"] assms
    by (simp add: utf8_def)
  have "shell_split (invocation c) =
      split_plain (runes_of (flags_of c @ space # ''--'' @ space # shell_quote (cmd_path c))) [''scp''] [] False"
    unfolding shell_split_def invocation_def
    by (simp only: split_plain_word_string [OF w(1)] split_plain_space append.simps(1) append_Nil)
  also have "\<dots> = split_plain (runes_of (''--'' @ space # shell_quote (cmd_path c))) [''scp'', flags_of c] [] False"
    by (simp only: split_plain_word_string [OF flags_plain] split_plain_space append.simps)
  also have "\<dots> = split_plain (runes_of (shell_quote (cmd_path c))) [''scp'', flags_of c, ''--''] [] False"
    by (subst split_plain_word_string [OF w(2)], subst split_plain_space) (simp only: append_Cons append_Nil)
  finally show ?thesis by (simp only: q append_Cons append_Nil)
qed


section \<open>Properties\<close>

text \<open>
  C27. An scp command written as a POSIX client quotes it is read back as what it asks for:
  direction, flags and a path with any characters of valid UTF-8 in it, quotes and blanks
  included.
\<close>

theorem scp_command_roundtrip:
  assumes "utf8 (cmd_path c)" and "sink c \<longleftrightarrow> \<not> source c"
  shows "parse_scp_command (invocation c) = Some c"
  using shell_split_invocation [OF assms(1)] parse_arguments_flags [of c "cmd_path c"] assms(2)
  by (simp add: parse_scp_command_def)

definition sample_upload :: scp_command where
  "sample_upload = \<lparr>sink = True, source = False, recursive = True, preserve = False, directory = True,
     cmd_path = ''my files''\<rparr>"

theorem scp_command_roundtrip_witness:
  "parse_scp_command (''scp -trd -- '' @ CHR 0x27 # ''my files'' @ [CHR 0x27]) = Some sample_upload"
proof -
  have "utf8 (cmd_path sample_upload)" by (rule ascii_utf8) (simp add: sample_upload_def)
  moreover have "invocation sample_upload = ''scp -trd -- '' @ CHR 0x27 # ''my files'' @ [CHR 0x27]"
    by (simp add: sample_upload_def invocation_def flags_of_def shell_quote_def)
  moreover have "sink sample_upload \<longleftrightarrow> \<not> source sample_upload" by (simp add: sample_upload_def)
  ultimately show ?thesis using scp_command_roundtrip [of sample_upload] by simp
qed

lemma rooted_clean: "path_clean (slash # s) = join_path (components s)"
  by (simp add: path_clean_abs join_path_abs_path components_def)

lemma tilde_cases: "prefix ''~'' raw \<longleftrightarrow> (\<exists>s. raw = CHR ''~'' # s)"
  by (cases raw) auto

lemma virtual_path_value:
  "virtual_path raw =
     (if nul \<in> set raw \<or> prefix ''~'' raw \<and> raw \<noteq> ''~'' \<and> \<not> prefix ''~/'' raw then Inl ErrNotExist
      else Inr (join_path (components (if prefix ''~'' raw then drop 1 raw else raw))))"
proof -
  consider "raw = []" | s where "raw = CHR ''~'' # slash # s" | "raw = ''~''"
    | s where "raw = slash # s" | "raw \<noteq> []" "hd raw \<noteq> slash" "\<not> prefix ''~'' raw"
    | s c where "raw = CHR ''~'' # c # s" "c \<noteq> slash"
    by (metis (no_types) list.exhaust list.sel(1) tilde_cases)
  then show ?thesis
  proof cases
    case 5
    then obtain c s where "raw = c # s" "c \<noteq> slash" by (cases raw) auto
    then show ?thesis using 5 by (auto simp: virtual_path_def rooted_clean)
  qed (auto simp: virtual_path_def rooted_clean path_clean_abs join_path_abs_path components_def)
qed

lemma foldl_clean_step_subset: "set (foldl (clean_step True) st es) \<subseteq> set st \<union> set es"
proof (induction es arbitrary: st)
  case (Cons e es)
  have "set (clean_step True st e) \<subseteq> set st \<union> {e}"
    by (auto simp: clean_step_def dest: in_set_butlastD)
  then show ?case using Cons [of "clean_step True st e"] by auto
qed simp

lemma components_parts:
  assumes "nul \<notin> set raw"
  shows "valid_parts (components raw)"
proof
  fix p
  assume p: "p \<in> set (components raw)"
  then have "p \<in> set (split_on slash raw)"
    using foldl_clean_step_subset [of "[]" "elements raw"] by (auto simp: components_def elements_def)
  then have "nul \<notin> set p" using split_on_chars [of p slash raw] assms by auto
  moreover have "ordinary p" using p components_ordinary [of raw] by simp
  ultimately show "valid_part p" by (simp add: valid_part_def ordinary_def)
qed

text \<open>A path that begins with the name of another user's home.\<close>

definition other_home :: "string \<Rightarrow> bool" where
  "other_home raw \<longleftrightarrow> prefix ''~'' raw \<and> raw \<noteq> ''~'' \<and> \<not> prefix ''~/'' raw"

text \<open>
  A path as an scp client wrote it is refused exactly when it has a NUL byte or names the
  home of another user, and otherwise becomes the joined form of its components below the
  root, a path the filesystem splits into just these.
\<close>

theorem virtual_path_exact:
  "case virtual_path raw of
     Inl e \<Rightarrow> e = ErrNotExist \<and> (nul \<in> set raw \<or> other_home raw)
   | Inr p \<Rightarrow> nul \<notin> set raw \<and> \<not> other_home raw \<and>
       p = join_path (components (trim_prefix ''~'' raw)) \<and>
       split_path p = Some (components (trim_prefix ''~'' raw))"
proof -
  have tr: "trim_prefix ''~'' raw = (if prefix ''~'' raw then drop 1 raw else raw)"
    by (simp add: trim_prefix_def)
  have bad: "(nul \<in> set raw \<or> prefix ''~'' raw \<and> raw \<noteq> ''~'' \<and> \<not> prefix ''~/'' raw) =
      (nul \<in> set raw \<or> other_home raw)" by (simp only: other_home_def)
  show ?thesis
  proof (cases "nul \<in> set raw \<or> other_home raw")
    case True
    then show ?thesis by (simp only: virtual_path_value bad if_True sum.case simp_thms)
  next
    case False
    have "set (drop 1 raw) \<subseteq> set raw" by (rule set_drop_subset)
    then have "nul \<notin> set (trim_prefix ''~'' raw)" using False tr by (metis subsetD)
    then have "split_path (join_path (components (trim_prefix ''~'' raw))) = Some (components (trim_prefix ''~'' raw))"
      by (intro split_path_join_path components_parts)
    moreover have "virtual_path raw = Inr (join_path (components (trim_prefix ''~'' raw)))"
      using False by (simp only: virtual_path_value bad tr if_False)
    ultimately show ?thesis using False by simp
  qed
qed

theorem scp_header_exact:
  "parse_scp_file_header h = Inr (n, name) \<longleftrightarrow> 
     (\<exists>m sz. drop 1 h = m @ space # sz @ space # name \<and> space \<notin> set m \<and> space \<notin> set sz \<and> 
        valid_name name \<and> parse_int sz = Some n \<and> 0 \<le> n)"
proof
  assume a: "parse_scp_file_header h = Inr (n, name)"
  obtain m r f1 where c1: "cut space (drop 1 h) = (m, r, f1)" by (metis surj_pair)
  obtain sz nm f2 where c2: "cut space r = (sz, nm, f2)" by (metis surj_pair)
  have f: "f1" "f2" "nm = name" "valid_name name" "parse_int sz = Some n" "0 \<le> n"
    using a c1 c2 by (auto simp: parse_scp_file_header_def split: if_splits option.splits)
  have "space \<in> set (drop 1 h)" "space \<in> set r" using c1 c2 f(1,2) by (auto simp: cut_def)
  then show "\<exists>m sz. drop 1 h = m @ space # sz @ space # name \<and> space \<notin> set m \<and> space \<notin> set sz \<and> 
        valid_name name \<and> parse_int sz = Some n \<and> 0 \<le> n"
    using cut_found [OF _ c1] cut_found [OF _ c2] f by (intro exI [of _ m] exI [of _ sz]) auto
qed (auto simp: parse_scp_file_header_def)

end
