(* ===== verification/Uploads.thy ===== *)
theory Uploads
  imports Vfs
begin

text \<open>
  The limit on the uploads one connection may have open at once: \<open>uploadLimiter\<close> of
  \<open>server/internal/server/sftpfs.go\<close>. The slots are a buffered channel; how many of them
  are taken is part of the state of whoever holds the limiter, and a limiter that is
  \<open>nil\<close> limits nothing.
\<close>

datatype upload_limiter = Unlimited | Slots int

definition new_upload_limiter :: "int \<Rightarrow> upload_limiter" where
  "new_upload_limiter maxConcurrentUploads =
     (if maxConcurrentUploads \<le> 0 then Unlimited else Slots maxConcurrentUploads)"

text \<open>Taking a slot without waiting for one: the slots taken after it, if there was one.\<close>

definition acquire :: "upload_limiter \<Rightarrow> int \<Rightarrow> int option" where
  "acquire l held =
     (case l of Unlimited \<Rightarrow> Some held
      | Slots n \<Rightarrow> if held < n then Some (held + 1) else None)"

definition release :: "upload_limiter \<Rightarrow> int \<Rightarrow> int" where
  "release l held = (case l of Unlimited \<Rightarrow> held | Slots n \<Rightarrow> held - 1)"

text \<open>As many slots taken as the limiter allows, and never fewer than none.\<close>

definition within_limit :: "upload_limiter \<Rightarrow> int \<Rightarrow> bool" where
  "within_limit l held \<longleftrightarrow> 0 \<le> held \<and> (case l of Unlimited \<Rightarrow> True | Slots n \<Rightarrow> held \<le> n)"

lemma release_acquire [simp]: "acquire l h = Some h' \<Longrightarrow> release l h' = h"
  by (auto simp: acquire_def release_def split: upload_limiter.splits if_splits)

lemma acquire_within: "within_limit l h \<Longrightarrow> acquire l h = Some h' \<Longrightarrow> within_limit l h'"
  by (auto simp: acquire_def within_limit_def split: upload_limiter.splits if_splits)

end
