(* ===== verification/Scp.thy ===== *)
theory Scp
  imports Scp_Command Uploads
begin

text \<open>
  An SCP session: \<open>server/internal/server/scp.go\<close>, \<open>scp_sink.go\<close> and \<open>scp_source.go\<close>.

  The channel is two streams. What the client will ever send is a list of bytes and how it
  ends; what has been sent to it is a list of bytes, and a plan says which writes fail and
  how much of them got out. The client's answers may depend on what it was sent: the list is
  what it did answer in the run considered, and the theorems hold for every list.
\<close>

section \<open>State\<close>

record 'w scp_session =
  command :: scp_command
  filesystem :: "'w fs"
  limiter :: upload_limiter

record 'w scp_state =
  served :: "'w fs_state"
  slots :: int
  inbound :: bytes
  inbound_end :: scp_error
  outbound :: bytes
  write_plan :: "nat option list"
  stderr_out :: bytes
  refused :: bool

definition transfer_buffer :: int where "transfer_buffer = 32768"
definition max_scp_line :: int where "max_scp_line = 4096"

definition scp_ok :: byte where "scp_ok = CHR 0x00"
definition scp_warning :: byte where "scp_warning = CHR 0x01"
definition scp_fatal :: byte where "scp_fatal = CHR 0x02"

text \<open>A call of the filesystem, and of a reader or writer it handed out.\<close>

definition on_fs :: "('w fs_state, verror, 'a) op \<Rightarrow> ('w scp_state, scp_error, 'a) op" where
  "on_fs m s = (case m (served s) of
     (Inl e, t) \<Rightarrow> (Inl (VErr e), s\<lparr>served := t\<rparr>)
   | (Inr x, t) \<Rightarrow> (Inr x, s\<lparr>served := t\<rparr>))"

definition on_handle :: "('w \<Rightarrow> 'r \<times> 'w) \<Rightarrow> 'w scp_state \<Rightarrow> 'r \<times> 'w scp_state" where
  "on_handle m s = (case on_world m (served s) of (r, t) \<Rightarrow> (r, s\<lparr>served := t\<rparr>))"

section \<open>The channel\<close>

definition channel_write :: "bytes \<Rightarrow> ('w scp_state, scp_error, unit) op" where
  "channel_write data s =
     (case write_plan s of
        [] \<Rightarrow> (Inr (), s\<lparr>outbound := outbound s @ data\<rparr>)
      | None # plan \<Rightarrow> (Inr (), s\<lparr>outbound := outbound s @ data, write_plan := plan\<rparr>)
      | Some n # plan \<Rightarrow> (Inl Transport, s\<lparr>outbound := outbound s @ take n data, write_plan := plan\<rparr>))"

text \<open>\<open>io.ReadFull\<close>: the bytes read, and whether they are fewer than asked for.\<close>

definition read_full :: "nat \<Rightarrow> 'w scp_state \<Rightarrow> (bytes \<times> bool) \<times> 'w scp_state" where
  "read_full n s =
     ((take n (inbound s), length (inbound s) < n), s\<lparr>inbound := drop n (inbound s)\<rparr>)"

definition read_byte :: "('w scp_state, scp_error, byte) op" where
  "read_byte s =
     (case read_full 1 s of ((data, short), t) \<Rightarrow>
        if short then (Inl (inbound_end t), t) else (Inr (hd data), t))"

fun line_loop :: "bytes \<Rightarrow> string \<Rightarrow> scp_error \<Rightarrow> (scp_error + string) \<times> bytes" where
  "line_loop [] line e = (Inl e, [])"
| "line_loop (character # rest) line e =
     (if character = newline then (Inr line, rest)
      else if max_scp_line \<le> int (length line) then (Inl SCPProtocol, rest)
      else line_loop rest (line @ [character]) e)"

definition read_line :: "('w scp_state, scp_error, string) op" where
  "read_line s =
     (case line_loop (inbound s) [] (inbound_end s) of (r, rest) \<Rightarrow> (r, s\<lparr>inbound := rest\<rparr>))"

definition ack :: "('w scp_state, scp_error, unit) op" where
  "ack = channel_write [scp_ok]"

section \<open>Outcomes\<close>

definition scp_outcome :: "scp_error \<Rightarrow> scp_error" where
  "scp_outcome e =
     (case e of
        VErr ErrNotExist \<Rightarrow> e
      | VErr ErrPermission \<Rightarrow> e
      | VErr ErrUnsupported \<Rightarrow> e
      | VErr ErrExist \<Rightarrow> e
      | SCPProtocol \<Rightarrow> e
      | SCPRefused \<Rightarrow> e
      | _ \<Rightarrow> VErr ErrFailure)"

fun verror_text :: "verror \<Rightarrow> string" where
  "verror_text ErrNotExist = ''no such file or directory''"
| "verror_text ErrPermission = ''permission denied''"
| "verror_text ErrUnsupported = ''operation not supported''"
| "verror_text ErrFailure = ''operation failed''"
| "verror_text ErrExist = ''file already exists''"
| "verror_text (ErrOther msg) = msg"

fun error_text :: "scp_error \<Rightarrow> string" where
  "error_text (VErr e) = verror_text e"
| "error_text SCPProtocol = ''protocol error''"
| "error_text SCPRefused = ''client refused the transfer''"
| "error_text StreamEnd = ''EOF''"
| "error_text Transport = []"

definition scp_fail :: "string \<Rightarrow> scp_error \<Rightarrow> ('w scp_state, scp_error, unit) op" where
  "scp_fail virtual cause s =
     channel_write (scp_warning # ''scp: '' @ virtual @ '': '' @ error_text (scp_outcome cause) @ [newline])
       (s\<lparr>refused := True\<rparr>)"

definition await_ack :: "('w scp_state, scp_error, unit) op" where
  "await_ack s =
     (case read_byte s of
        (Inl e, t) \<Rightarrow> (Inl e, t)
      | (Inr status, t) \<Rightarrow>
          if status = scp_ok then (Inr (), t)
          else if status = scp_warning \<or> status = scp_fatal then (Inl SCPRefused, snd (read_line t))
          else (Inl SCPProtocol, t))"

section \<open>The sink\<close>

record scp_target =
  target_path :: string
  named :: bool

definition target_resolve :: "scp_target \<Rightarrow> string \<Rightarrow> string" where
  "target_resolve t name = (if \<not> named t then target_path t else path_join (target_path t) name)"

text \<open>
  One window of a file given to the writer, unless a write has failed before. The offset
  advances by what \<open>WriteAt\<close> says it wrote.
\<close>

definition store_window :: "'w writer \<Rightarrow> bytes \<Rightarrow> int64 \<Rightarrow> verror option \<Rightarrow> 'w scp_state \<Rightarrow>
    (int64 \<times> verror option) \<times> 'w scp_state" where
  "store_window wr data offset failure s =
     (if failure = None \<and> data \<noteq> [] then
        (case on_handle (write_at wr data offset) s of
           ((count, err), t) \<Rightarrow>
             ((offset + word_of_nat count, if err = None then None else Some ErrFailure), t))
      else ((offset, failure), s))"

text \<open>The loop of \<open>receiveContents\<close>: what is left to read, the next offset, the failure met.\<close>

function receive_contents :: "'w writer \<Rightarrow> int \<Rightarrow> int64 \<Rightarrow> verror option \<Rightarrow> 'w scp_state \<Rightarrow>
    scp_error option \<times> 'w scp_state" where
  "receive_contents wr remaining offset failure s =
     (if remaining \<le> 0 then (map_option VErr failure, s)
      else (case read_full (nat (min transfer_buffer remaining)) s of
        ((data, short), t) \<Rightarrow>
          (case store_window wr data offset failure t of
             ((offset', failure'), u) \<Rightarrow>
               if short then (Some SCPProtocol, u)
               else receive_contents wr (remaining - int (length data)) offset' failure' u)))"
  by pat_completeness auto
termination
  by (relation "measure (\<lambda>(wr, remaining, offset, failure, s). nat remaining)")
     (auto simp: read_full_def transfer_buffer_def)

declare receive_contents.simps [simp del]

text \<open>The body of \<open>receiveFile\<close> once a slot is held.\<close>

definition receive_into :: "'w scp_session \<Rightarrow> string \<Rightarrow> int \<Rightarrow> ('w scp_state, scp_error, unit) op" where
  "receive_into ss destination fileSize s =
     (case on_fs (fs_create (filesystem ss) destination) s of
        (Inl e, t) \<Rightarrow> scp_fail destination e t
      | (Inr wr, t) \<Rightarrow>
          (case ack t of
             (Inl e, u) \<Rightarrow> (Inl e, snd (on_handle (write_abort wr) u))
           | (Inr _, u) \<Rightarrow>
               (case receive_contents wr fileSize 0 None u of (contentsErr, v) \<Rightarrow>
                  if contentsErr = Some SCPProtocol
                  then (Inl SCPProtocol, snd (on_handle (write_abort wr) v))
                  else (case read_byte v of
                     (Inl e, x) \<Rightarrow> (Inl e, snd (on_handle (write_abort wr) x))
                   | (Inr status, x) \<Rightarrow>
                       if status \<noteq> scp_ok
                       then (Inl SCPRefused, snd (on_handle (write_abort wr) (snd (read_line x))))
                       else (case contentsErr of
                          Some e \<Rightarrow> scp_fail destination e (snd (on_handle (write_abort wr) x))
                        | None \<Rightarrow>
                            (case on_handle (write_close wr) x of
                               (Some e, y) \<Rightarrow> scp_fail destination (VErr e) y
                             | (None, y) \<Rightarrow> ack y))))))"

definition receive_file :: "'w scp_session \<Rightarrow> scp_target \<Rightarrow> string \<Rightarrow> ('w scp_state, scp_error, unit) op" where
  "receive_file ss target header s =
     (case parse_scp_file_header header of
        Inl e \<Rightarrow> (Inl e, s)
      | Inr (fileSize, name) \<Rightarrow>
          (let destination = target_resolve target name in
           case acquire (limiter ss) (slots s) of
             None \<Rightarrow> scp_fail destination (VErr ErrFailure) s
           | Some held \<Rightarrow>
               (case receive_into ss destination fileSize (s\<lparr>slots := held\<rparr>) of
                  (r, t) \<Rightarrow> (r, t\<lparr>slots := release (limiter ss) (slots t)\<rparr>))))"

definition receive_directory :: "'w scp_session \<Rightarrow> scp_target \<Rightarrow> string \<Rightarrow>
    ('w scp_state, scp_error, scp_target) op" where
  "receive_directory ss target header s =
     (case parse_scp_file_header header of
        Inl e \<Rightarrow> (Inl e, s)
      | Inr (_, name) \<Rightarrow>
          (let destination = target_resolve target name;
               contents = \<lparr>target_path = destination, named = True\<rparr> in
           case on_fs (fs_mkdir (filesystem ss) destination) s of
             (Inl e, t) \<Rightarrow>
               if e \<noteq> VErr ErrExist then bindE (scp_fail destination e) (\<lambda>_. returnE contents) t
               else bindE ack (\<lambda>_. returnE contents) t
           | (Inr _, t) \<Rightarrow> bindE ack (\<lambda>_. returnE contents) t))"

text \<open>
  The body of the loop of \<open>receive\<close>: \<open>Inr\<close> goes round again with the stack of open
  directories, \<open>Inl\<close> returns, \<open>None\<close> being the end of the upload.
\<close>

definition continue_with :: "scp_target list \<Rightarrow> ('w scp_state, scp_error, unit) op \<Rightarrow>
    ('w scp_state, scp_error option, scp_target list) op" where
  "continue_with stack m s = (case m s of (Inl e, t) \<Rightarrow> (Inl (Some e), t) | (Inr _, t) \<Rightarrow> (Inr stack, t))"

definition receive_line :: "'w scp_session \<Rightarrow> scp_target list \<Rightarrow> string \<Rightarrow>
    ('w scp_state, scp_error option, scp_target list) op" where
  "receive_line ss stack line s =
     (if line = [] then (Inl (Some SCPProtocol), s)
      else if hd line = CHR ''C'' then continue_with stack (receive_file ss (last stack) line) s
      else if hd line = CHR ''D'' then
        (case receive_directory ss (last stack) line s of
           (Inl e, t) \<Rightarrow> (Inl (Some e), t)
         | (Inr next_target, t) \<Rightarrow> (Inr (stack @ [next_target]), t))
      else if hd line = CHR ''E'' then
        (if length stack = 1 then (Inl (Some SCPProtocol), s) else continue_with (butlast stack) ack s)
      else if hd line = CHR ''T'' then continue_with stack ack s
      else (Inl (Some SCPProtocol), s))"

definition receive_step :: "'w scp_session \<Rightarrow> scp_target list \<Rightarrow>
    ('w scp_state, scp_error option, scp_target list) op" where
  "receive_step ss stack s =
     (case read_line s of
        (Inl e, t) \<Rightarrow> (Inl (if e = StreamEnd then None else Some e), t)
      | (Inr line, t) \<Rightarrow> receive_line ss stack line t)"

text \<open>Nothing puts bytes back into the client's stream.\<close>

named_theorems stream_simps

lemma on_fs_fields [simp, stream_simps]:
  "inbound (snd (on_fs m s)) = inbound s" "slots (snd (on_fs m s)) = slots s"
  "inbound_end (snd (on_fs m s)) = inbound_end s"
  by (simp_all add: on_fs_def split: prod.splits sum.splits)

lemma on_handle_fields [simp, stream_simps]:
  "inbound (snd (on_handle m s)) = inbound s" "slots (snd (on_handle m s)) = slots s"
  "inbound_end (snd (on_handle m s)) = inbound_end s"
  by (simp_all add: on_handle_def split: prod.splits)

lemma channel_write_fields [simp, stream_simps]:
  "inbound (snd (channel_write d s)) = inbound s" "slots (snd (channel_write d s)) = slots s"
  "inbound_end (snd (channel_write d s)) = inbound_end s" "served (snd (channel_write d s)) = served s"
  by (simp_all add: channel_write_def split: list.splits option.splits)

lemma ack_fields [simp, stream_simps]:
  "inbound (snd (ack s)) = inbound s" "slots (snd (ack s)) = slots s"
  "inbound_end (snd (ack s)) = inbound_end s" "served (snd (ack s)) = served s"
  by (simp_all add: ack_def)

lemma scp_fail_fields [simp, stream_simps]:
  "inbound (snd (scp_fail v e s)) = inbound s" "slots (snd (scp_fail v e s)) = slots s"
  "inbound_end (snd (scp_fail v e s)) = inbound_end s" "served (snd (scp_fail v e s)) = served s"
  by (simp_all add: scp_fail_def)

lemma read_byte_fields [simp, stream_simps]:
  "inbound (snd (read_byte s)) = drop 1 (inbound s)" "slots (snd (read_byte s)) = slots s"
  "inbound_end (snd (read_byte s)) = inbound_end s" "served (snd (read_byte s)) = served s"
  by (simp_all add: read_byte_def read_full_def)

lemma line_loop_shorter: "length (snd (line_loop i l e)) \<le> length i"
  by (induction i l e rule: line_loop.induct) auto

lemma line_loop_Inr: "line_loop i l e = (Inr x, r) \<Longrightarrow> length r < length i"
  by (induction i l e rule: line_loop.induct) (auto split: if_splits)

lemma read_line_fields [simp, stream_simps]:
  "slots (snd (read_line s)) = slots s" "inbound_end (snd (read_line s)) = inbound_end s"
  "served (snd (read_line s)) = served s"
  by (simp_all add: read_line_def split: prod.splits)

lemma read_line_shorter: "length (inbound (snd (read_line s))) \<le> length (inbound s)"
  using line_loop_shorter by (simp add: read_line_def split: prod.splits) (metis snd_conv)

lemma read_line_Inr: "read_line s = (Inr x, t) \<Longrightarrow> length (inbound t) < length (inbound s)"
  by (auto simp: read_line_def dest: line_loop_Inr split: prod.splits)


text \<open>What is left of the stream, how it ends, and the slots taken.\<close>

definition stream :: "nat \<Rightarrow> int \<Rightarrow> scp_error \<Rightarrow> 'w scp_state \<Rightarrow> bool" where
  "stream n k e s \<longleftrightarrow> length (inbound s) \<le> n \<and> slots s = k \<and> inbound_end s = e"

named_theorems stream_rules

lemma stream_primitives [stream_rules]:
  "keeps (stream n k e) (on_fs m)" "keeps (stream n k e) (on_handle h)"
  "keeps (stream n k e) (channel_write d)" "keeps (stream n k e) ack"
  "keeps (stream n k e) (scp_fail v x)" "keeps (stream n k e) read_byte"
  "keeps (stream n k e) read_line"
  using read_line_shorter by (auto simp: keeps_def stream_def intro: order_trans)

lemma stream_read_full [stream_rules]: "keeps (stream n k e) (read_full c)"
  by (auto simp: keeps_def stream_def read_full_def)

lemma stream_store_window [stream_rules]: "keeps (stream n k e) (store_window wr d off failure)"
  by (auto simp: store_window_def[abs_def] intro!: keeps_rules stream_rules)

lemma stream_receive_contents [stream_rules]: "keeps (stream n k e) (receive_contents wr c off failure)"
proof (rule keepsI)
  fix s
  show "stream n k e s \<Longrightarrow> stream n k e (snd (receive_contents wr c off failure s))"
  proof (induction wr c off failure s rule: receive_contents.induct)
    case (1 wr remaining offset failure s)
    obtain d b t where r: "read_full (nat (min transfer_buffer remaining)) s = ((d, b), t)" by (metis surj_pair)
    obtain o' f' u where w: "store_window wr d offset failure t = ((o', f'), u)" by (metis surj_pair)
    have "stream n k e u"
      using keepsD' [OF stream_store_window _ w] keepsD' [OF stream_read_full 1(2) r] by blast
    then show ?case
      using 1 r w by (subst receive_contents.simps) auto
  qed
qed

lemma stream_receive_into [stream_rules]: "keeps (stream n k e) (receive_into ss d c)"
  unfolding receive_into_def[abs_def] by (intro keeps_rules stream_rules)


lemma stream_receive_file [stream_rules]:
  fixes ss :: "'w scp_session"
  shows "keeps (stream n k e) (receive_file ss target header)"
proof (rule keepsI)
  fix s :: "'w scp_state"
  assume s: "stream n k e s"
  show "stream n k e (snd (receive_file ss target header s))"
  proof (cases "parse_scp_file_header header")
    case (Inl e')
    then show ?thesis using s by (simp add: receive_file_def)
  next
    case (Inr p)
    obtain fileSize name where p: "p = (fileSize, name)" by (metis surj_pair)
    let ?d = "target_resolve target name"
    show ?thesis
    proof (cases "acquire (limiter ss) (slots s)")
      case None
      then show ?thesis using Inr p s keepsD [OF stream_primitives(5) s] by (simp add: receive_file_def)
    next
      case (Some held)
      then have "stream n held e (s\<lparr>slots := held\<rparr>)" using s by (simp add: stream_def)
      from keepsD [OF stream_receive_into this]
      have "stream n held e (snd (receive_into ss ?d fileSize (s\<lparr>slots := held\<rparr>)))" .
      moreover have "release (limiter ss) held = k" using Some s by (simp add: stream_def)
      ultimately show ?thesis
        using Inr p Some by (auto simp: receive_file_def Let_def stream_def split: prod.splits)
    qed
  qed
qed

lemma stream_receive_directory [stream_rules]: "keeps (stream n k e) (receive_directory ss target header)"
  unfolding receive_directory_def[abs_def] Let_def by (intro keeps_rules stream_rules)

lemma stream_continue_with [stream_rules]: "keeps (stream n k e) m \<Longrightarrow> keeps (stream n k e) (continue_with stack m)"
  unfolding continue_with_def[abs_def] by (intro keeps_rules)

lemma stream_receive_line [stream_rules]: "keeps (stream n k e) (receive_line ss stack line)"
  unfolding receive_line_def[abs_def] by (intro keeps_rules stream_rules)

lemma stream_receive_step [stream_rules]: "keeps (stream n k e) (receive_step ss stack)"
  unfolding receive_step_def[abs_def] by (intro keeps_rules stream_rules)

text \<open>Every round of the loop takes a line from the stream.\<close>

lemma receive_step_shorter:
  assumes "receive_step ss stack s = (Inr stack', t)"
  shows "length (inbound t) < length (inbound s)"
proof -
  obtain line u where l: "read_line s = (Inr line, u)" and r: "receive_line ss stack line u = (Inr stack', t)"
    using assms by (auto simp: receive_step_def split: prod.splits sum.splits)
  have "stream (length (inbound u)) (slots u) (inbound_end u) u" by (simp add: stream_def)
  from keepsD' [OF stream_receive_line this r] have "length (inbound t) \<le> length (inbound u)"
    by (simp add: stream_def)
  then show ?thesis using read_line_Inr [OF l] by simp
qed

function receive_loop :: "'w scp_session \<Rightarrow> scp_target list \<Rightarrow> 'w scp_state \<Rightarrow>
    scp_error option \<times> 'w scp_state" where
  "receive_loop ss stack s =
     (case receive_step ss stack s of
        (Inl r, t) \<Rightarrow> (r, t)
      | (Inr stack', t) \<Rightarrow> receive_loop ss stack' t)"
  by pat_completeness auto
termination
  by (relation "measure (\<lambda>(ss, stack, s). length (inbound s))") (auto dest: receive_step_shorter [OF sym])

declare receive_loop.simps [simp del]

definition receive :: "'w scp_session \<Rightarrow> string \<Rightarrow> 'w scp_state \<Rightarrow> scp_error option \<times> 'w scp_state" where
  "receive ss target s =
     (case on_fs (fs_stat (filesystem ss) target) s of (found, t) \<Rightarrow>
        (let targetIsDirectory = (case found of Inr node \<Rightarrow> is_directory node | Inl e \<Rightarrow> False)
         in if directory (command ss) \<and> \<not> targetIsDirectory then (Some (VErr ErrNotExist), t)
            else if (case found of Inl e \<Rightarrow> e \<noteq> VErr ErrNotExist | Inr node \<Rightarrow> False)
            then (case found of Inl e \<Rightarrow> (Some e, t) | Inr node \<Rightarrow> (None, t))
            else (case ack t of
                    (Inl e, u) \<Rightarrow> (Some e, u)
                  | (Inr _, u) \<Rightarrow>
                      receive_loop ss [\<lparr>target_path = target, named = targetIsDirectory\<rparr>] u)))"

section \<open>The source\<close>

definition scp_mode :: "node \<Rightarrow> uint32" where
  "scp_mode node =
     (case Permissions (attrs_of node) of
        Some p \<Rightarrow> p
      | None \<Rightarrow> if is_directory node then 493 else 420)"

definition send_times :: "'w scp_session \<Rightarrow> node \<Rightarrow> ('w scp_state, scp_error, unit) op" where
  "send_times ss node =
     (case Mtime (attrs_of node) of
        None \<Rightarrow> returnE ()
      | Some t \<Rightarrow>
          if \<not> preserve (command ss) then returnE ()
          else (let seconds = show_int (t div 1000000000) in
            bindE (channel_write (''T'' @ seconds @ '' 0 '' @ seconds @ '' 0'' @ [newline])) (\<lambda>_. await_ack)))"

definition window_of :: "int \<Rightarrow> int \<Rightarrow> int" where
  "window_of fileSize offset = min transfer_buffer (fileSize - offset)"

text \<open>The loop of \<open>sendContents\<close>; nothing is written for a read of no bytes.\<close>

definition send_window :: "bytes \<Rightarrow> 'w scp_state \<Rightarrow> scp_error option \<times> 'w scp_state" where
  "send_window data s =
     (if data = [] then (None, s)
      else (case channel_write data s of (Inl e, t) \<Rightarrow> (Some e, t) | (Inr _, t) \<Rightarrow> (None, t)))"

function send_contents :: "'w reader \<Rightarrow> int \<Rightarrow> int \<Rightarrow> ('w scp_state, scp_error, unit) op" where
  "send_contents rd fileSize offset s =
     (if fileSize \<le> offset then (Inr (), s)
      else (case on_handle (read_at rd (nat (window_of fileSize offset)) (word_of_int offset)) s of ((data, err), t) \<Rightarrow>
          (case send_window data t of
             (Some e, u) \<Rightarrow> (Inl e, u)
           | (None, u) \<Rightarrow>
               if int (length data) = window_of fileSize offset
               then send_contents rd fileSize (offset + int (length data)) u
               else (case err of
                       None \<Rightarrow> (Inl SCPProtocol, u)
                     | Some EOF \<Rightarrow> (Inl SCPProtocol, u)
                     | Some (IOErr e) \<Rightarrow> (Inl (VErr e), u)))))"
  by pat_completeness auto
termination
  by (relation "measure (\<lambda>(rd, fileSize, offset, s). nat (fileSize - offset))")
     (auto simp: window_of_def transfer_buffer_def)

declare send_contents.simps [simp del]

text \<open>What \<open>sendFile\<close> does between opening the file and closing it.\<close>

definition send_opened :: "'w scp_session \<Rightarrow> 'w reader \<Rightarrow> string \<Rightarrow> node \<Rightarrow> ('w scp_state, scp_error, unit) op" where
  "send_opened ss rd virtual node s =
     (case on_handle (read_size rd) s of
        (Inl e, t) \<Rightarrow> scp_fail virtual (VErr e) t
      | (Inr fileSize, t) \<Rightarrow>
          bindE (send_times ss node) (\<lambda>_.
          bindE (channel_write (''C'' @ show_octal4 (scp_mode node) @ '' '' @ show_int (sint fileSize) @ '' ''
                                @ entry_name node @ [newline])) (\<lambda>_.
          bindE await_ack (\<lambda>_.
          bindE (send_contents rd (sint fileSize) 0) (\<lambda>_.
          bindE ack (\<lambda>_. await_ack))))) t)"

definition send_file :: "'w scp_session \<Rightarrow> string \<Rightarrow> node \<Rightarrow> ('w scp_state, scp_error, unit) op" where
  "send_file ss virtual node s =
     (case on_fs (fs_open (filesystem ss) virtual) s of
        (Inl e, t) \<Rightarrow> scp_fail virtual e t
      | (Inr rd, t) \<Rightarrow>
          (case send_opened ss rd virtual node t of (r, u) \<Rightarrow> (r, snd (on_handle (read_close rd) u))))"

text \<open>
  Sending a tree may go on for as long as listings lead further down, but every directory
  announced takes an answer from the client. The depth is bounded by fuel, and \<open>None\<close> is
  running out of it; the fuel given by \<open>send\<close> is the number of answers left, one more than
  the directories that can be announced.
\<close>

fun send_children :: "(string \<Rightarrow> node \<Rightarrow> 'w scp_state \<Rightarrow> ((scp_error + unit) \<times> 'w scp_state) option) \<Rightarrow>
    string \<Rightarrow> node list \<Rightarrow> 'w scp_state \<Rightarrow> ((scp_error + unit) \<times> 'w scp_state) option" where
  "send_children sender virtual [] s = Some (Inr (), s)"
| "send_children sender virtual (child # rest) s =
     (case sender (path_join virtual (entry_name child)) child s of
        None \<Rightarrow> None
      | Some (Inl e, t) \<Rightarrow> Some (Inl e, t)
      | Some (Inr _, t) \<Rightarrow> send_children sender virtual rest t)"

definition announce_directory :: "'w scp_session \<Rightarrow> string \<Rightarrow> node \<Rightarrow> ('w scp_state, scp_error, unit) op" where
  "announce_directory ss name node =
     bindE (send_times ss node) (\<lambda>_.
     bindE (channel_write (''D'' @ show_octal4 (scp_mode node) @ '' 0 '' @ name @ [newline])) (\<lambda>_. await_ack))"

definition send_directory :: "(string \<Rightarrow> node \<Rightarrow> 'w scp_state \<Rightarrow> ((scp_error + unit) \<times> 'w scp_state) option) \<Rightarrow>
    'w scp_session \<Rightarrow> string \<Rightarrow> node \<Rightarrow> 'w scp_state \<Rightarrow> ((scp_error + unit) \<times> 'w scp_state) option" where
  "send_directory sender ss virtual node s =
     (let name = path_base virtual in
      if \<not> valid_name name then Some (scp_fail virtual (VErr ErrUnsupported) s)
      else (case on_fs (fs_list (filesystem ss) virtual) s of
        (Inl e, t) \<Rightarrow> Some (scp_fail virtual e t)
      | (Inr children, t) \<Rightarrow>
          (case announce_directory ss name node t of
             (Inl e, u) \<Rightarrow> Some (Inl e, u)
           | (Inr _, u) \<Rightarrow>
               (case send_children sender virtual children u of
                  None \<Rightarrow> None
                | Some (Inl e, v) \<Rightarrow> Some (Inl e, v)
                | Some (Inr _, v) \<Rightarrow> Some (bindE (channel_write [CHR ''E'', newline]) (\<lambda>_. await_ack) v)))))"

primrec send_node :: "nat \<Rightarrow> 'w scp_session \<Rightarrow> string \<Rightarrow> node \<Rightarrow> 'w scp_state \<Rightarrow>
    ((scp_error + unit) \<times> 'w scp_state) option" where
  "send_node 0 ss virtual node s = None"
| "send_node (Suc n) ss virtual node s =
     (if \<not> is_directory node then Some (send_file ss virtual node s)
      else if \<not> recursive (command ss) then Some (scp_fail virtual (VErr ErrUnsupported) s)
      else send_directory (send_node n ss) ss virtual node s)"

definition send :: "'w scp_session \<Rightarrow> string \<Rightarrow> 'w scp_state \<Rightarrow> ((scp_error + unit) \<times> 'w scp_state) option" where
  "send ss target s =
     (case await_ack s of
        (Inl e, t) \<Rightarrow> Some (Inl e, t)
      | (Inr _, t) \<Rightarrow>
          (case on_fs (fs_stat (filesystem ss) target) t of
             (Inl e, u) \<Rightarrow> Some (scp_fail target e u)
           | (Inr node, u) \<Rightarrow> send_node (Suc (length (inbound u))) ss target node u))"

section \<open>A session\<close>

definition scp_finish :: "scp_error option \<times> 'w scp_state \<Rightarrow> bool \<times> 'w scp_state" where
  "scp_finish r =
     (case r of
        (None, s) \<Rightarrow> (\<not> refused s, s)
      | (Some e, s) \<Rightarrow>
          (False, s\<lparr>stderr_out := stderr_out s @ ''scp: '' @ error_text (scp_outcome e) @ [newline]\<rparr>))"

definition scp_run :: "'w scp_session \<Rightarrow> 'w scp_state \<Rightarrow> (bool \<times> 'w scp_state) option" where
  "scp_run ss s =
     (case virtual_path (cmd_path (command ss)) of
        Inl e \<Rightarrow> Some (scp_finish (Some (VErr e), s))
      | Inr target \<Rightarrow>
          if sink (command ss) then Some (scp_finish (receive ss target s))
          else (case send ss target s of
                  None \<Rightarrow> None
                | Some (Inl e, t) \<Rightarrow> Some (scp_finish (Some e, t))
                | Some (Inr _, t) \<Rightarrow> Some (scp_finish (None, t))))"

end
