(* ===== verification/Scp_Facts.thy ===== *)
theory Scp_Facts
  imports Scp Vfs_Properties
begin

text \<open>
  What the two directions of SCP keep to. A session returns for every client; it gives back
  the slot of every upload; the bytes of a file are read off the stream whatever becomes of
  them and handed to the writer window by window; a file's announced length is the number of
  bytes that follow.
\<close>

section \<open>The source takes an answer for every directory\<close>

lemma stream_send_window [stream_rules]: "keeps (stream n k e) (send_window d)"
proof (rule keepsI)
  fix s :: "'a scp_state"
  assume "stream n k e s"
  then have "stream n k e (snd (channel_write d s))" by (rule keepsD [OF stream_primitives(3)])
  then show "stream n k e (snd (send_window d s))" using \<open>stream n k e s\<close>
    by (auto simp: send_window_def split: prod.splits sum.splits)
qed

lemma stream_await_ack [stream_rules]: "keeps (stream n k e) await_ack"
  unfolding await_ack_def[abs_def] by (intro keeps_rules stream_rules)

lemma stream_send_times [stream_rules]: "keeps (stream n k e) (send_times ss node)"
  by (auto simp: send_times_def Let_def split: option.splits intro!: keeps_rules stream_rules)

lemma stream_send_contents [stream_rules]: "keeps (stream n k e) (send_contents rd c off)"
proof (rule keepsI)
  fix s
  show "stream n k e s \<Longrightarrow> stream n k e (snd (send_contents rd c off s))"
  proof (induction rd c off s rule: send_contents.induct)
    case (1 rd fileSize offset s)
    obtain d err t where r: "on_handle (read_at rd (nat (window_of fileSize offset)) (word_of_int offset)) s = ((d, err), t)"
      by (metis surj_pair)
    obtain x u where w: "send_window d t = (x, u)" by (metis surj_pair)
    have "stream n k e u"
      using keepsD' [OF stream_send_window _ w] keepsD' [OF stream_primitives(2) 1(2) r] by blast
    then show ?case
      using 1 r w by (subst send_contents.simps) (auto split: option.splits io_error.splits)
  qed
qed

lemma stream_send_opened [stream_rules]: "keeps (stream n k e) (send_opened ss rd v node)"
  unfolding send_opened_def[abs_def] by (intro keeps_rules stream_rules)

lemma stream_send_file [stream_rules]: "keeps (stream n k e) (send_file ss v node)"
  unfolding send_file_def[abs_def] by (intro keeps_rules stream_rules)

lemma stream_announce [stream_rules]: "keeps (stream n k e) (announce_directory ss name node)"
  unfolding announce_directory_def by (intro keeps_rules stream_rules)

text \<open>The answer the client gives to the announcement is a byte taken from the stream.\<close>

lemma await_ack_takes: "await_ack s = (Inr (), t) \<Longrightarrow> length (inbound t) < length (inbound s)"
  by (auto simp: await_ack_def read_byte_def read_full_def split: prod.splits sum.splits if_splits)

lemma stream_self: "stream (length (inbound s)) (slots s) (inbound_end s) s"
  by (simp add: stream_def)

lemma announce_takes:
  assumes "announce_directory ss name node s = (Inr (), t)"
  shows "length (inbound t) < length (inbound s)"
proof -
  obtain u where u: "bindE (send_times ss node) (\<lambda>_.
      channel_write (''D'' @ show_octal4 (scp_mode node) @ '' 0 '' @ name @ [newline])) s = (Inr (), u)"
    and t: "await_ack u = (Inr (), t)"
    using assms by (auto simp: announce_directory_def bindE_Inr_iff)
  have "keeps (stream (length (inbound s)) (slots s) (inbound_end s)) (bindE (send_times ss node) (\<lambda>_.
      channel_write (''D'' @ show_octal4 (scp_mode node) @ '' 0 '' @ name @ [newline])))"
    by (intro keeps_rules stream_rules)
  from keepsD' [OF this stream_self u] have "length (inbound u) \<le> length (inbound s)" by (simp add: stream_def)
  then show ?thesis using await_ack_takes [OF t] by simp
qed

section \<open>A session returns\<close>

lemma pair_with: "P (snd p) \<Longrightarrow> \<exists>r t. p = (r, t) \<and> P t"
  by (metis surj_pair snd_conv)

text \<open>A sender that answers whenever fewer than \<open>m\<close> bytes are left, and puts none back.\<close>

definition answers :: "nat \<Rightarrow> (string \<Rightarrow> node \<Rightarrow> 'w scp_state \<Rightarrow> ((scp_error + unit) \<times> 'w scp_state) option) \<Rightarrow> bool" where
  "answers m sender \<longleftrightarrow> (\<forall>v node s. length (inbound s) < m \<longrightarrow>
     (\<exists>r t. sender v node s = Some (r, t) \<and> stream (length (inbound s)) (slots s) (inbound_end s) t))"

lemma send_children_answers:
  assumes "answers m sender" and "length (inbound s) < m"
  shows "\<exists>r t. send_children sender v cs s = Some (r, t) \<and>
           stream (length (inbound s)) (slots s) (inbound_end s) t"
  using assms(2)
proof (induction cs arbitrary: s)
  case Nil
  then show ?case by (simp add: stream_def)
next
  case (Cons c cs)
  obtain r t where r: "sender (path_join v (entry_name c)) c s = Some (r, t)"
      "stream (length (inbound s)) (slots s) (inbound_end s) t"
    using assms(1) Cons.prems by (metis answers_def)
  show ?case
  proof (cases r)
    case (Inl e)
    then show ?thesis using r by simp
  next
    case (Inr x)
    have "length (inbound t) < m" using r(2) Cons.prems by (simp add: stream_def)
    from Cons.IH [OF this] show ?thesis using r Inr by (auto simp: stream_def)
  qed
qed

lemma send_directory_answers:
  assumes "answers m sender" and "length (inbound s) \<le> m"
  shows "\<exists>r t. send_directory sender ss v node s = Some (r, t) \<and>
           stream (length (inbound s)) (slots s) (inbound_end s) t"
proof -
  let ?R = "stream (length (inbound s)) (slots s) (inbound_end s)"
  obtain r t where l: "on_fs (fs_list (filesystem ss) v) s = (r, t)" by (metis surj_pair)
  have t: "?R t" using keepsD' [OF stream_primitives(1) stream_self l] .
  have f: "\<exists>a b. scp_fail v x t = (a, b) \<and> ?R b" "\<exists>a b. scp_fail v x s = (a, b) \<and> ?R b" for x
    using pair_with [of ?R, OF keepsD [OF stream_primitives(5) t]]
      pair_with [of ?R, OF keepsD [OF stream_primitives(5) stream_self]] by blast+
  show ?thesis
  proof (cases "valid_name (path_base v) \<and> (\<exists>cs. r = Inr cs)")
    case True
    then obtain cs where cs: "r = Inr cs" by blast
    obtain a u where a: "announce_directory ss (path_base v) node t = (a, u)" by (metis surj_pair)
    have u: "?R u" using keepsD' [OF stream_announce t a] .
    show ?thesis
    proof (cases a)
      case (Inl e)
      then show ?thesis using True l cs a u by (simp add: send_directory_def)
    next
      case (Inr y)
      have "length (inbound u) < m" using announce_takes [of ss "path_base v" node t u] a Inr t assms(2) by (simp add: stream_def)
      from send_children_answers [OF assms(1) this] obtain b x where
        b: "send_children sender v cs u = Some (b, x)" "stream (length (inbound u)) (slots u) (inbound_end u) x"
        by blast
      have x: "?R x" using b(2) u by (simp add: stream_def)
      have "keeps ?R (bindE (channel_write [CHR ''E'', newline]) (\<lambda>_. await_ack))"
        by (intro keeps_rules stream_rules)
      from pair_with [of ?R, OF keepsD [OF this x]] show ?thesis using True l cs a Inr b(1) x
        by (cases b) (auto simp: send_directory_def)
    qed
  next
    case False
    then show ?thesis using l f by (cases r) (auto simp: send_directory_def Let_def)
  qed
qed

lemma send_node_answers: "answers m (send_node m ss)"
proof (induction m)
  case 0
  then show ?case by (simp add: answers_def)
next
  case (Suc m)
  show ?case unfolding answers_def
  proof (intro allI impI)
    fix v node and s :: "'a scp_state"
    assume "length (inbound s) < Suc m"
    then have d: "\<exists>r t. send_directory (send_node m ss) ss v node s = Some (r, t) \<and>
        stream (length (inbound s)) (slots s) (inbound_end s) t"
      by (intro send_directory_answers [OF Suc]) simp
    have "stream (length (inbound s)) (slots s) (inbound_end s) (snd (send_file ss v node s))"
      "stream (length (inbound s)) (slots s) (inbound_end s) (snd (scp_fail v x s))" for x
      using keepsD [OF stream_send_file stream_self] keepsD [OF stream_primitives(5) stream_self] by auto
    then show "\<exists>r t. send_node (Suc m) ss v node s = Some (r, t) \<and>
        stream (length (inbound s)) (slots s) (inbound_end s) t"
      using d by (auto simp: prod_eq_iff)
  qed
qed


text \<open>More fuel changes nothing once there is an answer.\<close>

definition extends :: "(string \<Rightarrow> node \<Rightarrow> 'w scp_state \<Rightarrow> ((scp_error + unit) \<times> 'w scp_state) option) \<Rightarrow>
    (string \<Rightarrow> node \<Rightarrow> 'w scp_state \<Rightarrow> ((scp_error + unit) \<times> 'w scp_state) option) \<Rightarrow> bool" where
  "extends f g \<longleftrightarrow> (\<forall>v node s r. f v node s = Some r \<longrightarrow> g v node s = Some r)"

lemma extends_children:
  assumes "extends f g"
  shows "send_children f v cs s = Some r \<Longrightarrow> send_children g v cs s = Some r"
proof (induction cs arbitrary: s)
  case (Cons c cs)
  then obtain x t where x: "f (path_join v (entry_name c)) c s = Some (x, t)"
    by (auto split: option.splits)
  then have "g (path_join v (entry_name c)) c s = Some (x, t)" using assms by (simp add: extends_def)
  then show ?case using Cons x by (cases x) auto
qed simp

lemma extends_directory:
  assumes "extends f g" and "send_directory f ss v node s = Some r"
  shows "send_directory g ss v node s = Some r"
proof -
  obtain l t where l: "on_fs (fs_list (filesystem ss) v) s = (l, t)" by (metis surj_pair)
  obtain a u where a: "announce_directory ss (path_base v) node t = (a, u)" by (metis surj_pair)
  show ?thesis
  proof (cases "\<exists>cs. l = Inr cs \<and> a = Inr () \<and> valid_name (path_base v)")
    case True
    then obtain cs where cs: "l = Inr cs" "a = Inr ()" "valid_name (path_base v)" by blast
    obtain b where b: "send_children f v cs u = Some b"
      using assms(2) cs l a by (auto simp: send_directory_def split: option.splits)
    then show ?thesis using assms(2) extends_children [OF assms(1) b] cs l a
      by (simp add: send_directory_def)
  next
    case False
    then show ?thesis using assms(2) l a
      by (cases l; cases a) (auto simp: send_directory_def Let_def split: if_splits)
  qed
qed

lemma send_node_extends: "extends (send_node n ss) (send_node (Suc n) ss)"
proof (induction n)
  case 0
  then show ?case by (simp add: extends_def)
next
  case (Suc n)
  show ?case unfolding extends_def
  proof (intro allI impI)
    fix v node s r
    assume a: "send_node (Suc n) ss v node s = Some r"
    show "send_node (Suc (Suc n)) ss v node s = Some r"
      using a extends_directory [OF Suc, of ss v node s r]
      unfolding send_node.simps(2) [of n ss v node s] send_node.simps(2) [of "Suc n" ss v node s]
      by (cases "is_directory node"; cases "recursive (command ss)") (simp_all only: if_True if_False simp_thms)
  qed
qed

lemma send_node_more: "send_node n ss v node s = Some r \<Longrightarrow> n \<le> m \<Longrightarrow> send_node m ss v node s = Some r"
proof (induction m)
  case (Suc m)
  then show ?case
    using send_node_extends [of m ss] unfolding extends_def by (metis le_SucE)
qed simp

lemma send_node_fuel:
  "\<exists>r t. (\<forall>n > length (inbound s). send_node n ss v node s = Some (r, t)) \<and>
         stream (length (inbound s)) (slots s) (inbound_end s) t"
proof -
  obtain r t where "send_node (Suc (length (inbound s))) ss v node s = Some (r, t)"
      "stream (length (inbound s)) (slots s) (inbound_end s) t"
    using send_node_answers [of "Suc (length (inbound s))" ss] unfolding answers_def by blast
  then show ?thesis using send_node_more [of "Suc (length (inbound s))" ss v node s] by (metis Suc_leI)
qed

lemma send_answers: "\<exists>r t. send ss target s = Some (r, t) \<and> stream (length (inbound s)) (slots s) (inbound_end s) t"
proof -
  let ?R = "stream (length (inbound s)) (slots s) (inbound_end s)"
  obtain a t where a: "await_ack s = (a, t)" by (metis surj_pair)
  obtain b u where b: "on_fs (fs_stat (filesystem ss) target) t = (b, u)" by (metis surj_pair)
  have t: "?R t" using keepsD' [OF stream_await_ack stream_self a] .
  have u: "?R u" using keepsD' [OF stream_primitives(1) t b] .
  have f: "?R (snd (scp_fail target e u))" for e using keepsD [OF stream_primitives(5) u] .
  show ?thesis
  proof (cases b)
    case (Inl e)
    then show ?thesis using a b t pair_with [of ?R, OF f [of e]] by (cases a) (auto simp: send_def)
  next
    case (Inr node)
    obtain r x where "send_node (Suc (length (inbound u))) ss target node u = Some (r, x)"
        "stream (length (inbound u)) (slots u) (inbound_end u) x"
      using send_node_fuel [of u ss target node] by auto
    then show ?thesis using a b t u Inr by (cases a) (auto simp: send_def stream_def)
  qed
qed

lemma stream_receive_loop: "stream n k e s \<Longrightarrow> stream n k e (snd (receive_loop ss stack s))"
proof (induction ss stack s rule: receive_loop.induct)
  case (1 ss stack s)
  obtain r t where r: "receive_step ss stack s = (r, t)" by (metis surj_pair)
  have "stream n k e t" using keepsD' [OF stream_receive_step 1(2) r] .
  then show ?case using 1 r by (subst receive_loop.simps) (auto split: sum.splits)
qed

lemma stream_receive: "keeps (stream n k e) (receive ss target)"
proof (rule keepsI)
  fix s :: "'a scp_state"
  assume s: "stream n k e s"
  obtain b t where b: "on_fs (fs_stat (filesystem ss) target) s = (b, t)" by (metis surj_pair)
  have t: "stream n k e t" using keepsD' [OF stream_primitives(1) s b] .
  obtain a u where a: "ack t = (a, u)" by (metis surj_pair)
  have u: "stream n k e u" using keepsD' [OF stream_primitives(4) t a] .
  show "stream n k e (snd (receive ss target s))"
    using b a t u stream_receive_loop by (auto simp: receive_def Let_def split: sum.splits)
qed

lemma stream_finish: "stream n k e s \<Longrightarrow> stream n k e (snd (scp_finish (r, s)))"
  by (cases r) (simp_all add: scp_finish_def stream_def)

lemma scp_run_stream: "\<exists>ok t. scp_run ss s = Some (ok, t) \<and> stream (length (inbound s)) (slots s) (inbound_end s) t"
proof -
  let ?R = "stream (length (inbound s)) (slots s) (inbound_end s)"
  have f: "?R t \<Longrightarrow> \<exists>ok u. scp_finish (r, t) = (ok, u) \<and> ?R u" for r t
    using stream_finish by (metis snd_conv surj_pair)
  show ?thesis
  proof (cases "virtual_path (cmd_path (command ss))")
    case (Inl e)
    then show ?thesis using f [OF stream_self] by (simp add: scp_run_def)
  next
    case (Inr target)
    obtain r t where r: "receive ss target s = (r, t)" by (metis surj_pair)
    have t: "?R t" using keepsD' [OF stream_receive stream_self r] .
    obtain b u where u: "send ss target s = Some (b, u)" "?R u" using send_answers by blast
    show ?thesis using Inr r f [OF t] u(1) f [OF u(2)]
      by (cases b) (auto simp: scp_run_def)
  qed
qed


section \<open>The contents of a file, window by window\<close>

function windows :: "bytes \<Rightarrow> bytes list" where
  "windows d = (if d = [] then [] else take (nat transfer_buffer) d # windows (drop (nat transfer_buffer) d))"
  by pat_completeness auto
termination
  by (relation "measure length") (simp_all add: transfer_buffer_def)

declare windows.simps [simp del]

lemma windows_Nil [simp]: "windows [] = []"
  by (simp add: windows.simps)

lemma concat_windows: "concat (windows d) = d"
proof (induction d rule: windows.induct)
  case (1 d)
  then show ?case by (subst windows.simps) simp
qed

lemma windows_not_Nil: "w \<in> set (windows d) \<Longrightarrow> w \<noteq> []"
proof (induction d rule: windows.induct)
  case (1 d)
  then show ?case by (subst (asm) windows.simps) (auto simp: transfer_buffer_def split: if_splits)
qed

text \<open>The windows of a file given to a writer one after another.\<close>

fun store_all :: "'w writer \<Rightarrow> bytes list \<Rightarrow> int64 \<Rightarrow> verror option \<Rightarrow> 'w scp_state \<Rightarrow>
    (int64 \<times> verror option) \<times> 'w scp_state" where
  "store_all wr [] off failure s = ((off, failure), s)"
| "store_all wr (d # ds) off failure s =
     (case store_window wr d off failure s of ((off', failure'), t) \<Rightarrow> store_all wr ds off' failure' t)"

lemma store_window_inbound:
  "store_window wr d off failure (s\<lparr>inbound := i\<rparr>) =
     (case store_window wr d off failure s of (r, t) \<Rightarrow> (r, t\<lparr>inbound := i\<rparr>))"
  by (auto simp: store_window_def on_handle_def split: prod.splits)

lemma store_window_keeps_inbound: "store_window wr d off failure s = (r, t) \<Longrightarrow> inbound t = inbound s"
  by (auto simp: store_window_def on_handle_def split: prod.splits if_splits)

lemma store_window_empty [simp]: "store_window wr [] off failure s = ((off, failure), s)"
  by (simp add: store_window_def)

lemma store_all_inbound:
  "store_all wr ds off failure (s\<lparr>inbound := i\<rparr>) =
     (case store_all wr ds off failure s of (r, t) \<Rightarrow> (r, t\<lparr>inbound := i\<rparr>))"
proof (induction ds arbitrary: off failure s)
  case (Cons d ds)
  show ?case
    using Cons by (simp add: store_window_inbound split: prod.splits)
qed simp

text \<open>
  What the loop of \<open>receiveContents\<close> does, without the stream: the bytes that are there, up to
  the size announced, are taken off the stream whatever the writer answers.
\<close>

definition take_contents :: "'w writer \<Rightarrow> int \<Rightarrow> int64 \<Rightarrow> verror option \<Rightarrow> 'w scp_state \<Rightarrow>
    scp_error option \<times> 'w scp_state" where
  "take_contents wr fileSize off failure s =
     (case store_all wr (windows (take (nat fileSize) (inbound s))) off failure
             (s\<lparr>inbound := drop (nat fileSize) (inbound s)\<rparr>) of
        ((off', failure'), t) \<Rightarrow>
          (if int (length (inbound s)) < fileSize then Some SCPProtocol else map_option VErr failure', t))"

lemma receive_contents_take: "receive_contents wr c off failure s = take_contents wr c off failure s"
proof (induction wr c off failure s rule: receive_contents.induct)
  case (1 wr remaining off failure s)
  let ?b = "nat transfer_buffer"
  have b: "0 < transfer_buffer" by (simp add: transfer_buffer_def)
  show ?case
  proof (cases "remaining \<le> 0")
    case True
    then show ?thesis by (subst receive_contents.simps) (simp add: take_contents_def)
  next
    case False
    let ?n = "nat (min transfer_buffer remaining)"
    let ?i = "inbound s"
    let ?t = "s\<lparr>inbound := drop ?n ?i\<rparr>"
    have r: "read_full ?n s = ((take ?n ?i, length ?i < ?n), ?t)"
      by (simp add: read_full_def)
    obtain o' f' u where w: "store_window wr (take ?n ?i) off failure ?t = ((o', f'), u)" by (metis surj_pair)
    have ui: "inbound u = drop ?n ?i" using store_window_keeps_inbound [OF w] by simp
    have n: "int ?n = min transfer_buffer remaining" "0 < ?n" "?n \<le> nat remaining" using False b by auto
    have tk: "take ?b (take (nat remaining) ?i) = take ?n ?i"
      using False b by (auto simp: min_def nat_le_iff)
    have w': "store_window wr (take ?n ?i) off failure (s\<lparr>inbound := j\<rparr>) = ((o', f'), u\<lparr>inbound := j\<rparr>)" for j
      using store_window_inbound [where s = ?t and i = j] w by simp
    show ?thesis
    proof (cases "length ?i < ?n")
      case True
      then have "take (nat remaining) ?i = ?i" "take ?n ?i = ?i" "drop ?n ?i = []" "drop (nat remaining) ?i = []"
        "int (length ?i) < remaining" "drop ?b ?i = []"
        using n by auto
      then have "store_all wr (windows ?i) off failure (s\<lparr>inbound := []\<rparr>) = ((o', f'), u)"
        using w tk by (cases "?i = []") (auto simp: windows.simps [of ?i])
      then show ?thesis using False True w r \<open>take (nat remaining) ?i = ?i\<close> \<open>drop (nat remaining) ?i = []\<close>
          \<open>int (length ?i) < remaining\<close>
        by (subst receive_contents.simps) (simp add: take_contents_def)
    next
      case enough: False
      then have l: "int (length (take ?n ?i)) = int ?n" by simp
      have "?i \<noteq> []" using enough n by auto
      then have ne: "take (nat remaining) ?i \<noteq> []" using False by simp
      have dd: "drop ?b (take (nat remaining) ?i) = take (nat (remaining - int ?n)) (drop ?n ?i)"
        using False b n by (cases "transfer_buffer \<le> remaining") (auto simp: drop_take nat_diff_distrib min_def)
      have d2: "drop (nat (remaining - int ?n)) (drop ?n ?i) = drop (nat remaining) ?i"
        using n by (simp add: nat_diff_distrib)
      have rec: "receive_contents wr (remaining - int ?n) o' f' u = take_contents wr (remaining - int ?n) o' f' u"
        using 1 [OF False r [symmetric] refl w [symmetric] refl] enough l by (simp del: length_take)
      have "receive_contents wr remaining off failure s = take_contents wr (remaining - int ?n) o' f' u"
        using False enough r w l rec by (subst receive_contents.simps) simp
      also have "\<dots> = take_contents wr remaining off failure s"
      proof -
        have st: "store_all wr (windows (take (nat remaining) ?i)) off failure (s\<lparr>inbound := drop (nat remaining) ?i\<rparr>) =
            store_all wr (windows (take (nat (remaining - int ?n)) (drop ?n ?i))) o' f'
              (u\<lparr>inbound := drop (nat remaining) ?i\<rparr>)"
          by (subst windows.simps) (simp only: ne tk dd store_all.simps w' if_False prod.case)
        have len: "int (length (drop ?n ?i)) < remaining - int ?n \<longleftrightarrow> int (length ?i) < remaining"
          using enough n by simp
        show ?thesis unfolding take_contents_def ui d2 st len ..
      qed
      finally show ?thesis .
    qed
  qed
qed


section \<open>What the client of a download sees\<close>

lemma channel_write_sent: "channel_write d s = (Inr x, t) \<Longrightarrow> outbound t = outbound s @ d"
  by (auto simp: channel_write_def split: list.splits option.splits)

lemma outbound_on_fs: "on_fs m s = (r, t) \<Longrightarrow> outbound t = outbound s"
  by (auto simp: on_fs_def split: prod.splits sum.splits)

lemma outbound_on_handle: "on_handle m s = (r, t) \<Longrightarrow> outbound t = outbound s"
  by (auto simp: on_handle_def split: prod.splits)

lemma await_ack_sent: "await_ack s = (Inr x, t) \<Longrightarrow> outbound t = outbound s"
  by (auto simp: await_ack_def read_byte_def read_full_def split: prod.splits sum.splits if_splits)

lemma ack_sent: "ack s = (Inr x, t) \<Longrightarrow> outbound t = outbound s @ [scp_ok]"
  by (simp add: ack_def channel_write_sent)

lemmas sent = channel_write_sent await_ack_sent ack_sent outbound_on_fs outbound_on_handle

text \<open>The lines the source writes.\<close>

definition failure_line :: "string \<Rightarrow> scp_error \<Rightarrow> string" where
  "failure_line virtual cause =
     scp_warning # ''scp: '' @ virtual @ '': '' @ error_text (scp_outcome cause) @ [newline]"

definition times_line :: "'w scp_session \<Rightarrow> node \<Rightarrow> string" where
  "times_line ss node =
     (case Mtime (attrs_of node) of
        None \<Rightarrow> []
      | Some t \<Rightarrow> if preserve (command ss)
          then ''T'' @ show_int (t div 1000000000) @ '' 0 '' @ show_int (t div 1000000000) @ '' 0'' @ [newline]
          else [])"

definition file_header :: "node \<Rightarrow> int \<Rightarrow> string" where
  "file_header node n = ''C'' @ show_octal4 (scp_mode node) @ '' '' @ show_int n @ '' '' @ entry_name node"

lemma scp_fail_sent: "scp_fail v e s = (Inr x, t) \<Longrightarrow> outbound t = outbound s @ failure_line v e"
  by (auto simp: scp_fail_def failure_line_def dest!: channel_write_sent)

lemma send_times_sent: "send_times ss node s = (Inr x, t) \<Longrightarrow> outbound t = outbound s @ times_line ss node"
  by (auto simp: send_times_def times_line_def Let_def bindE_Inr_iff split: option.splits if_splits dest!: sent)

lemma send_window_sent: "send_window d s = (None, t) \<Longrightarrow> outbound t = outbound s @ d"
  by (auto simp: send_window_def split: if_splits prod.splits sum.splits dest!: sent)

text \<open>
  The file as a session sees it: the reader opened, its length asked for, the windows of that
  length read one after another, each of which must come whole, and the reader closed. No
  channel has a part in it.
\<close>

function windows_read :: "'w reader \<Rightarrow> int \<Rightarrow> int \<Rightarrow> 'w fs_state \<Rightarrow> bytes option \<times> 'w fs_state" where
  "windows_read rd fileSize offset st =
     (if fileSize \<le> offset then (Some [], st)
      else (case on_world (read_at rd (nat (window_of fileSize offset)) (word_of_int offset)) st of ((data, err), u) \<Rightarrow>
        if int (length data) = window_of fileSize offset
        then (case windows_read rd fileSize (offset + int (length data)) u of
                (r, v) \<Rightarrow> (map_option (\<lambda>rest. data @ rest) r, v))
        else (None, u)))"
  by pat_completeness auto
termination
  by (relation "measure (\<lambda>(rd, fileSize, offset, s). nat (fileSize - offset))")
     (auto simp: window_of_def transfer_buffer_def)

declare windows_read.simps [simp del]

definition file_read :: "'w fs \<Rightarrow> string \<Rightarrow> 'w fs_state \<Rightarrow> (verror + int \<times> bytes option) \<times> 'w fs_state" where
  "file_read f virtual st =
     (case fs_open f virtual st of
        (Inl e, t) \<Rightarrow> (Inl e, t)
      | (Inr rd, t) \<Rightarrow>
          (case on_world (read_size rd) t of
             (Inl e, u) \<Rightarrow> (Inl e, snd (on_world (read_close rd) u))
           | (Inr n, u) \<Rightarrow>
               (case windows_read rd (sint n) 0 u of
                  (r, v) \<Rightarrow> (Inr (sint n, r), snd (on_world (read_close rd) v)))))"

lemma channel_write_served: "channel_write d s = (r, t) \<Longrightarrow> served t = served s \<and> inbound t = inbound s"
  by (auto simp: channel_write_def split: list.splits option.splits)

lemma await_ack_served: "await_ack s = (Inr x, t) \<Longrightarrow> served t = served s"
  by (auto simp: await_ack_def read_byte_def read_full_def split: prod.splits sum.splits if_splits)

lemma send_times_served: "send_times ss node s = (Inr x, t) \<Longrightarrow> served t = served s"
  by (auto simp: send_times_def Let_def bindE_Inr_iff split: option.splits if_splits
      dest!: channel_write_served await_ack_served)

lemma send_window_served: "send_window d s = (r, t) \<Longrightarrow> served t = served s \<and> inbound t = inbound s"
  by (auto simp: send_window_def split: if_splits prod.splits sum.splits dest!: channel_write_served)

lemma on_handle_served: "on_handle m s = (r, t) \<Longrightarrow> on_world m (served s) = (r, served t) \<and> inbound t = inbound s \<and> write_plan t = write_plan s"
  by (auto simp: on_handle_def split: prod.splits)

lemma windows_read_length:
  "windows_read rd n off st = (Some data, st') \<Longrightarrow> int (length data) = max 0 (n - off)"
proof (induction rd n off st arbitrary: data st' rule: windows_read.induct)
  case (1 rd n off st)
  show ?case
  proof (cases "n \<le> off")
    case True
    then show ?thesis using 1(2) by (simp add: windows_read.simps)
  next
    case False
    obtain d e u where r: "on_world (read_at rd (nat (window_of n off)) (word_of_int off)) st = ((d, e), u)"
      by (metis surj_pair)
    obtain y v where w: "windows_read rd n (off + int (length d)) u = (y, v)" by (metis surj_pair)
    have k: "int (length d) = window_of n off" "map_option (\<lambda>rest. d @ rest) y = Some data"
      using 1(2) False r w by (subst (asm) windows_read.simps; simp split: if_splits)+
    obtain rest where rest: "y = Some rest" "data = d @ rest" using k(2) by auto
    from 1(1) [OF False r [symmetric] refl k(1) w [unfolded rest(1)]] show ?thesis
      using k(1) rest(2) False by (simp add: window_of_def)
  qed
qed

lemma send_contents_sent:
  "send_contents rd n off s = (Inr x, t) \<Longrightarrow>
     \<exists>data. windows_read rd n off (served s) = (Some data, served t) \<and> outbound t = outbound s @ data"
proof (induction rd n off s rule: send_contents.induct)
  case (1 rd n off s)
  show ?case
  proof (cases "n \<le> off")
    case True
    then show ?thesis using 1(2) by (simp add: send_contents.simps windows_read.simps)
  next
    case False
    obtain d err u where r: "on_handle (read_at rd (nat (window_of n off)) (word_of_int off)) s = ((d, err), u)"
      by (metis surj_pair)
    obtain y v where w: "send_window d u = (y, v)" by (metis surj_pair)
    have "y = None \<and> int (length d) = window_of n off \<and> send_contents rd n (off + int (length d)) v = (Inr x, t)"
      using 1(2) False r w by (subst (asm) send_contents.simps) (auto split: option.splits io_error.splits if_splits)
    then have k: "y = None" "int (length d) = window_of n off" "send_contents rd n (off + int (length d)) v = (Inr x, t)"
      by auto
    obtain data where data: "windows_read rd n (off + int (length d)) (served v) = (Some data, served t)"
        "outbound t = outbound v @ data"
      using 1(1) [OF False r [symmetric] refl w [symmetric] k(1,2,3)] by blast
    have "outbound v = outbound s @ d" using send_window_sent w k(1) outbound_on_handle [OF r] by metis
    moreover have "windows_read rd n off (served s) = (Some (d @ data), served t)"
      using on_handle_served [OF r] send_window_served [OF w] data(1) k(2) False
      by (subst windows_read.simps) simp
    ultimately show ?thesis using data(2) by simp
  qed
qed

lemma send_contents_sends:
  "windows_read rd n off (served s) = (Some data, st) \<Longrightarrow> write_plan s = [] \<Longrightarrow>
     \<exists>t. send_contents rd n off s = (Inr (), t) \<and> write_plan t = [] \<and> inbound t = inbound s"
proof (induction rd n off s arbitrary: data rule: send_contents.induct)
  case (1 rd n off s)
  show ?case
  proof (cases "n \<le> off")
    case True
    then show ?thesis using 1(3) by (simp add: send_contents.simps)
  next
    case False
    obtain d err u where r: "on_handle (read_at rd (nat (window_of n off)) (word_of_int off)) s = ((d, err), u)"
      by (metis surj_pair)
    note u = on_handle_served [OF r]
    have plan: "write_plan u = []" using r 1(3) by (auto simp: on_handle_def split: prod.splits)
    obtain y v where y: "windows_read rd n (off + int (length d)) (served u) = (y, v)" by (metis surj_pair)
    have k: "int (length d) = window_of n off" "map_option (\<lambda>rest. d @ rest) y = Some data" "v = st"
      using 1(2) False u y by (subst (asm) windows_read.simps; simp split: if_splits)+
    obtain rest where rest: "y = Some rest" using k(2) by auto
    obtain u' where w: "send_window d u = (None, u')" "write_plan u' = []" "served u' = served u" "inbound u' = inbound u"
      using plan by (cases "d = []") (simp_all add: send_window_def channel_write_def)
    have "windows_read rd n (off + int (length d)) (served u') = (Some rest, st)"
      using y rest k(3) w(3) by simp
    from 1(1) [OF False r [symmetric] refl w(1) [symmetric] refl k(1) this w(2)] obtain t
      where "send_contents rd n (off + int (length d)) u' = (Inr (), t)" "write_plan t = []" "inbound t = inbound u'"
      by blast
    then show ?thesis using False r w k(1) u by (subst send_contents.simps) simp
  qed
qed

lemma send_file_sent:
  assumes "send_file ss v node s = (Inr (), t)"
  shows "case file_read (filesystem ss) v (served s) of
           (Inl e, st) \<Rightarrow> served t = st \<and> outbound t = outbound s @ failure_line v (VErr e)
         | (Inr (n, None), st) \<Rightarrow> False
         | (Inr (n, Some data), st) \<Rightarrow> served t = st \<and> int (length data) = max 0 n \<and>
             outbound t = outbound s @ times_line ss node @ file_header node n @ newline # data @ [scp_ok]"
proof -
  obtain r u where o: "fs_open (filesystem ss) v (served s) = (r, u)" by (metis surj_pair)
  show ?thesis
  proof (cases r)
    case (Inl e)
    then have f: "scp_fail v (VErr e) (s\<lparr>served := u\<rparr>) = (Inr (), t)"
      using assms o by (simp add: send_file_def on_fs_def)
    have "served t = u" using f by (auto simp: scp_fail_def dest!: channel_write_served)
    then show ?thesis using scp_fail_sent [OF f] Inl o by (simp add: file_read_def)
  next
    case (Inr rd)
    let ?u = "s\<lparr>served := u\<rparr>"
    obtain x where x: "send_opened ss rd v node ?u = (Inr (), x)" "outbound t = outbound x"
        "served t = snd (on_world (read_close rd) (served x))"
      using assms o Inr by (auto simp: send_file_def on_fs_def on_handle_def split: prod.splits)
    obtain a y where a: "on_handle (read_size rd) ?u = (a, y)" by (metis surj_pair)
    have y: "outbound y = outbound s" "on_world (read_size rd) u = (a, served y)"
      using outbound_on_handle [OF a] on_handle_served [OF a] by simp_all
    show ?thesis
    proof (cases a)
      case (Inl e)
      then have f: "scp_fail v (VErr e) y = (Inr (), x)" using x(1) a by (simp add: send_opened_def)
      have "served x = served y" using f by (auto simp: scp_fail_def dest!: channel_write_served)
      then show ?thesis using scp_fail_sent [OF f] x y Inl Inr o by (simp add: file_read_def)
    next
      case n: (Inr n)
      obtain s1 s2 s3 s4 s5 where st: "send_times ss node y = (Inr (), s1)"
        "channel_write (''C'' @ show_octal4 (scp_mode node) @ '' '' @ show_int (sint n) @ '' '' @ entry_name node @ [newline]) s1 = (Inr (), s2)"
        "await_ack s2 = (Inr (), s3)" "send_contents rd (sint n) 0 s3 = (Inr (), s4)" "ack s4 = (Inr (), s5)"
        "await_ack s5 = (Inr (), x)"
        using x(1) a n by (auto simp: send_opened_def bindE_Inr_iff)
      obtain data where d: "windows_read rd (sint n) 0 (served s3) = (Some data, served s4)" "outbound s4 = outbound s3 @ data"
        using send_contents_sent [OF st(4)] by auto
      have "served s3 = served y" "served x = served s4"
        using send_times_served [OF st(1)] channel_write_served [OF st(2)] await_ack_served [OF st(3)]
          channel_write_served [OF st(5) [unfolded ack_def]] await_ack_served [OF st(6)] by simp_all
      then have "file_read (filesystem ss) v (served s) = (Inr (sint n, Some data), served t)"
        using o Inr y(2) n d(1) x(3) by (simp add: file_read_def)
      moreover have "outbound t = outbound s @ times_line ss node @ file_header node (sint n) @ newline # data @ [scp_ok]"
        using sent(1) [OF st(2)] sent(2) [OF st(3)] sent(2) [OF st(6)] sent(3) [OF st(5)] send_times_sent [OF st(1)] d(2) x(2) y(1)
        by (simp add: file_header_def)
      ultimately show ?thesis using windows_read_length [OF d(1)] by simp
    qed
  qed
qed

text \<open>With a channel that takes what is written and a client that acknowledges, nothing else comes of it.\<close>

lemma await_ack_ok: "inbound s = scp_ok # rest \<Longrightarrow> await_ack s = (Inr (), s\<lparr>inbound := rest\<rparr>)"
  by (simp add: await_ack_def read_byte_def read_full_def)

lemma channel_write_ok: "write_plan s = [] \<Longrightarrow> channel_write d s = (Inr (), s\<lparr>outbound := outbound s @ d\<rparr>)"
  by (simp add: channel_write_def)

definition acks_awaited :: "'w scp_session \<Rightarrow> node \<Rightarrow> nat" where
  "acks_awaited ss node = (if times_line ss node = [] then 2 else 3)"

lemma send_file_sends:
  assumes "write_plan s = []" and "inbound s = replicate (acks_awaited ss node) scp_ok @ rest"
    and "\<And>n. fst (file_read (filesystem ss) v (served s)) \<noteq> Inr (n, None)"
  shows "\<exists>t. send_file ss v node s = (Inr (), t)"
proof -
  obtain r u where o: "fs_open (filesystem ss) v (served s) = (r, u)" by (metis surj_pair)
  show ?thesis
  proof (cases r)
    case (Inl e)
    then show ?thesis using assms(1) o
      by (simp add: send_file_def on_fs_def scp_fail_def channel_write_ok)
  next
    case (Inr rd)
    let ?u = "s\<lparr>served := u\<rparr>"
    obtain a y where a: "on_handle (read_size rd) ?u = (a, y)" by (metis surj_pair)
    have y: "write_plan y = []" "inbound y = inbound s" "on_world (read_size rd) u = (a, served y)"
      using on_handle_served [OF a] assms(1) by simp_all
    have "\<exists>x. send_opened ss rd v node ?u = (Inr (), x)"
    proof (cases a)
      case (Inl e)
      then show ?thesis using a y(1) by (simp add: send_opened_def scp_fail_def channel_write_ok)
    next
      case n: (Inr n)
      obtain w st where w: "windows_read rd (sint n) 0 (served y) = (w, st)" by (metis surj_pair)
      then have "w \<noteq> None" using assms(3) [of "sint n"] o Inr y(3) n by (auto simp: file_read_def split: prod.splits)
      then obtain data where data: "w = Some data" by blast
      have "\<exists>s1. send_times ss node y = (Inr (), s1) \<and> write_plan s1 = [] \<and> served s1 = served y \<and>
          inbound s1 = scp_ok # scp_ok # rest"
        using y(1,2) assms(2)
        by (auto simp: send_times_def times_line_def acks_awaited_def channel_write_ok await_ack_ok Let_def
            numeral_2_eq_2 numeral_3_eq_3 bindE_app split: option.splits if_splits)
      then obtain s1 where s1: "send_times ss node y = (Inr (), s1)" "write_plan s1 = []" "served s1 = served y"
          "inbound s1 = scp_ok # scp_ok # rest" by blast
      let ?s3 = "s1\<lparr>outbound := outbound s1 @ file_header node (sint n) @ [newline], inbound := scp_ok # rest\<rparr>"
      obtain s4 where s4: "send_contents rd (sint n) 0 ?s3 = (Inr (), s4)" "write_plan s4 = []" "inbound s4 = scp_ok # rest"
        using send_contents_sends [of rd "sint n" 0 ?s3 data st] w data s1 by auto
      show ?thesis using a n s1 s4
        by (simp add: send_opened_def channel_write_ok await_ack_ok ack_def file_header_def)
    qed
    then show ?thesis using o Inr by (auto simp: send_file_def on_fs_def split: prod.splits)
  qed
qed

end
