(* ===== verification/Scp_Contained.thy ===== *)
theory Scp_Contained
  imports Scp_Facts
begin

text \<open>
  What an upload over SCP can reach. The locale \<open>sink_contract\<close> states what the sink asks of
  the filesystem: an invariant that \<open>Stat\<close>, and \<open>Create\<close> and \<open>Mkdir\<close> of the paths allowed,
  keep, the writers handed out included, where the paths allowed are closed under adding a
  name a control line may carry. A whole session then keeps it. A filesystem all of whose
  backends keep an invariant gives the contract for every path; the paths at and below the
  target of a session are the other instance.
\<close>

definition writes_keep :: "('w fs_state \<Rightarrow> bool) \<Rightarrow> 'w writer \<Rightarrow> bool" where
  "writes_keep J wr \<longleftrightarrow> (\<forall>d off. keeps J (on_world (write_at wr d off))) \<and>
     keeps J (on_world (write_close wr)) \<and> keeps J (on_world (write_abort wr))"

lemma on_fs_keeps: "keeps J m \<Longrightarrow> keeps (\<lambda>s. J (served s)) (on_fs m)"
  by (auto simp: keeps_def on_fs_def split: prod.splits sum.splits)

lemma on_handle_keeps: "keeps J (on_world m) \<Longrightarrow> keeps (\<lambda>s. J (served s)) (on_handle m)"
  by (auto simp: keeps_def on_handle_def split: prod.splits)

lemma served_primitives [keeps_rules]:
  "keeps (\<lambda>s. J (served s)) (channel_write d)" "keeps (\<lambda>s. J (served s)) ack"
  "keeps (\<lambda>s. J (served s)) (scp_fail v x)" "keeps (\<lambda>s. J (served s)) read_byte"
  "keeps (\<lambda>s. J (served s)) read_line"
  by (auto simp: keeps_def)

lemma store_window_keeps:
  assumes "\<And>d off. keeps J (on_world (write_at wr d off))"
  shows "keeps (\<lambda>s. J (served s)) (store_window wr d off failure)"
  unfolding store_window_def[abs_def] by (intro keeps_rules on_handle_keeps assms)

lemma store_all_keeps:
  assumes "\<And>d off. keeps J (on_world (write_at wr d off))"
  shows "keeps (\<lambda>s. J (served s)) (store_all wr ds off failure)"
proof (induction ds arbitrary: off failure)
  case Nil
  then show ?case by (simp add: keeps_def)
next
  case (Cons d ds)
  show ?case unfolding store_all.simps
    by (intro keeps_case_prod keeps_case_tuple store_window_keeps assms Cons)
qed

lemma receive_contents_keeps:
  assumes "\<And>d off. keeps J (on_world (write_at wr d off))"
  shows "keeps (\<lambda>s. J (served s)) (receive_contents wr c off failure)"
proof (rule keepsI)
  fix s :: "'a scp_state"
  assume s: "J (served s)"
  show "J (served (snd (receive_contents wr c off failure s)))"
  proof -
    let ?s = "s\<lparr>inbound := drop (nat c) (inbound s)\<rparr>" and ?ds = "windows (take (nat c) (inbound s))"
    obtain o' f' t where t: "store_all wr ?ds off failure ?s = ((o', f'), t)" by (metis surj_pair)
    have "J (served ?s)" using s by simp
    from keepsD' [OF store_all_keeps [OF assms] this t] show ?thesis
      by (simp add: receive_contents_take take_contents_def t)
  qed
qed

locale sink_contract =
  fixes f :: "'w fs" and J :: "'w fs_state \<Rightarrow> bool" and allowed :: "string \<Rightarrow> bool"
  assumes stat_kept: "keeps J (fs_stat f p)"
    and create_kept: "allowed p \<Longrightarrow> keeps J (fs_create f p)"
    and mkdir_kept: "allowed p \<Longrightarrow> keeps J (fs_mkdir f p)"
    and writer_kept: "allowed p \<Longrightarrow> fs_create f p s = (Inr wr, t) \<Longrightarrow> writes_keep J wr"
    and allowed_below: "allowed p \<Longrightarrow> valid_name name \<Longrightarrow> allowed (path_join p name)"
begin

abbreviation K :: "'w scp_state \<Rightarrow> bool" where "K s \<equiv> J (served s)"

lemma receive_into_kept:
  assumes "filesystem ss = f" and "allowed d"
  shows "keeps K (receive_into ss d n)"
proof (rule keepsI)
  fix s
  assume "K s"
  obtain r t where c: "on_fs (fs_create f d) s = (r, t)" by (metis surj_pair)
  have t: "K t" using keepsD' [OF on_fs_keeps [OF create_kept [OF assms(2)]] \<open>K s\<close> c] .
  show "K (snd (receive_into ss d n s))"
  proof (cases r)
    case (Inl e)
    then show ?thesis using c t assms(1) by (simp add: receive_into_def)
  next
    case (Inr wr)
    then obtain u where "fs_create f d (served s) = (Inr wr, u)"
      using c by (auto simp: on_fs_def split: prod.splits sum.splits)
    from writer_kept [OF assms(2) this] have w: "writes_keep J wr" .
    note wk = on_handle_keeps [OF conjunct1 [OF conjunct2 [OF w [unfolded writes_keep_def]]]]
      on_handle_keeps [OF conjunct2 [OF conjunct2 [OF w [unfolded writes_keep_def]]]]
    have rc: "keeps K (receive_contents wr n off failure)" for off failure
      using w by (intro receive_contents_keeps) (simp add: writes_keep_def)
    let ?rest = "\<lambda>t. case ack t of
             (Inl e, u) \<Rightarrow> (Inl e, snd (on_handle (write_abort wr) u))
           | (Inr _, u) \<Rightarrow>
               (case receive_contents wr n 0 None u of (contentsErr, v) \<Rightarrow>
                  if contentsErr = Some SCPProtocol
                  then (Inl SCPProtocol, snd (on_handle (write_abort wr) v))
                  else (case read_byte v of
                     (Inl e, x) \<Rightarrow> (Inl e, snd (on_handle (write_abort wr) x))
                   | (Inr status, x) \<Rightarrow>
                       if status \<noteq> scp_ok
                       then (Inl SCPRefused, snd (on_handle (write_abort wr) (snd (read_line x))))
                       else (case contentsErr of
                          Some e \<Rightarrow> scp_fail d e (snd (on_handle (write_abort wr) x))
                        | None \<Rightarrow>
                            (case on_handle (write_close wr) x of
                               (Some e, y) \<Rightarrow> scp_fail d (VErr e) y
                             | (None, y) \<Rightarrow> ack y))))"
    have "keeps K ?rest" by (intro keeps_rules wk rc)
    from keepsD [OF this t] show ?thesis using c Inr assms(1) by (simp add: receive_into_def)
  qed
qed

definition frame_allowed :: "scp_target \<Rightarrow> bool" where
  "frame_allowed t \<longleftrightarrow> allowed (target_path t)"

lemma resolve_allowed: "frame_allowed t \<Longrightarrow> valid_name name \<Longrightarrow> allowed (target_resolve t name)"
  using allowed_below by (simp add: frame_allowed_def target_resolve_def)

lemma header_name: "parse_scp_file_header h = Inr (n, name) \<Longrightarrow> valid_name name"
  using scp_header_exact by blast

lemma receive_file_kept:
  assumes "filesystem ss = f" and "frame_allowed t"
  shows "keeps K (receive_file ss t header)"
proof (rule keepsI)
  fix s :: "'w scp_state"
  assume s: "K s"
  show "K (snd (receive_file ss t header s))"
  proof (cases "parse_scp_file_header header")
    case (Inr p)
    obtain n name where p: "p = (n, name)" by (metis surj_pair)
    have d: "allowed (target_resolve t name)" using header_name Inr p assms(2) resolve_allowed by blast
    show ?thesis
    proof (cases "acquire (limiter ss) (slots s)")
      case None
      then show ?thesis using Inr p s by (simp add: receive_file_def)
    next
      case (Some h)
      obtain r u where u: "receive_into ss (target_resolve t name) n (s\<lparr>slots := h\<rparr>) = (r, u)" by (metis surj_pair)
      have "K (s\<lparr>slots := h\<rparr>)" using s by simp
      from keepsD' [OF receive_into_kept [OF assms(1) d] this u] show ?thesis
        using Inr p Some u by (simp add: receive_file_def)
    qed
  qed (use s in \<open>simp add: receive_file_def\<close>)
qed

lemma receive_directory_kept:
  assumes "filesystem ss = f" and "frame_allowed t" and "K s" and "receive_directory ss t header s = (r, s')"
  shows "K s' \<and> (\<forall>next. r = Inr next \<longrightarrow> frame_allowed next)"
proof (cases "parse_scp_file_header header")
  case (Inl e)
  then show ?thesis using assms(3,4) by (auto simp: receive_directory_def)
next
  case (Inr p)
  obtain n name where p: "p = (n, name)" by (metis surj_pair)
  have d: "allowed (target_resolve t name)" using header_name Inr p assms(2) resolve_allowed by blast
  obtain a u where m: "on_fs (fs_mkdir f (target_resolve t name)) s = (a, u)" by (metis surj_pair)
  have u: "K u" using keepsD' [OF on_fs_keeps [OF mkdir_kept [OF d]] assms(3) m] .
  have "served s' = served u" using assms(4,1) Inr p m
    by (auto simp: receive_directory_def Let_def bindE_app ack_def scp_fail_def channel_write_def
        split: sum.splits if_splits prod.splits list.splits option.splits)
  then have "K s'" using u by simp
  moreover have "next = \<lparr>target_path = target_resolve t name, named = True\<rparr>" if "r = Inr next" for "next"
    using that assms(4,1) Inr p m
    by (auto simp: receive_directory_def Let_def bindE_Inr_iff split: sum.splits if_splits)
  ultimately show ?thesis using d by (auto simp: frame_allowed_def)
qed

lemma continue_with_kept:
  "keeps K m \<Longrightarrow> K s \<Longrightarrow> continue_with stack m s = (r, t) \<Longrightarrow> K t \<and> (\<forall>x. r = Inr x \<longrightarrow> x = stack)"
  by (auto simp: continue_with_def keeps_def split: prod.splits sum.splits)

lemma receive_line_kept:
  assumes "filesystem ss = f" and "stack \<noteq> []" and "\<forall>t \<in> set stack. frame_allowed t" and "K s"
    and "receive_line ss stack line s = (r, s')"
  shows "K s' \<and> (\<forall>stack'. r = Inr stack' \<longrightarrow> stack' \<noteq> [] \<and> (\<forall>t \<in> set stack'. frame_allowed t))"
proof -
  have l: "frame_allowed (last stack)" using assms(2,3) by simp
  have b: "length stack \<noteq> 1 \<Longrightarrow> butlast stack \<noteq> []" using assms(2) by (cases stack) auto
  obtain a u where d: "receive_directory ss (last stack) line s = (a, u)" by (metis surj_pair)
  note d' = receive_directory_kept [OF assms(1) l assms(4) d]
  have k: "keeps K (ack)" "keeps K (receive_file ss (last stack) line)"
    using receive_file_kept [OF assms(1) l] by (auto intro: keeps_rules)
  show ?thesis
    using assms(2-5) d d' continue_with_kept [OF k(1) assms(4)] continue_with_kept [OF k(2) assms(4)] b
    by (fastforce simp: receive_line_def split: if_splits sum.splits dest: in_set_butlastD)
qed

lemma receive_loop_kept:
  assumes "filesystem ss = f" and "stack \<noteq> []" and "\<forall>t \<in> set stack. frame_allowed t" and "K s"
  shows "K (snd (receive_loop ss stack s))"
  using assms
proof (induction ss stack s rule: receive_loop.induct)
  case (1 ss stack s)
  obtain a t where l: "read_line s = (a, t)" by (metis surj_pair)
  have t: "K t" using keepsD' [OF served_primitives(5) [of J] 1(5) l] .
  show ?case
  proof (cases a)
    case (Inl e)
    then show ?thesis using l t by (subst receive_loop.simps) (simp add: receive_step_def)
  next
    case (Inr line)
    obtain r u where r: "receive_line ss stack line t = (r, u)" by (metis surj_pair)
    note k = receive_line_kept [OF 1(2-4) t r]
    have s: "receive_step ss stack s = (r, u)" using l Inr r by (simp add: receive_step_def)
    show ?thesis
    proof (cases r)
      case (Inl x)
      then show ?thesis using s k by (subst receive_loop.simps) simp
    next
      case (Inr stack')
      then have "K (snd (receive_loop ss stack' u))" using 1(1) [OF s [symmetric] Inr 1(2)] k by blast
      then show ?thesis using s Inr by (subst receive_loop.simps) simp
    qed
  qed
qed

lemma receive_kept:
  assumes "filesystem ss = f" and "allowed target"
  shows "keeps K (receive ss target)"
proof (rule keepsI)
  fix s :: "'w scp_state"
  assume s: "K s"
  obtain a t where a: "on_fs (fs_stat f target) s = (a, t)" by (metis surj_pair)
  have t: "K t" using keepsD' [OF on_fs_keeps [OF stat_kept] s a] .
  obtain b u where b: "ack t = (b, u)" by (metis surj_pair)
  have u: "K u" using keepsD' [OF served_primitives(2) [of J] t b] .
  have "frame_allowed \<lparr>target_path = target, named = n\<rparr>" for n using assms(2) by (simp add: frame_allowed_def)
  then have "K (snd (receive_loop ss [\<lparr>target_path = target, named = n\<rparr>] u))" for n
    using receive_loop_kept [OF assms(1) _ _ u] by simp
  then show "K (snd (receive ss target s))"
    using a b t u assms(1) by (auto simp: receive_def Let_def split: sum.splits)
qed

end

text \<open>A filesystem whose backends keep an invariant gives the contract, for every path.\<close>

sublocale kept_by_backends \<subseteq> sink_contract f "\<lambda>s. I (world s)" "\<lambda>_. True"
proof
  fix p s wr t
  assume "fs_create f p s = (Inr wr, t)"
  from create_writer_keeps [OF this] have "keeps_writer I wr" .
  then show "writes_keep (\<lambda>s. I (world s)) wr"
    by (auto simp: writes_keep_def keeps_writer_def keeps_def world_on_world)
qed (simp_all add: operations_keep)


section \<open>An upload that does not arrive whole\<close>

text \<open>
  The bytes of a file are all there when as many as announced are followed by the client's own
  verdict that they are right.
\<close>

definition arrives_whole :: "int \<Rightarrow> bytes \<Rightarrow> bool" where
  "arrives_whole n i \<longleftrightarrow> (case drop (nat n) i of [] \<Rightarrow> False | status # rest \<Rightarrow> status = scp_ok)"

lemma arrives_whole_iff:
  "0 \<le> n \<Longrightarrow> arrives_whole n i \<longleftrightarrow> (\<exists>data rest. i = data @ scp_ok # rest \<and> int (length data) = n)"
proof
  assume n: "0 \<le> n" and "arrives_whole n i"
  then obtain rest where r: "drop (nat n) i = scp_ok # rest" by (auto simp: arrives_whole_def split: list.splits)
  then have "i = take (nat n) i @ scp_ok # rest" by (metis append_take_drop_id)
  moreover have "nat n < length i" using r by (metis drop_all leI list.distinct(1))
  ultimately show "\<exists>data rest. i = data @ scp_ok # rest \<and> int (length data) = n"
    using n by (intro exI [of _ "take (nat n) i"] exI [of _ rest]) simp
qed (auto simp: arrives_whole_def)

lemma store_window_stream: "store_window wr d off failure s = (r, t) \<Longrightarrow> inbound t = inbound s \<and> inbound_end t = inbound_end s"
  by (auto simp: store_window_def on_handle_def split: prod.splits if_splits)

lemma store_all_stream: "store_all wr ds off failure s = (r, t) \<Longrightarrow> inbound t = inbound s \<and> inbound_end t = inbound_end s"
proof (induction ds arbitrary: off failure s)
  case (Cons d ds)
  obtain o' f' u where u: "store_window wr d off failure s = ((o', f'), u)" by (metis surj_pair)
  then show ?case using Cons store_window_stream [OF u] by simp
qed simp

lemma store_all_failure:
  "store_all wr ds off failure s = ((off', failure'), t) \<Longrightarrow> failure = None \<or> failure = Some ErrFailure \<Longrightarrow>
     failure' = None \<or> failure' = Some ErrFailure"
proof (induction ds arbitrary: off failure s)
  case (Cons d ds)
  obtain o' f' u where u: "store_window wr d off failure s = ((o', f'), u)" by (metis surj_pair)
  then have "f' = None \<or> f' = Some ErrFailure"
    using Cons.prems(2) by (auto simp: store_window_def split: prod.splits if_splits)
  then show ?case using Cons u by simp
qed simp

text \<open>Only a file that arrives whole reaches the close.\<close>

lemma receive_into_incomplete:
  assumes create: "keeps J (fs_create (filesystem ss) d)"
    and writer: "\<And>s wr t. fs_create (filesystem ss) d s = (Inr wr, t) \<Longrightarrow>
                   (\<forall>x off. keeps J (on_world (write_at wr x off))) \<and> keeps J (on_world (write_abort wr))"
    and s: "J (served s)" and incomplete: "\<not> arrives_whole n (inbound s)"
  shows "J (served (snd (receive_into ss d n s)))"
proof -
  obtain r t where c: "on_fs (fs_create (filesystem ss) d) s = (r, t)" by (metis surj_pair)
  have t: "J (served t)" using keepsD' [OF on_fs_keeps [OF create] s c] .
  show ?thesis
  proof (cases r)
    case (Inl e)
    then show ?thesis using c t by (simp add: receive_into_def)
  next
    case (Inr wr)
    then obtain u0 where "fs_create (filesystem ss) d (served s) = (Inr wr, u0)"
      using c by (auto simp: on_fs_def split: prod.splits sum.splits)
    note w = writer [OF this]
    have ab: "J (served v) \<Longrightarrow> J (served (snd (on_handle (write_abort wr) v)))" for v
      using keepsD [OF on_handle_keeps [OF conjunct2 [OF w]]] .
    obtain a u where a: "ack t = (a, u)" by (metis surj_pair)
    have u: "J (served u)" "inbound u = inbound s" using t a c
      by (auto simp: ack_def on_fs_def channel_write_def split: list.splits option.splits prod.splits sum.splits)
    obtain x v where x: "receive_contents wr n 0 None u = (x, v)" by (metis surj_pair)
    have v: "J (served v)"
      using keepsD' [OF receive_contents_keeps [of J wr n 0 None] u(1) x] w by blast
    obtain o' f' v0 where st: "store_all wr (windows (take (nat n) (inbound u))) 0 None
        (u\<lparr>inbound := drop (nat n) (inbound u)\<rparr>) = ((o', f'), v0)" by (metis surj_pair)
    have iv: "inbound v = drop (nat n) (inbound s)"
      using store_all_stream [OF st] x u(2) st by (simp add: receive_contents_take take_contents_def)
    obtain y z where y: "read_byte v = (y, z)" by (metis surj_pair)
    have z: "J (served z)" using v y by (metis read_byte_fields(4) snd_conv)
    have "y \<noteq> Inr scp_ok"
      using incomplete y iv by (auto simp: read_byte_def read_full_def arrives_whole_def split: list.splits if_splits)
    then show ?thesis
      using c Inr a x y ab [OF u(1)] ab [OF v] ab [OF z] ab [of "snd (read_line z)"] z
      by (auto simp: receive_into_def split: sum.splits)
  qed
qed


section \<open>A whole session, in either direction\<close>

lemma served_channel [keeps_rules]:
  "keeps (\<lambda>s. J (served s)) (send_window d)" "keeps (\<lambda>s. J (served s)) await_ack"
proof -
  show "keeps (\<lambda>s. J (served s)) (send_window d)"
    unfolding send_window_def[abs_def] by (intro keeps_rules)
  show "keeps (\<lambda>s. J (served s)) await_ack"
    unfolding await_ack_def[abs_def] by (intro keeps_rules)
qed

lemma served_times [keeps_rules]: "keeps (\<lambda>s. J (served s)) (send_times ss node)"
  by (auto simp: send_times_def Let_def split: option.splits intro!: keeps_rules)

lemma served_announce [keeps_rules]: "keeps (\<lambda>s. J (served s)) (announce_directory ss name node)"
  unfolding announce_directory_def by (intro keeps_rules)

lemma send_contents_kept:
  assumes "\<And>n off. keeps J (on_world (read_at rd n off))"
  shows "keeps (\<lambda>s. J (served s)) (send_contents rd n off)"
proof (rule keepsI)
  fix s :: "'a scp_state"
  show "J (served s) \<Longrightarrow> J (served (snd (send_contents rd n off s)))"
    using assms
  proof (induction rd n off s rule: send_contents.induct)
    case (1 rd n off s)
    obtain d err t where r: "on_handle (read_at rd (nat (window_of n off)) (word_of_int off)) s = ((d, err), t)"
      by (metis surj_pair)
    obtain x u where w: "send_window d t = (x, u)" by (metis surj_pair)
    have "J (served t)" using keepsD' [OF on_handle_keeps [OF 1(3)] 1(2) r] .
    then have "J (served u)" using keepsD' [OF served_channel(1) [of J] _ w] by blast
    then show ?case
      using 1 r w by (subst send_contents.simps) (auto split: option.splits io_error.splits)
  qed
qed

context kept_by_backends
begin

lemma on_world_reader: "keeps_reader I rd \<Longrightarrow> keeps J (on_world (read_at rd n off)) \<and>
    keeps J (on_world (read_size rd)) \<and> keeps J (on_world (read_close rd))"
  by (simp add: keeps_reader_def keeps_def world_on_world)

lemma send_file_kept:
  assumes "filesystem ss = f"
  shows "keeps K (send_file ss v node)"
proof (rule keepsI)
  fix s :: "'w scp_state"
  assume s: "K s"
  obtain r t where o: "on_fs (fs_open f v) s = (r, t)" by (metis surj_pair)
  have t: "K t" using keepsD' [OF on_fs_keeps [OF open_keeps] s o] .
  show "K (snd (send_file ss v node s))"
  proof (cases r)
    case (Inl e)
    then show ?thesis using o t assms by (simp add: send_file_def)
  next
    case (Inr rd)
    then obtain u where "fs_open f v (served s) = (Inr rd, u)"
      using o by (auto simp: on_fs_def split: prod.splits sum.splits)
    from on_world_reader [OF open_reader_keeps [OF this]]
    have rd: "keeps K (on_handle (read_size rd))" "keeps K (on_handle (read_close rd))"
      "keeps K (send_contents rd n off)" for n off
      using on_handle_keeps send_contents_kept by blast+
    have "keeps K (send_opened ss rd v node)"
      unfolding send_opened_def[abs_def] by (intro keeps_rules rd)
    from keepsD [OF this t] have "K (snd (send_opened ss rd v node t))" .
    then have "K (snd (on_handle (read_close rd) (snd (send_opened ss rd v node t))))"
      by (rule keepsD [OF rd(2)])
    then show ?thesis using o Inr assms by (simp add: send_file_def case_prod_beta)
  qed
qed

definition sender_kept :: "(string \<Rightarrow> node \<Rightarrow> 'w scp_state \<Rightarrow> ((scp_error + unit) \<times> 'w scp_state) option) \<Rightarrow> bool" where
  "sender_kept sender \<longleftrightarrow> (\<forall>v node s r t. K s \<longrightarrow> sender v node s = Some (r, t) \<longrightarrow> K t)"

lemma send_children_kept:
  assumes "sender_kept sender"
  shows "K s \<Longrightarrow> send_children sender v cs s = Some (r, t) \<Longrightarrow> K t"
proof (induction cs arbitrary: s)
  case (Cons c cs)
  obtain a u where a: "sender (path_join v (entry_name c)) c s = Some (a, u)"
    using Cons.prems(2) by (auto split: option.splits)
  then have "K u" using assms Cons.prems(1) by (auto simp: sender_kept_def)
  then show ?case using Cons a by (auto split: sum.splits)
qed simp

lemma send_directory_kept:
  assumes "filesystem ss = f" and "sender_kept sender" and "K s"
    and "send_directory sender ss v node s = Some (r, t)"
  shows "K t"
proof -
  obtain l u where l: "on_fs (fs_list f v) s = (l, u)" by (metis surj_pair)
  have u: "K u" using keepsD' [OF on_fs_keeps [OF list_op_keeps] assms(3) l] .
  obtain a x where a: "announce_directory ss (path_base v) node u = (a, x)" by (metis surj_pair)
  have x: "K x" using keepsD' [OF served_announce [of J] u a] .
  have fl: "K y" if "scp_fail v e z = (q, y)" "K z" for e z q y
    using keepsD' [OF served_primitives(3) [of J] that(2,1)] .
  have e: "K y" if "bindE (channel_write [CHR ''E'', newline]) (\<lambda>_. await_ack) z = (q, y)" "K z" for z q y
  proof -
    have "keeps K (bindE (channel_write [CHR ''E'', newline]) (\<lambda>_. await_ack))" by (intro keeps_rules)
    then show ?thesis using that by (auto simp: keeps_def dest!: spec [of _ z])
  qed
  show ?thesis
  proof (cases "valid_name (path_base v) \<and> (\<exists>cs. l = Inr cs) \<and> a = Inr ()")
    case True
    then obtain cs where cs: "valid_name (path_base v)" "l = Inr cs" "a = Inr ()" by auto
    then obtain c y where c: "send_children sender v cs x = Some (c, y)"
      using assms(1,4) l a by (auto simp: send_directory_def Let_def split: option.splits)
    have "K y" using send_children_kept [OF assms(2) x c] .
    then show ?thesis using assms(1,4) l a cs c e [of y r t]
      by (cases c) (simp_all add: send_directory_def)
  next
    case False
    then show ?thesis using assms(1,3,4) l u a x
      by (cases l; cases a) (auto simp: send_directory_def Let_def split: if_splits intro: fl)
  qed
qed

lemma send_node_kept:
  assumes "filesystem ss = f"
  shows "sender_kept (send_node n ss)"
proof (induction n)
  case (Suc n)
  show ?case unfolding sender_kept_def
  proof (intro allI impI)
    fix v node s r t
    assume s: "K s" and t: "send_node (Suc n) ss v node s = Some (r, t)"
    have "send_file ss v node s = (r, t) \<Longrightarrow> K t" "scp_fail v e s = (r, t) \<Longrightarrow> K t" for e
      using keepsD' [OF send_file_kept [OF assms] s] keepsD' [OF served_primitives(3) [of J] s] by auto
    moreover have "send_directory (send_node n ss) ss v node s = Some (r, t) \<Longrightarrow> K t"
      by (rule send_directory_kept [OF assms Suc s])
    ultimately show "K t" using t unfolding send_node.simps(2) [of n ss v node s]
      by (simp split: if_splits)
  qed
qed (simp add: sender_kept_def)

lemma send_kept:
  assumes "filesystem ss = f" and "K s" and "send ss target s = Some (r, t)"
  shows "K t"
proof -
  obtain a u where a: "await_ack s = (a, u)" by (metis surj_pair)
  have u: "K u" using keepsD' [OF served_channel(2) [of J] assms(2) a] .
  obtain b x where b: "on_fs (fs_stat f target) u = (b, x)" by (metis surj_pair)
  have x: "K x" using keepsD' [OF on_fs_keeps [OF stat_keeps] u b] .
  have fl: "K (snd (scp_fail target e x))" for e using x by simp
  show ?thesis
  proof (cases "\<exists>e. a = Inl e")
    case True
    then show ?thesis using assms(3) a u by (auto simp: send_def)
  next
    case False
    show ?thesis
    proof (cases b)
      case (Inl e)
      then show ?thesis using assms False a b fl [of e] by (cases a) (auto simp: send_def)
    next
      case (Inr node)
      then have "send_node (Suc (length (inbound x))) ss target node x = Some (r, t)"
        using assms False a b by (cases a) (auto simp: send_def simp del: send_node.simps)
      then show ?thesis using send_node_kept [OF assms(1)] x unfolding sender_kept_def by blast
    qed
  qed
qed

lemma scp_run_kept:
  assumes "filesystem ss = f" and "K s" and "scp_run ss s = Some (ok, t)"
  shows "K t"
proof -
  have fin: "K (snd (scp_finish (e, x)))" if "K x" for e x
    using that by (cases e) (simp_all add: scp_finish_def)
  show ?thesis
  proof (cases "virtual_path (cmd_path (command ss))")
    case (Inl e)
    then show ?thesis using assms(3) fin [OF assms(2)] by (auto simp: scp_run_def) (metis snd_conv)
  next
    case (Inr target)
    have r: "K (snd (receive ss target s))" using keepsD [OF receive_kept [OF assms(1)] assms(2)] by simp
    show ?thesis
    proof (cases "sink (command ss)")
      case True
      then show ?thesis using assms(3) Inr fin [OF r, of "fst (receive ss target s)"] by (auto simp: scp_run_def)
    next
      case False
      then obtain a u where a: "send ss target s = Some (a, u)" using assms(3) Inr by (auto simp: scp_run_def split: option.splits)
      have "K u" using send_kept [OF assms(1,2) a] .
      from fin [OF this] show ?thesis using assms(3) False Inr a
        by (cases a) (auto simp: scp_run_def, (metis snd_conv)+)
    qed
  qed
qed

end

end
