(* ===== verification/Scp_Properties.thy ===== *)
theory Scp_Properties
  imports Scp_Contained
begin

text \<open>
  The properties of an SCP session over any filesystem, and what they are evaluated on: the
  backend in memory of \<open>Vfs_Properties\<close>.
\<close>

section \<open>A session returns, and gives back what it took\<close>

text \<open>
  C23. A session returns for every client and every filesystem: the sink, because each round
  takes a line from the stream, and the source, however deep listings lead, because each
  directory it enters takes an answer.
\<close>

theorem scp_session_returns:
  "\<exists>ok t. scp_run ss s = Some (ok, t) \<and> length (inbound t) \<le> length (inbound s)"
  using scp_run_stream [of ss s] by (auto simp: stream_def)

theorem scp_tree_fuel_suffices:
  "\<exists>r t. \<forall>more. send_node (Suc (length (inbound s) + more)) ss virtual node s = Some (r, t)"
  using send_node_fuel [of s ss virtual node] by (metis less_Suc_eq_le le_add1)

text \<open>
  C24. Whichever way a session ends, with whatever errors of the client, the channel or the
  backend, it has given back every upload slot it took.
\<close>

theorem scp_slots_released:
  "map_option (\<lambda>r. slots (snd r)) (scp_run ss s) = Some (slots s)"
  using scp_run_stream [of ss s] by (auto simp: stream_def)

section \<open>Contents\<close>

text \<open>
  C22. Receiving the contents of a file is giving its bytes to the writer one window after
  another: as many bytes as were announced, or all there are, leave the stream whatever the
  writer answers, so that what follows is the next control line, and coming up short is a
  protocol error.
\<close>

theorem scp_contents_by_windows:
  "receive_contents wr fileSize off failure s =
     (case store_all wr (windows (take (nat fileSize) (inbound s))) off failure
             (s\<lparr>inbound := drop (nat fileSize) (inbound s)\<rparr>) of
        ((off', failure'), t) \<Rightarrow>
          (if int (length (inbound s)) < fileSize then Some SCPProtocol else map_option VErr failure', t))
   \<and> concat (windows (take (nat fileSize) (inbound s))) = take (nat fileSize) (inbound s)"
  by (simp only: receive_contents_take take_contents_def concat_windows simp_thms)

text \<open>
  C25. A file is refused in one line when it cannot be opened or its reader cannot say how
  long it is, and sent otherwise: its times when asked for, a header with the length the
  reader states, the bytes its windows hold, all that were announced, and the closing zero. A
  source that returns without an error has sent nothing else and has closed the reader; one
  whose windows do not all come whole never returns so; and with a channel that takes what is
  written and a client that acknowledges each step there is no other way to fail.
\<close>

theorem scp_file_announced_exactly:
  "(\<forall>t. send_file ss virtual node s = (Inr (), t) \<longrightarrow>
      (case file_read (filesystem ss) virtual (served s) of
         (Inl e, st) \<Rightarrow> served t = st \<and> outbound t = outbound s @ failure_line virtual (VErr e)
       | (Inr (n, None), st) \<Rightarrow> False
       | (Inr (n, Some data), st) \<Rightarrow> served t = st \<and> int (length data) = max 0 n \<and>
           outbound t = outbound s @ times_line ss node @ file_header node n @ newline # data @ [scp_ok])) \<and>
   (write_plan s = [] \<and> prefix (replicate (acks_awaited ss node) scp_ok) (inbound s) \<and>
    (\<forall>n. fst (file_read (filesystem ss) virtual (served s)) \<noteq> Inr (n, None)) \<longrightarrow>
      (\<exists>t. send_file ss virtual node s = (Inr (), t)))"
proof (intro conjI allI impI)
  fix t
  assume "send_file ss virtual node s = (Inr (), t)"
  from send_file_sent [OF this] show "case file_read (filesystem ss) virtual (served s) of
         (Inl e, st) \<Rightarrow> served t = st \<and> outbound t = outbound s @ failure_line virtual (VErr e)
       | (Inr (n, None), st) \<Rightarrow> False
       | (Inr (n, Some data), st) \<Rightarrow> served t = st \<and> int (length data) = max 0 n \<and>
           outbound t = outbound s @ times_line ss node @ file_header node n @ newline # data @ [scp_ok]" .
next
  assume a: "write_plan s = [] \<and> prefix (replicate (acks_awaited ss node) scp_ok) (inbound s) \<and>
    (\<forall>n. fst (file_read (filesystem ss) virtual (served s)) \<noteq> Inr (n, None))"
  then obtain rest where "inbound s = replicate (acks_awaited ss node) scp_ok @ rest" by (auto elim: prefixE)
  then show "\<exists>t. send_file ss virtual node s = (Inr (), t)" using a by (intro send_file_sends) auto
qed

text \<open>A file whose reader says five bytes and has them, where its directory listed nine hundred.\<close>

definition text_reader :: "node list reader" where
  "text_reader = \<lparr>read_at = (\<lambda>n off w. ((take n (drop (unat off) ''hello''), None), w)),
     read_size = (\<lambda>w. (Inr 5, w)), read_close = (\<lambda>w. (None, w))\<rparr>"

definition text_fs :: "node list fs" where
  "text_fs = fst (fs_new mem_root [''mem'' \<mapsto> mem_backend\<lparr>backend_open := (\<lambda>n w. (Inr text_reader, w))\<rparr>] [])"

definition text_session :: "node list scp_session" where
  "text_session = \<lparr>command = no_command\<lparr>source := True, preserve := True, cmd_path := ''/d/a''\<rparr>, filesystem = text_fs, limiter = Slots 1\<rparr>"

definition text_node :: node where
  "text_node = Entry (no_attrs\<lparr>File := ''a'', Size := 900, Mtime := Some 7000000000\<rparr>) []"

definition text_state :: "node list scp_state" where
  "text_state = \<lparr>served = mem_state, slots = 0, inbound = [scp_ok, scp_ok, scp_ok],
     inbound_end = StreamEnd, outbound = [],
     write_plan = [], stderr_out = [], refused = False\<rparr>"

theorem scp_file_announced_exactly_witness:
  "\<exists>t. send_file text_session ''/d/a'' text_node text_state = (Inr (), t) \<and>
       outbound t = ''T7 0 7 0'' @ newline # ''C0644 5 a'' @ newline # ''hello'' @ [scp_ok]"
proof -
  let ?r = "file_read (filesystem text_session) ''/d/a'' (served text_state)"
  have "fst ?r = Inr (5, Some ''hello'')" by code_simp
  then obtain st where r: "?r = (Inr (5, Some ''hello''), st)" by (cases ?r) simp
  have "write_plan text_state = [] \<and>
      prefix (replicate (acks_awaited text_session text_node) scp_ok) (inbound text_state)" by code_simp
  then obtain t where t: "send_file text_session ''/d/a'' text_node text_state = (Inr (), t)"
    using scp_file_announced_exactly [of text_session "''/d/a''" text_node text_state, THEN conjunct2] r by auto
  have h: "file_header text_node 5 = ''C0644 5 a'' \<and> times_line text_session text_node = ''T7 0 7 0'' @ [newline] \<and>
      outbound text_state = []" by code_simp
  from scp_file_announced_exactly [THEN conjunct1, rule_format, OF t] show ?thesis using t r h by auto
qed

section \<open>Headers\<close>

lemma line_loop_line:
  "newline \<notin> set l \<Longrightarrow> int (length line + length l) \<le> max_scp_line \<Longrightarrow>
     line_loop (l @ newline # rest) line e = (Inr (line @ l), rest)"
  by (induction l arbitrary: line) auto

text \<open>
  C26. The header the source announces a file with is read back by the sink as one line, with
  the same size and name, spaces in the name included, when the name is valid and has no
  newline and the line is within the bound.
\<close>

theorem scp_header_roundtrip:
  assumes "valid_name (entry_name node)" and "newline \<notin> set (entry_name node)"
    and "0 \<le> n" and "in_int64 n" and "int (length (file_header node n)) \<le> max_scp_line"
    and "inbound s = file_header node n @ newline # rest"
  shows "read_line s = (Inr (file_header node n), s\<lparr>inbound := rest\<rparr>) \<and>
         parse_scp_file_header (file_header node n) = Inr (n, entry_name node)"
proof -
  have nd: "\<not> is_digit space" "\<not> is_digit newline" by (simp_all add: is_digit_def)
  have o: "space \<notin> set (show_octal4 m)" "newline \<notin> set (show_octal4 m)" for m
    using nd show_octal4_bytes [of space m] show_octal4_bytes [of newline m] by auto
  have i: "space \<notin> set (show_int n)" "newline \<notin> set (show_int n)"
    using nd show_int_bytes [of space n] show_int_bytes [of newline n] by auto
  have "newline \<notin> set (file_header node n)" using o i assms(2) by (simp add: file_header_def)
  from line_loop_line [OF this, of "[]"] have
    "read_line s = (Inr (file_header node n), s\<lparr>inbound := rest\<rparr>)"
    using assms(5,6) by (simp add: read_line_def)
  moreover have "parse_scp_file_header (file_header node n) = Inr (n, entry_name node)"
    using o i assms(1,3) parse_show_int [OF assms(4)]
    unfolding scp_header_exact file_header_def
    by (intro exI [of _ "show_octal4 (scp_mode node)"] exI [of _ "show_int n"]) simp
  ultimately show ?thesis ..
qed

text \<open>A session over the backend in memory, with what its client sends.\<close>

definition mem_session :: "scp_command \<Rightarrow> node list scp_session" where
  "mem_session c = \<lparr>command = c, filesystem = mem_fs, limiter = Slots 1\<rparr>"

definition mem_channel :: "bytes \<Rightarrow> node list scp_state" where
  "mem_channel i = \<lparr>served = mem_state, slots = 0, inbound = i, inbound_end = StreamEnd, outbound = [],
     write_plan = [], stderr_out = [], refused = False\<rparr>"

definition sample_node :: node where
  "sample_node = Entry (no_attrs\<lparr>File := ''a b''\<rparr>) []"

theorem scp_header_roundtrip_witness:
  "parse_scp_file_header ''C0644 5 a b'' = Inr (5, ''a b'')"
proof -
  have h: "file_header sample_node 5 = ''C0644 5 a b''" by code_simp
  have v: "valid_name (entry_name sample_node)" "newline \<notin> set (entry_name sample_node)"
      "entry_name sample_node = ''a b''" by code_simp+
  have n: "in_int64 5" "(0 :: int) \<le> 5" by (simp_all add: in_int64_def)
  have l: "int (length (file_header sample_node 5)) \<le> max_scp_line" unfolding h by (simp add: max_scp_line_def)
  have s: "inbound (mem_channel (file_header sample_node 5 @ newline # [])) = file_header sample_node 5 @ newline # []"
    by (simp add: mem_channel_def)
  show ?thesis using conjunct2 [OF scp_header_roundtrip [OF v(1,2) n(2,1) l s]] unfolding h v(3) .
qed

text \<open>
  A valid name may hold a newline, and is then announced in two lines: what is read back is a
  file of another name, and a line of the protocol the name spells.
\<close>

definition two_line_node :: node where
  "two_line_node = Entry (no_attrs\<lparr>File := ''a'' @ newline # ''D0755 0 b''\<rparr>) []"

lemma newline_splits_header:
  "valid_name (entry_name two_line_node) \<and>
   (case read_line (mem_channel (file_header two_line_node 5 @ [newline])) of
      (r, t) \<Rightarrow> r = Inr ''C0644 5 a'' \<and> inbound t = ''D0755 0 b'' @ [newline])"
  by code_simp

text \<open>A stream that ends in the middle of a control line has ended, and the session went well.\<close>

definition cut_off_upload :: scp_command where
  "cut_off_upload = no_command\<lparr>sink := True, cmd_path := ''/d''\<rparr>"

lemma cut_off_line_is_the_end:
  "map_option fst (scp_run (mem_session cut_off_upload) (mem_channel ''C0644 5'')) = Some True"
  by code_simp

section \<open>Where an upload can land\<close>

definition at_or_below :: "string list \<Rightarrow> string \<Rightarrow> bool" where
  "at_or_below parts p \<longleftrightarrow> (case split_path p of None \<Rightarrow> False | Some ps \<Rightarrow> prefix parts ps \<and> p = join_path ps)"

lemma valid_name_part: "valid_name name \<Longrightarrow> valid_part name"
  by (auto simp: valid_name_def valid_part_def)

lemma at_or_below_join:
  assumes "at_or_below parts p" and "valid_name name"
  shows "at_or_below parts (path_join p name)"
proof -
  obtain ps where ps: "split_path p = Some ps" "prefix parts ps" "p = join_path ps"
    using assms(1) by (auto simp: at_or_below_def split: option.splits)
  have v: "valid_parts (ps @ [name])"
    using split_path_valid [OF ps(1)] valid_name_part [OF assms(2)] by simp
  then have "path_join p name = join_path (ps @ [name])"
    using path_join_abs_path [of ps name] valid_part_ordinary ps(3) by (simp add: join_path_abs_path)
  moreover have "prefix parts (ps @ [name])" using ps(2) by (simp add: prefix_append)
  ultimately show ?thesis using split_path_join_path [OF v] by (simp add: at_or_below_def)
qed

text \<open>
  C20. An SCP upload only creates files and makes directories at or below its target: whatever
  control lines the client sends, an invariant kept by Stat and by creating and writing at
  paths at or below the target holds after the session.
\<close>

theorem scp_upload_below_target:
  assumes "split_path target = Some parts" and "target = join_path parts"
    and "\<And>p. keeps J (fs_stat f p)"
    and "\<And>p. at_or_below parts p \<Longrightarrow> keeps J (fs_create f p) \<and> keeps J (fs_mkdir f p)"
    and "\<And>p s wr t. at_or_below parts p \<Longrightarrow> fs_create f p s = (Inr wr, t) \<Longrightarrow> writes_keep J wr"
    and "filesystem ss = f" and "J (served s)"
  shows "J (served (snd (receive ss target s)))"
proof -
  have c: "sink_contract f J (at_or_below parts)"
    using assms(3-5) at_or_below_join by unfold_locales simp_all
  have "at_or_below parts target" using assms(1,2) by (simp add: at_or_below_def)
  then show ?thesis by (rule keepsD [OF sink_contract.receive_kept [OF c assms(6)] assms(7)])
qed

lemma mem_fs_backend: "fs_backends mem_fs sch = Some b \<Longrightarrow> b = mem_backend"
  by (auto simp: mem_fs_def fs_new_def split: if_splits)

theorem scp_upload_below_target_witness:
  "distinct (world (served (snd (receive (mem_session sample_upload) ''/d/new''
     (mem_channel (''C0644 5 new'' @ newline # ''hello'' @ [scp_ok]))))))"
proof -
  have l: "kept_by_backends mem_fs distinct"
    using mem_keeps by unfold_locales (simp_all add: registered_keep_def backend_keeps_def)
  have sp: "split_path ''/d/new'' = Some [''d'', ''new'']" "''/d/new'' = join_path [''d'', ''new'']" by code_simp+
  note keep = kept_by_backends.operations_keep [OF l]
  have w: "writes_keep (\<lambda>s. distinct (world s)) wr" if "fs_create mem_fs p s = (Inr wr, t)" for p s wr t
    using kept_by_backends.create_writer_keeps [OF l that]
    by (simp add: writes_keep_def keeps_writer_def keeps_def world_on_world)
  have f: "filesystem (mem_session sample_upload) = mem_fs" by (simp add: mem_session_def)
  have "distinct [mem_file ''a'', mem_file ''b'']" by code_simp
  then have d: "distinct (world (served (mem_channel i)))" for i
    by (simp only: mem_channel_def scp_state.simps mem_state_world)
  have st: "keeps (\<lambda>s. distinct (world s)) (fs_stat mem_fs p)"
    and cm: "keeps (\<lambda>s. distinct (world s)) (fs_create mem_fs p) \<and> keeps (\<lambda>s. distinct (world s)) (fs_mkdir mem_fs p)" for p
    using keep by simp_all
  show ?thesis
    using scp_upload_below_target [where f = mem_fs and J = "\<lambda>s. distinct (world s)", OF sp st cm w f d] .
qed

text \<open>
  C21. A file whose bytes do not all arrive, followed by the verdict of the client that they
  are right, is never closed: whatever creating a file, writing to it and aborting it leave
  unchanged is unchanged.
\<close>

theorem scp_partial_upload_not_published:
  assumes "keeps J (fs_create (filesystem ss) destination)"
    and "\<And>s wr t. fs_create (filesystem ss) destination s = (Inr wr, t) \<Longrightarrow>
           (\<forall>x off. keeps J (on_world (write_at wr x off))) \<and> keeps J (on_world (write_abort wr))"
    and "J (served s)" and "0 \<le> n"
    and "\<nexists>data rest. inbound s = data @ scp_ok # rest \<and> int (length data) = n"
  shows "J (served (snd (receive_into ss destination n s)))"
proof -
  have na: "\<not> arrives_whole n (inbound s)" unfolding arrives_whole_iff [OF assms(4)] by (rule assms(5))
  show ?thesis
    by (rule receive_into_incomplete [where J = J, OF assms(1) _ assms(3) na]) (rule assms(2))
qed

theorem scp_partial_upload_not_published_witness:
  "world (served (snd (receive_into (mem_session sample_upload) ''/d/new'' 5 (mem_channel ''hell'')))) =
     [mem_file ''a'', mem_file ''b'']"
proof -
  let ?J = "\<lambda>s. world s = [mem_file ''a'', mem_file ''b'']"
  have l: "kept_by_listing mem_fs (\<lambda>w. w = [mem_file ''a'', mem_file ''b''])"
    by unfold_locales (auto dest!: mem_fs_backend simp: mem_backend_def keeps_def)
  have b: "backend_for mem_fs n = Inr b \<Longrightarrow> b = mem_backend" for n b
    using backend_for_registered mem_fs_backend by blast
  have c: "keeps ?J (fs_create mem_fs ''/d/new'')"
    by (rule kept_by_listing.create_kept [OF l]) (auto dest!: b simp: mem_backend_def keeps_def)
  have w: "(\<forall>x off. keeps ?J (on_world (write_at wr x off))) \<and> keeps ?J (on_world (write_abort wr))"
    if made: "fs_create mem_fs ''/d/new'' s = (Inr wr, t)" for s wr t
  proof -
    obtain n b' wr0 w w' where "backend_for mem_fs n = Inr b'" "backend_create b' n w = (Inr wr0, w')"
      "wr = wr0 \<or> wr = size_limited_writer wr0 (MaxUploadSize (attrs_of n))"
      using created_writer [OF made] .
    then have "wr = mem_writer n \<or> wr = size_limited_writer (mem_writer n) (MaxUploadSize (attrs_of n))"
      using b [of n b'] by (auto simp: mem_backend_def)
    then show ?thesis by (auto simp: keeps_def world_on_world mem_writer_def size_limited_writer_def)
  qed
  show ?thesis
    by (rule scp_partial_upload_not_published [where n = 5])
       (use c w in \<open>auto simp: mem_session_def mem_channel_def mem_state_world Cons_eq_append_conv\<close>)
qed

end
