(* ===== verification/Scp_Upload.thy ===== *)
theory Scp_Upload
  imports Scp_Properties Localfs_Properties
begin

text \<open>
  SCP over the local backend, end to end: a file the sink accepted is in place on the host,
  byte for byte what the client sent.
\<close>

section \<open>Contiguous windows\<close>

text \<open>A writer that says it wrote everything when it reports no error.\<close>

definition honest :: "'w writer \<Rightarrow> bool" where
  "honest wr \<longleftrightarrow> (\<forall>d off w c w'. write_at wr d off w = ((c, None), w') \<longrightarrow> c = length d)"

text \<open>Windows one after the other, each with the offset it goes to.\<close>

fun laid_out :: "int \<Rightarrow> bytes list \<Rightarrow> (bytes \<times> int64) list" where
  "laid_out k [] = []"
| "laid_out k (d # ds) = (d, word_of_int k) # laid_out (k + int (length d)) ds"

lemma store_all_failed: "store_all wr ds off (Some e) s = ((off, Some e), s)"
  by (induction ds) (simp_all add: store_window_def)

lemma store_all_laid_out:
  assumes "honest wr" and "\<forall>d \<in> set ds. d \<noteq> []"
    and "store_all wr ds (word_of_int k) None s = ((off', None), t)"
  shows "write_through wr (laid_out k ds) (world (served s)) = Some (world (served t))"
  using assms(2,3)
proof (induction ds arbitrary: k s)
  case (Cons d ds)
  obtain c err u where w: "on_handle (write_at wr d (word_of_int k)) s = ((c, err), u)" by (metis surj_pair)
  then obtain x where x: "write_at wr d (word_of_int k) (world (served s)) = ((c, err), x)" "world (served u) = x"
    by (auto simp: on_handle_def on_world_def split: prod.splits)
  have st: "store_window wr d (word_of_int k) None s =
      ((word_of_int k + word_of_nat c, if err = None then None else Some ErrFailure), u)"
    using Cons.prems(1) w by (simp add: store_window_def)
  have e: "err = None"
    using Cons.prems(2) st store_all_failed [of wr ds _ ErrFailure u] by (auto split: if_splits)
  then have "c = length d" using assms(1) x(1) unfolding honest_def by blast
  then have "store_all wr ds (word_of_int (k + int (length d))) None u = ((off', None), t)"
    using Cons.prems(2) st e by simp
  from Cons.IH [OF _ this] Cons.prems(1) show ?case using x e by simp
qed simp

lemma overwrite_end: "overwrite old (length old) d = old @ d"
  by (simp add: overwrite_def)

lemma apply_laid_out:
  "0 \<le> k \<Longrightarrow> k + int (length (concat ds)) < 9223372036854775808 \<Longrightarrow> int (length old) = k \<Longrightarrow>
     foldl apply_write old (laid_out k ds) = old @ concat ds"
proof (induction ds arbitrary: k old)
  case (Cons d ds)
  have "sint (word_of_int k :: int64) = k"
    using Cons.prems by (subst sint_sbintrunc') (simp add: signed_take_bit_int_eq_self)
  then have "apply_write old (d, word_of_int k) = old @ d"
    using Cons.prems(3) overwrite_end [of old d] by (auto simp: apply_write_def)
  then show ?case using Cons.IH [of "k + int (length d)" "old @ d"] Cons.prems by simp
qed simp

lemma write_through_limited:
  "write_through (size_limited_writer wr m) ds w = Some w' \<Longrightarrow> write_through wr ds w = Some w'"
  by (induction wr ds w rule: write_through.induct)
     (auto simp: size_limited_writer_def split: if_splits prod.splits option.splits)

lemma honest_limited: "honest wr \<Longrightarrow> honest (size_limited_writer wr m)"
  by (simp add: honest_def size_limited_writer_def)

lemma honest_upload: "honest (upload_writer u)"
  by (auto simp: honest_def upload_writer_def upload_write_at_def on_os_def os_write_at_def Let_def
      split: option.splits prod.splits if_splits handle.splits)

section \<open>A file the sink accepted\<close>

text \<open>
  When \<open>receiveFile\<close> has nothing to report, the file was created, every window was stored, and
  the close succeeded.
\<close>

lemma receive_into_accepted:
  assumes "receive_into ss d n s = (Inr (), t)" and "\<not> refused t"
  shows "\<exists>wr s1 off t1. fs_create (filesystem ss) d (served s) = (Inr wr, s1) \<and>
           nat n < length (inbound s) \<and>
           (\<exists>u. served u = s1 \<and> store_all wr (windows (take (nat n) (inbound s))) 0 None u = ((off, None), t1)) \<and>
           (\<exists>w. write_close wr (world (served t1)) = (None, w) \<and> world (served t) = w)"
proof -
  have fl: "refused y" if "scp_fail v e x = (r, y)" for v e r and x y :: "'a scp_state"
    using that by (auto simp: scp_fail_def channel_write_def split: list.splits option.splits)
  obtain r s0 where c: "on_fs (fs_create (filesystem ss) d) s = (r, s0)" by (metis surj_pair)
  obtain wr where wr: "r = Inr wr"
    using assms c fl [of d _ s0 "Inr ()" t] by (cases r) (auto simp: receive_into_def)
  then have cr: "fs_create (filesystem ss) d (served s) = (Inr wr, served s0)" "inbound s0 = inbound s"
    using c by (auto simp: on_fs_def split: prod.splits sum.splits)
  obtain a u where a: "ack s0 = (a, u)" by (metis surj_pair)
  have u: "served u = served s0" "inbound u = inbound s"
    using a cr(2) by (auto simp: ack_def channel_write_def split: list.splits option.splits)
  obtain x v where x: "receive_contents wr n 0 None u = (x, v)" by (metis surj_pair)
  obtain y z where y: "read_byte v = (y, z)" by (metis surj_pair)
  have z: "served z = served v" using y by (metis read_byte_fields(4) snd_conv)
  obtain e q where q: "on_handle (write_close wr) z = (e, q)" by (metis surj_pair)
  have f: "x = None \<and> y = Inr scp_ok \<and> e = None \<and> ack q = (Inr (), t)"
    using assms c wr a x y q fl [where y = t]
    by (auto simp: receive_into_def split: sum.splits if_splits option.splits)
  obtain off f' t1 where st: "store_all wr (windows (take (nat n) (inbound u))) 0 None
      (u\<lparr>inbound := drop (nat n) (inbound u)\<rparr>) = ((off, f'), t1)" by (metis surj_pair)
  have t1: "f' = None" "v = t1"
    using x f st by (auto simp: receive_contents_take take_contents_def split: if_splits)
  have "inbound v = drop (nat n) (inbound u)" using store_all_stream [OF st] t1 by simp
  then have len: "nat n < length (inbound s)"
    using f y u(2) by (auto simp: read_byte_def read_full_def split: if_splits)
  have cl: "write_close wr (world (served t1)) = (None, world (served t))"
    using q f z t1 by (auto simp: on_handle_def on_world_def ack_def channel_write_def
        split: prod.splits list.splits option.splits)
  have "served (u\<lparr>inbound := drop (nat n) (inbound u)\<rparr>) = served s0" using u(1) by simp
  then show ?thesis using cr(1) len st t1 u(2) cl by metis
qed

text \<open>
  C18. A file an SCP client uploads to the local backend, when the sink accepts it without a
  report, is in place under its name byte for byte as it was sent: the size announced, the
  bytes of the stream, laid out by the windows they were copied through, and every other name
  of the host as it was.
\<close>

theorem scp_upload_publishes:
  assumes "filesystem ss = local_fs r roots" and "split_path d = Some parts"
    and "node_to_create (local_fs r roots) parts (served s) = (Inr node, s1)"
    and "local_resolve roots node = Inr l" and "placed l es x" and "wf_host (os (world s1))"
    and "0 \<le> n" and "in_int64 n"
    and "receive_into ss d n s = (Inr (), t)" and "\<not> refused t"
  shows "int (length (take (nat n) (inbound s))) = n \<and>
    (\<exists>i. object_at (os (world (served t))) (dest_path l es x) = Some (RegularAt i) \<and>
         file_contents (world (served t)) i = take (nat n) (inbound s) \<and>
         (\<forall>q. q \<noteq> dest_path l es x \<longrightarrow>
            object_at (os (world (served t))) q = object_at (os (world s1)) q))"
proof -
  let ?d = "take (nat n) (inbound s)"
  obtain wr s2 off t1 u w where a: "fs_create (local_fs r roots) d (served s) = (Inr wr, s2)"
      "nat n < length (inbound s)" "served u = s2" "store_all wr (windows ?d) 0 None u = ((off, None), t1)"
      "write_close wr (world (served t1)) = (None, w)" "world (served t) = w"
    using receive_into_accepted [OF assms(9,10)] assms(1) by auto
  have ne: "parts \<noteq> []" using a(1) assms(2) by (auto simp: fs_create_def)
  obtain b wr0 w2 where b: "backend_for (local_fs r roots) node = Inr b"
      "backend_create b node (world s1) = (Inr wr0, w2)" "world s2 = w2"
      "wr = wr0 \<or> wr = size_limited_writer wr0 (MaxUploadSize (attrs_of node))"
    using a(1) assms(2,3) ne
    by (auto simp: fs_create_def bindE_Inr_iff on_world_def split: if_splits prod.splits)
  have "b = local_backend roots"
    using backend_for_registered [OF b(1)] by (auto simp: local_fs_def split: if_splits)
  then have c: "local_create roots node (world s1) = (Inr wr0, w2)" using b(2) by (simp add: local_backend_def)
  then obtain k where k: "wr0 = upload_writer k" using local_create_begins [OF _ assms(4,5)] by blast
  have "write_through wr (laid_out 0 (windows ?d)) w2 = Some (world (served t1))"
  proof -
    have "honest wr" using b(4) honest_upload honest_limited unfolding k by metis
    moreover have "\<forall>x \<in> set (windows ?d). x \<noteq> []" using windows_not_Nil by blast
    ultimately show ?thesis using store_all_laid_out [of wr "windows ?d" 0 u off t1] a(3,4) b(3) by simp
  qed
  then have w: "write_through wr0 (laid_out 0 (windows ?d)) w2 = Some (world (served t1))"
    using b(4) write_through_limited [of wr0 "MaxUploadSize (attrs_of node)"] by auto
  have cl: "write_close wr0 (world (served t1)) = (None, w)" using a(5) b(4) by (auto simp: size_limited_writer_def)
  have len: "int (length ?d) = n" using a(2) assms(7) by simp
  have ap: "foldl apply_write [] (laid_out 0 (windows ?d)) = ?d"
    using apply_laid_out [of 0 "windows ?d" "[]"] len assms(8) by (simp add: concat_windows in_int64_def)
  show ?thesis
    using local_upload_replaces [OF assms(4,5,6) c w cl] len ap a(6) by auto
qed

text \<open>A session over the sample host: \<open>hello\<close> uploaded over the file \<open>/f\<close>, one state after another.\<close>

definition up_session :: "local_world scp_session" where
  "up_session = \<lparr>command = sample_upload, filesystem = local_fs sample_root sample_roots, limiter = Unlimited\<rparr>"

definition up_channel :: "local_world scp_state" where
  "up_channel = \<lparr>served = state sample_client, slots = 0, inbound = ''hello'' @ [scp_ok], inbound_end = StreamEnd,
     outbound = [], write_plan = [], stderr_out = [], refused = False\<rparr>"

lemma up_receive:
  "\<exists>t. receive_into up_session ''/f'' 5 up_channel = (Inr (), t) \<and> \<not> refused t \<and> world (served t) = up_closed"
proof -
  have w: "windows ''hello'' = [''hello'']"
    by (subst windows.simps) (simp add: transfer_buffer_def)
  show ?thesis
    using up_create up_write up_close
    by (simp add: receive_into_def up_session_def up_channel_def on_fs_def ack_def channel_write_def
        receive_contents_take take_contents_def w store_window_def on_handle_def on_world_def
        read_byte_def read_full_def)
qed

theorem scp_upload_publishes_witness:
  "\<exists>i. object_at (os up_closed) [''srv'', ''a'', ''f''] = Some (RegularAt i) \<and> file_contents up_closed i = ''hello''"
proof -
  obtain t where t: "receive_into up_session ''/f'' 5 up_channel = (Inr (), t)" "\<not> refused t"
      "world (served t) = up_closed" using up_receive by blast
  have f: "filesystem up_session = local_fs sample_root sample_roots" by (simp add: up_session_def)
  have p: "split_path ''/f'' = Some [''f'']" by code_simp
  have s: "served up_channel = state sample_client" "take (nat 5) (inbound up_channel) = ''hello''"
    by (simp_all add: up_channel_def)
  have pl: "placed up_at [] ''f''" "dest_path up_at [] ''f'' = [''srv'', ''a'', ''f'']" by code_simp+
  have "same_names sample_host (os (world up_resolved))" by code_simp
  then have w: "wf_host (os (world up_resolved))"
    using sample_wf by (simp add: wf_host_def same_names_def object_at_def is_directory_at_def)
  have n: "(0 :: int) \<le> 5" "in_int64 5" by (simp_all add: in_int64_def)
  from scp_upload_publishes [OF f p up_node [folded s(1)] up_located pl(1) w n t(1,2)] show ?thesis
    unfolding s(2) pl(2) t(3) by blast
qed


section \<open>Confinement\<close>

text \<open>
  A whole SCP session over the local backend, in either direction, whatever its client
  sends and whichever writes to the client fail, leaves every name outside the allowed
  prefixes and every file that was there before as they were.
\<close>

theorem scp_session_confined:
  assumes "filesystem ss = local_fs r roots" and "idle (world (served s))"
    and "scp_run ss s = Some (ok, t)"
  shows "(\<forall>p. (\<forall>r \<in> set roots. \<not> prefix (components r) p) \<longrightarrow>
            object_at (os (world (served t))) p = object_at (os (world (served s))) p) \<and>
         (\<forall>i < next_inode (os (world (served s))).
            inodes (os (world (served t))) i = inodes (os (world (served s))) i)"
proof -
  have "confined roots (os (world (served s))) (world (served t))"
    using kept_by_backends.scp_run_kept [OF local_fs_kept assms(1) _ assms(3)] idle_confined [OF assms(2)] .
  then show ?thesis using confined_outside confined_inodes by blast
qed

theorem scp_session_confined_witness:
  "\<exists>ok t. scp_run up_session up_channel = Some (ok, t) \<and>
     object_at (os (world (served t))) [''etc'', ''p''] = Some (RegularAt 1)"
proof -
  obtain ok t where t: "scp_run up_session up_channel = Some (ok, t)" using scp_run_stream by blast
  have f: "filesystem up_session = local_fs sample_root sample_roots" by (simp add: up_session_def)
  have w: "world (served up_channel) = sample_world" by (simp add: up_channel_def sample_client_def)
  then have i: "idle (world (served up_channel))" using sample_idle by simp
  have p: "\<forall>r \<in> set sample_roots. \<not> prefix (components r) [''etc'', ''p'']" by code_simp
  have o: "object_at (os sample_world) [''etc'', ''p''] = Some (RegularAt 1)" by code_simp
  show ?thesis using scp_session_confined [OF f i t] p o t w by simp
qed

end
