(* ===== verification/Sftp.thy ===== *)
theory Sftp
  imports Uploads
begin

text \<open>
  The SFTP handlers: \<open>server/internal/server/sftpfs.go\<close>. The request server of
  \<open>github.com/pkg/sftp\<close> calls one handler per request, and the methods of the readers,
  writers and listers they return; which calls it makes, on which handles and in which order
  is the relation \<open>sftp_step\<close>, which leaves it free. The limit on uploads is shared by every
  channel of a connection, so the state is that of a connection.

  Each handler is one step. Spans are not modelled; the class an error is recorded under is.
\<close>

section \<open>Outcomes\<close>

text \<open>The statuses of the protocol that a handler may answer with.\<close>

datatype sftp_status = NoSuchFile | PermissionDenied | OpUnsupported | Failure

definition status_error :: "verror \<Rightarrow> sftp_status" where
  "status_error e =
     (case e of
        ErrNotExist \<Rightarrow> NoSuchFile
      | ErrPermission \<Rightarrow> PermissionDenied
      | ErrUnsupported \<Rightarrow> OpUnsupported
      | _ \<Rightarrow> Failure)"

definition operation_class :: "io_error option \<Rightarrow> string option" where
  "operation_class err =
     (case err of
        None \<Rightarrow> None
      | Some EOF \<Rightarrow> None
      | Some (IOErr ErrNotExist) \<Rightarrow> Some ''not_found''
      | Some (IOErr ErrPermission) \<Rightarrow> Some ''permission''
      | Some (IOErr ErrUnsupported) \<Rightarrow> Some ''unsupported''
      | Some (IOErr _) \<Rightarrow> Some ''failure'')"

section \<open>File information\<close>

type_synonym file_mode = uint32

definition mode_dir :: file_mode where "mode_dir = 2147483648"

record node_info =
  fi_name :: string
  fi_size :: int64
  fi_mode :: file_mode
  fi_mtime :: "instant option"
  fi_is_dir :: bool

text \<open>\<open>FileMode.Type\<close>: the bits that say what kind of file it is, of which the code sets one.\<close>

definition mode_type :: "file_mode \<Rightarrow> file_mode" where
  "mode_type m = and m 2401763328"

definition file_info_for :: "node \<Rightarrow> node_info" where
  "file_info_for node =
     (let mode = (if is_directory node then or mode_dir 511 else 438);
          mode' = (case Permissions (attrs_of node) of
                     None \<Rightarrow> mode
                   | Some p \<Rightarrow> or (mode_type mode) p)
      in \<lparr>fi_name = entry_name node, fi_size = Size (attrs_of node), fi_mode = mode',
          fi_mtime = Mtime (attrs_of node), fi_is_dir = is_directory node\<rparr>)"

text \<open>
  \<open>ListAt\<close>: the entries copied, and whether the end was reached. A negative offset would be a
  slice out of range, which is \<open>None\<close>.
\<close>

definition list_at :: "node_info list \<Rightarrow> nat \<Rightarrow> int \<Rightarrow> (node_info list \<times> bool) option" where
  "list_at entries count offset =
     (if int (length entries) \<le> offset then Some ([], True)
      else if offset < 0 then None
      else (let copied = take count (drop (nat offset) entries)
            in Some (copied, length copied < count)))"

section \<open>State\<close>

text \<open>An upload handle: the writer it wraps and whether its slot has been given back.\<close>

record 'w upload_handle =
  uh_writer :: "'w writer"
  uh_released :: bool

record 'w connection =
  conn_fs :: "'w fs_state"
  conn_slots :: int
  conn_uploads :: "nat \<rightharpoonup> 'w upload_handle"
  conn_next :: nat

record 'w handler_factory =
  hf_fs :: "'w fs"
  hf_uploads :: upload_limiter

definition new_handler_factory :: "'w fs \<Rightarrow> int \<Rightarrow> 'w handler_factory" where
  "new_handler_factory filesystem maxConcurrentUploads =
     \<lparr>hf_fs = filesystem, hf_uploads = new_upload_limiter maxConcurrentUploads\<rparr>"

record sftp_request =
  rq_method :: string
  rq_filepath :: string
  rq_target :: string
  rq_append :: bool

section \<open>Handlers\<close>

text \<open>A call of the filesystem whose error becomes a status.\<close>

definition served_fs :: "('w fs_state, verror, 'a) op \<Rightarrow> ('w connection, sftp_status, 'a) op" where
  "served_fs m c =
     (case m (conn_fs c) of
        (Inl e, t) \<Rightarrow> (Inl (status_error e), c\<lparr>conn_fs := t\<rparr>)
      | (Inr x, t) \<Rightarrow> (Inr x, c\<lparr>conn_fs := t\<rparr>))"

definition fileread :: "'w handler_factory \<Rightarrow> sftp_request \<Rightarrow> ('w connection, sftp_status, 'w reader) op" where
  "fileread F rq = served_fs (fs_open (hf_fs F) (rq_filepath rq))"

definition filewrite :: "'w handler_factory \<Rightarrow> sftp_request \<Rightarrow> ('w connection, sftp_status, nat) op" where
  "filewrite F rq c =
     (if rq_append rq then (Inl OpUnsupported, c)
      else (case acquire (hf_uploads F) (conn_slots c) of
        None \<Rightarrow> (Inl (status_error ErrFailure), c)
      | Some taken \<Rightarrow>
          (case served_fs (fs_create (hf_fs F) (rq_filepath rq)) (c\<lparr>conn_slots := taken\<rparr>) of
             (Inl e, t) \<Rightarrow> (Inl e, t\<lparr>conn_slots := release (hf_uploads F) (conn_slots t)\<rparr>)
           | (Inr wr, t) \<Rightarrow>
               (Inr (conn_next t),
                t\<lparr>conn_uploads := (conn_uploads t)(conn_next t \<mapsto> \<lparr>uh_writer = wr, uh_released = False\<rparr>),
                  conn_next := Suc (conn_next t)\<rparr>))))"

definition filecmd :: "'w handler_factory \<Rightarrow> sftp_request \<Rightarrow> ('w connection, sftp_status, unit) op" where
  "filecmd F rq =
     (if rq_method rq = ''Setstat'' then
        bindE (served_fs (fs_stat (hf_fs F) (rq_filepath rq))) (\<lambda>_. returnE ())
      else if rq_method rq = ''Mkdir'' then served_fs (fs_mkdir (hf_fs F) (rq_filepath rq))
      else if rq_method rq = ''Remove'' \<or> rq_method rq = ''Rmdir'' then served_fs (fs_remove (hf_fs F) (rq_filepath rq))
      else if rq_method rq = ''Rename'' then served_fs (fs_rename (hf_fs F) (rq_filepath rq) (rq_target rq))
      else failE OpUnsupported)"

definition filelist :: "'w handler_factory \<Rightarrow> sftp_request \<Rightarrow> ('w connection, sftp_status, node_info list) op" where
  "filelist F rq =
     (if rq_method rq = ''Stat'' then
        bindE (served_fs (fs_stat (hf_fs F) (rq_filepath rq))) (\<lambda>node. returnE [file_info_for node])
      else if rq_method rq = ''List'' then
        bindE (served_fs (fs_list (hf_fs F) (rq_filepath rq))) (\<lambda>children. returnE (map file_info_for children))
      else failE OpUnsupported)"

section \<open>Upload handles\<close>

text \<open>A method of the writer a handle wraps.\<close>

definition on_conn :: "('w \<Rightarrow> 'r \<times> 'w) \<Rightarrow> 'w connection \<Rightarrow> 'r \<times> 'w connection" where
  "on_conn m c = (case on_world m (conn_fs c) of (r, t) \<Rightarrow> (r, c\<lparr>conn_fs := t\<rparr>))"

text \<open>\<open>once.Do(release)\<close>.\<close>

definition release_once :: "'w handler_factory \<Rightarrow> nat \<Rightarrow> 'w upload_handle \<Rightarrow> 'w connection \<Rightarrow> 'w connection" where
  "release_once F h u c =
     (if uh_released u then c
      else c\<lparr>conn_slots := release (hf_uploads F) (conn_slots c),
             conn_uploads := (conn_uploads c)(h \<mapsto> u\<lparr>uh_released := True\<rparr>)\<rparr>)"

definition traced_write_at :: "'w upload_handle \<Rightarrow> bytes \<Rightarrow> int64 \<Rightarrow> 'w connection \<Rightarrow>
    (nat \<times> verror option) \<times> 'w connection" where
  "traced_write_at u data offset = on_conn (write_at (uh_writer u) data offset)"

definition traced_close :: "'w handler_factory \<Rightarrow> nat \<Rightarrow> 'w upload_handle \<Rightarrow> 'w connection \<Rightarrow>
    verror option \<times> 'w connection" where
  "traced_close F h u c =
     (case on_conn (write_close (uh_writer u)) c of (err, t) \<Rightarrow> (err, release_once F h u t))"

definition traced_abort :: "'w handler_factory \<Rightarrow> nat \<Rightarrow> 'w upload_handle \<Rightarrow> 'w connection \<Rightarrow>
    verror option \<times> 'w connection" where
  "traced_abort F h u c =
     (case on_conn (write_abort (uh_writer u)) c of (err, t) \<Rightarrow> (err, release_once F h u t))"

text \<open>\<open>TransferError\<close>: a transfer that ended badly is aborted before its handle is closed.\<close>

definition transfer_error :: "'w handler_factory \<Rightarrow> nat \<Rightarrow> 'w upload_handle \<Rightarrow> 'w connection \<Rightarrow> 'w connection" where
  "transfer_error F h u c = snd (traced_abort F h u c)"

text \<open>A reader needs no state of the handler: its methods are those of the reader opened.\<close>

definition traced_read_at :: "'w reader \<Rightarrow> nat \<Rightarrow> int64 \<Rightarrow> 'w connection \<Rightarrow>
    (bytes \<times> io_error option) \<times> 'w connection" where
  "traced_read_at rd count offset = on_conn (read_at rd count offset)"

definition traced_reader_close :: "'w reader \<Rightarrow> 'w connection \<Rightarrow> verror option \<times> 'w connection" where
  "traced_reader_close rd = on_conn (read_close rd)"

section \<open>A connection\<close>

text \<open>The request server calls handlers, and the methods of handles it was given, in any order.\<close>

inductive sftp_step :: "'w handler_factory \<Rightarrow> 'w connection \<Rightarrow> 'w connection \<Rightarrow> bool" for F where
  read_file: "sftp_step F c (snd (fileread F rq c))"
| write_file: "sftp_step F c (snd (filewrite F rq c))"
| command: "sftp_step F c (snd (filecmd F rq c))"
| list_files: "sftp_step F c (snd (filelist F rq c))"
| handle_write: "conn_uploads c h = Some u \<Longrightarrow> sftp_step F c (snd (traced_write_at u data offset c))"
| handle_close: "conn_uploads c h = Some u \<Longrightarrow> sftp_step F c (snd (traced_close F h u c))"
| handle_abort: "conn_uploads c h = Some u \<Longrightarrow> sftp_step F c (snd (traced_abort F h u c))"
| handle_failed: "conn_uploads c h = Some u \<Longrightarrow> sftp_step F c (transfer_error F h u c)"
| reader_read: "fs_open (hf_fs F) p s = (Inr rd, t) \<Longrightarrow> sftp_step F c (snd (traced_read_at rd count offset c))"
| reader_close: "fs_open (hf_fs F) p s = (Inr rd, t) \<Longrightarrow> sftp_step F c (snd (traced_reader_close rd c))"

inductive sftp_steps :: "'w handler_factory \<Rightarrow> 'w connection \<Rightarrow> 'w connection \<Rightarrow> bool" for F where
  none: "sftp_steps F c c"
| more: "sftp_steps F c d \<Longrightarrow> sftp_step F d e \<Longrightarrow> sftp_steps F c e"

definition new_connection :: "'w fs_state \<Rightarrow> 'w connection" where
  "new_connection s = \<lparr>conn_fs = s, conn_slots = 0, conn_uploads = Map.empty, conn_next = 0\<rparr>"

inductive_cases sftp_step_cases: "sftp_step F c d"

end
