(* ===== verification/Sftp_Properties.thy ===== *)
theory Sftp_Properties
  imports Sftp Localfs_Properties
begin

text \<open>
  What the handlers keep to, whatever the request server calls and in whatever order: the
  uploads open at once are never more than the limit, every slot is given back once, and the
  world changes only through the backends.
\<close>

section \<open>Slots\<close>

definition open_uploads :: "'w connection \<Rightarrow> nat set" where
  "open_uploads c = {h. \<exists>u. conn_uploads c h = Some u \<and> \<not> uh_released u}"

definition slots_match :: "upload_limiter \<Rightarrow> 'w connection \<Rightarrow> bool" where
  "slots_match l c \<longleftrightarrow> finite (open_uploads c) \<and> (\<forall>h \<in> dom (conn_uploads c). h < conn_next c) \<and>
     (\<forall>n. l = Slots n \<longrightarrow> conn_slots c = int (card (open_uploads c)) \<and> conn_slots c \<le> n)"

lemma slots_match_fs [simp]: "slots_match l (c\<lparr>conn_fs := t\<rparr>) = slots_match l c"
  by (simp add: slots_match_def open_uploads_def)

lemma slots_new: "0 \<le> n \<Longrightarrow> l = Slots n \<or> l = Unlimited \<Longrightarrow> slots_match l (new_connection s)"
  by (auto simp: slots_match_def new_connection_def open_uploads_def)

lemma served_fs_slots: "slots_match l (snd (served_fs m c)) = slots_match l c"
  by (simp add: served_fs_def split: prod.splits sum.splits)

lemma on_conn_slots: "slots_match l (snd (on_conn m c)) = slots_match l c"
  by (simp add: on_conn_def split: prod.splits)

lemma bind_served_slots:
  "slots_match l (snd (bindE (served_fs m) (\<lambda>x. returnE (g x)) c)) = slots_match l c"
  by (simp add: bindE_app served_fs_def split: prod.splits sum.splits)

lemma release_once_slots:
  assumes "slots_match (hf_uploads F) c" and "conn_uploads c h = Some u"
  shows "slots_match (hf_uploads F) (release_once F h u c)"
proof (cases "uh_released u")
  case True
  then show ?thesis using assms(1) by (simp add: release_once_def)
next
  case False
  let ?d = "release_once F h u c"
  have o: "open_uploads ?d = open_uploads c - {h}" "h \<in> open_uploads c"
    using False assms(2) by (auto simp: release_once_def open_uploads_def)
  have f: "finite (open_uploads c)" using assms(1) by (simp add: slots_match_def)
  have "int (card (open_uploads ?d)) = int (card (open_uploads c)) - 1"
    using card.remove [OF f o(2)] o(1) by simp
  then show ?thesis using assms False o f
    by (auto simp: slots_match_def release_once_def release_def split: upload_limiter.splits)
qed

lemma filewrite_slots:
  assumes "slots_match (hf_uploads F) c"
  shows "slots_match (hf_uploads F) (snd (filewrite F rq c))"
proof (cases "rq_append rq")
  case False
  show ?thesis
  proof (cases "acquire (hf_uploads F) (conn_slots c)")
    case None
    then show ?thesis using False assms by (simp add: filewrite_def)
  next
    case (Some taken)
    obtain r t where r: "served_fs (fs_create (hf_fs F) (rq_filepath rq)) (c\<lparr>conn_slots := taken\<rparr>) = (r, t)"
      by (metis surj_pair)
    obtain u where t: "t = c\<lparr>conn_slots := taken, conn_fs := u\<rparr>"
      using r by (auto simp: served_fs_def split: prod.splits sum.splits)
    show ?thesis
    proof (cases r)
      case (Inl e)
      have "c\<lparr>conn_slots := conn_slots c, conn_fs := u\<rparr> = c\<lparr>conn_fs := u\<rparr>" by simp
      then show ?thesis using False assms Some r t Inl by (simp add: filewrite_def)
    next
      case (Inr wr)
      let ?d = "snd (filewrite F rq c)"
      have d: "conn_slots ?d = taken" "conn_next ?d = Suc (conn_next c)"
          "conn_uploads ?d = (conn_uploads c)(conn_next c \<mapsto> \<lparr>uh_writer = wr, uh_released = False\<rparr>)"
        using False Some r t Inr by (simp_all add: filewrite_def)
      have new: "conn_next c \<notin> open_uploads c" "finite (open_uploads c)" "\<forall>h \<in> dom (conn_uploads c). h < conn_next c"
        using assms by (auto simp: slots_match_def open_uploads_def)
      have o: "open_uploads ?d = insert (conn_next c) (open_uploads c)"
        using d(3) by (auto simp: open_uploads_def split: if_splits)
      then have "card (open_uploads ?d) = Suc (card (open_uploads c))" using new by simp
      then show ?thesis using assms d new o Some
        by (auto simp: slots_match_def acquire_def less_Suc_eq split: if_splits)
    qed
  qed
qed (use assms in \<open>simp add: filewrite_def\<close>)

lemma on_conn_uploads: "conn_uploads (snd (on_conn m c)) = conn_uploads c"
  by (simp add: on_conn_def split: prod.splits)

lemma close_slots:
  assumes "slots_match (hf_uploads F) c" and "conn_uploads c h = Some u"
  shows "slots_match (hf_uploads F) (snd (traced_close F h u c))"
    and "slots_match (hf_uploads F) (snd (traced_abort F h u c))"
proof -
  have r: "slots_match (hf_uploads F) (release_once F h u (snd (on_conn m c)))" for m :: "'a \<Rightarrow> verror option \<times> 'a"
    using assms by (intro release_once_slots) (simp_all add: on_conn_slots on_conn_uploads)
  show "slots_match (hf_uploads F) (snd (traced_close F h u c))"
    using r [of "write_close (uh_writer u)"] by (simp add: traced_close_def case_prod_beta)
  show "slots_match (hf_uploads F) (snd (traced_abort F h u c))"
    using r [of "write_abort (uh_writer u)"] by (simp add: traced_abort_def case_prod_beta)
qed

lemma filecmd_slots: "slots_match l (snd (filecmd F rq c)) = slots_match l c"
  by (simp add: filecmd_def served_fs_slots bind_served_slots [where g = "\<lambda>_. ()", simplified])

lemma filelist_slots: "slots_match l (snd (filelist F rq c)) = slots_match l c"
  by (simp add: filelist_def bind_served_slots)

lemma sftp_step_slots: "sftp_step F c d \<Longrightarrow> slots_match (hf_uploads F) c \<Longrightarrow> slots_match (hf_uploads F) d"
proof (induction rule: sftp_step.induct)
  case (read_file c rq)
  then show ?case by (simp add: fileread_def served_fs_slots)
next
  case (write_file c rq)
  then show ?case by (rule filewrite_slots)
next
  case (handle_close c h u)
  then show ?case by (intro close_slots)
next
  case (handle_abort c h u)
  then show ?case by (intro close_slots)
next
  case (handle_failed c h u)
  then show ?case by (simp add: transfer_error_def close_slots)
qed (simp_all add: filecmd_slots filelist_slots traced_write_at_def traced_read_at_def traced_reader_close_def on_conn_slots)

lemma sftp_steps_slots: "sftp_steps F c d \<Longrightarrow> slots_match (hf_uploads F) c \<Longrightarrow> slots_match (hf_uploads F) d"
  by (induction rule: sftp_steps.induct) (auto dest: sftp_step_slots)


section \<open>Listings\<close>

text \<open>Reading a listing to its end, a buffer at a time.\<close>

function pages :: "node_info list \<Rightarrow> nat \<Rightarrow> nat \<Rightarrow> node_info list" where
  "pages entries n offset =
     (case list_at entries (Suc n) (int offset) of
        None \<Rightarrow> []
      | Some (copied, True) \<Rightarrow> copied
      | Some (copied, False) \<Rightarrow> copied @ pages entries n (offset + length copied))"
  by pat_completeness auto
termination
  by (relation "measure (\<lambda>(entries, n, offset). length entries - offset)")
     (auto simp: list_at_def Let_def split: if_splits)

declare pages.simps [simp del]

lemma pages_from: "pages entries n offset = drop offset entries"
proof (induction entries n offset rule: pages.induct)
  case (1 entries n offset)
  consider "length entries \<le> offset" | "offset < length entries" "length entries - offset \<le> n"
    | "offset < length entries" "n < length entries - offset" by linarith
  then show ?case
  proof cases
    case 3
    let ?c = "take (Suc n) (drop offset entries)"
    have l: "list_at entries (Suc n) (int offset) = Some (?c, False)" using 3 by (simp add: list_at_def)
    have "length ?c = Suc n" using 3 by simp
    then have "pages entries n (offset + Suc n) = drop (offset + Suc n) entries" using 1 [OF l refl] by simp
    moreover have "?c @ drop (offset + Suc n) entries = drop offset entries"
      by (metis add.commute append_take_drop_id drop_drop)
    ultimately show ?thesis using l \<open>length ?c = Suc n\<close> by (subst pages.simps) simp
  qed (subst pages.simps, simp add: list_at_def)+
qed

text \<open>
  Reading a listing a buffer at a time, each call from where the last one ended until one
  reports the end, gives every entry once and in order, for every size of buffer.
\<close>

theorem sftp_listing_read_to_its_end: "pages entries n 0 = entries"
  by (simp add: pages_from)


section \<open>The world\<close>

text \<open>An invariant the backends keep, and every writer behind a handle keeps.\<close>

definition conn_kept :: "('w \<Rightarrow> bool) \<Rightarrow> 'w connection \<Rightarrow> bool" where
  "conn_kept I c \<longleftrightarrow> I (world (conn_fs c)) \<and> (\<forall>u \<in> ran (conn_uploads c). keeps_writer I (uh_writer u))"

lemma keeps_served_fs: "keeps (\<lambda>s. I (world s)) m \<Longrightarrow> keeps (conn_kept I) (served_fs m)"
  by (auto simp: keeps_def conn_kept_def served_fs_def split: prod.splits sum.splits)

lemma conn_kept_on_conn:
  "conn_kept I c \<Longrightarrow> (\<And>w. I w \<Longrightarrow> I (snd (m w))) \<Longrightarrow> conn_kept I (snd (on_conn m c))"
  by (auto simp: conn_kept_def on_conn_def on_world_def split: prod.splits) (metis snd_conv)

lemma conn_kept_release: "conn_kept I c \<Longrightarrow> conn_uploads c h = Some u \<Longrightarrow> conn_kept I (release_once F h u c)"
  by (auto simp: conn_kept_def release_once_def ran_def split: if_splits)

context kept_by_backends
begin

lemma writer_of_handle: "conn_kept I c \<Longrightarrow> conn_uploads c h = Some u \<Longrightarrow> keeps_writer I (uh_writer u)"
  by (auto simp: conn_kept_def ran_def)

lemma filewrite_kept:
  assumes "hf_fs F = f" and "conn_kept I c"
  shows "conn_kept I (snd (filewrite F rq c))"
proof (cases "rq_append rq \<or> acquire (hf_uploads F) (conn_slots c) = None")
  case True
  then show ?thesis using assms(2) by (auto simp: filewrite_def)
next
  case False
  then obtain taken where tk: "\<not> rq_append rq" "acquire (hf_uploads F) (conn_slots c) = Some taken" by auto
  obtain r s where r: "fs_create f (rq_filepath rq) (conn_fs c) = (r, s)" by (metis surj_pair)
  have "I (world s)" using keepsD' [OF create_keeps _ r] assms(2) by (simp add: conn_kept_def)
  moreover have "r = Inr wr \<Longrightarrow> keeps_writer I wr" for wr using r create_writer_keeps by blast
  ultimately show ?thesis using assms tk r
    by (cases r) (auto simp: filewrite_def served_fs_def conn_kept_def ran_def split: if_splits)
qed

lemma sftp_step_kept:
  assumes "sftp_step F c d" and "hf_fs F = f" and "conn_kept I c"
  shows "conn_kept I d"
  using assms
proof (induction rule: sftp_step.induct)
  case (write_file c rq)
  then show ?case by (intro filewrite_kept)
next
  case (read_file c rq)
  then show ?case using keepsD [OF keeps_served_fs [OF open_keeps]] by (simp add: fileread_def)
next
  case (command c rq)
  have "keeps (conn_kept I) (filecmd F rq)"
    unfolding filecmd_def command(1) by (intro keeps_rules keeps_served_fs operations_keep)
  then show ?case using command(2) by (rule keepsD)
next
  case (list_files c rq)
  have "keeps (conn_kept I) (filelist F rq)"
    unfolding filelist_def list_files(1) by (intro keeps_rules keeps_served_fs operations_keep)
  then show ?case using list_files(2) by (rule keepsD)
next
  case (handle_write c h u data offset)
  then show ?case using writer_of_handle
    by (auto simp: traced_write_at_def keeps_writer_def intro!: conn_kept_on_conn)
next
  case (handle_close c h u)
  then show ?case using writer_of_handle on_conn_uploads [of "write_close (uh_writer u)" c]
    by (auto simp: traced_close_def case_prod_beta keeps_writer_def intro!: conn_kept_release conn_kept_on_conn)
next
  case (handle_abort c h u)
  then show ?case using writer_of_handle on_conn_uploads [of "write_abort (uh_writer u)" c]
    by (auto simp: traced_abort_def case_prod_beta keeps_writer_def intro!: conn_kept_release conn_kept_on_conn)
next
  case (handle_failed c h u)
  then show ?case using writer_of_handle on_conn_uploads [of "write_abort (uh_writer u)" c]
    by (auto simp: transfer_error_def traced_abort_def case_prod_beta keeps_writer_def
        intro!: conn_kept_release conn_kept_on_conn)
next
  case (reader_read p s rd t c count offset)
  then show ?case using open_reader_keeps [of p s rd t]
    by (auto simp: traced_read_at_def keeps_reader_def intro!: conn_kept_on_conn)
next
  case (reader_close p s rd t c)
  then show ?case using open_reader_keeps [of p s rd t]
    by (auto simp: traced_reader_close_def keeps_reader_def intro!: conn_kept_on_conn)
qed

lemma sftp_steps_kept: "sftp_steps F c d \<Longrightarrow> hf_fs F = f \<Longrightarrow> conn_kept I c \<Longrightarrow> conn_kept I d"
  by (induction rule: sftp_steps.induct) (auto dest: sftp_step_kept)

end


text \<open>
  Whatever the request server does on a connection served by the local backend, no name
  outside the allowed prefixes changes and no file that was there before is written to in
  place.
\<close>

theorem sftp_connection_confined:
  assumes "sftp_steps (new_handler_factory (local_fs r roots) m) (new_connection s) c"
    and "idle (world s)"
  shows "(\<forall>p. (\<forall>r \<in> set roots. \<not> prefix (components r) p) \<longrightarrow>
            object_at (os (world (conn_fs c))) p = object_at (os (world s)) p) \<and>
         (\<forall>i < next_inode (os (world s)). inodes (os (world (conn_fs c))) i = inodes (os (world s)) i)"
proof -
  have "conn_kept (confined roots (os (world s))) (new_connection s)"
    using idle_confined [OF assms(2)] by (simp add: conn_kept_def new_connection_def)
  with kept_by_backends.sftp_steps_kept [OF local_fs_kept assms(1)]
  have "conn_kept (confined roots (os (world s))) c" by (simp add: new_handler_factory_def)
  then have "confined roots (os (world s)) (world (conn_fs c))" by (simp add: conn_kept_def)
  then show ?thesis using confined_outside confined_inodes by blast
qed

text \<open>Two requests on the sample host: a write of \<open>/f\<close> and a removal, with a limit of one upload.\<close>

definition sample_factory :: "local_world handler_factory" where
  "sample_factory = new_handler_factory (local_fs sample_root sample_roots) 1"

definition sample_write :: sftp_request where
  "sample_write = \<lparr>rq_method = ''Put'', rq_filepath = ''/f'', rq_target = [], rq_append = False\<rparr>"

definition written_connection :: "local_world connection" where
  "written_connection = snd (filewrite sample_factory sample_write (new_connection (state sample_client)))"

lemma sample_steps: "sftp_steps sample_factory (new_connection (state sample_client)) written_connection"
  unfolding written_connection_def by (rule sftp_steps.more [OF sftp_steps.none sftp_step.write_file])

theorem sftp_connection_confined_witness:
  "object_at (os (world (conn_fs written_connection))) [''etc'', ''p''] = Some (RegularAt 1)"
proof -
  have w: "world (state sample_client) = sample_world" by (simp add: sample_client_def)
  have i: "idle (world (state sample_client))" using sample_idle w by simp
  have p: "\<forall>r \<in> set sample_roots. \<not> prefix (components r) [''etc'', ''p'']" by code_simp
  have o: "object_at (os sample_world) [''etc'', ''p''] = Some (RegularAt 1)" by code_simp
  show ?thesis
    using sftp_connection_confined [OF sample_steps [unfolded sample_factory_def] i] p o w by simp
qed


end
