(* ===== verification/Go_Http.thy ===== *)
theory Go_Http
  imports Go_Url Go_Runes
begin

text \<open>
  What the program uses of \<open>net/http\<close> headers and of the \<open>strings\<close> functions that read them:
  setting and getting a value under its canonical name, trimming white space, and comparing
  without regard to case.
\<close>

section \<open>Headers\<close>

text \<open>
  \<open>Header.Set\<close>: the name is brought into its canonical form, upper case after a hyphen and
  lower case otherwise, when it is a token, and the value replaces what was there.
\<close>

definition token_char :: "char \<Rightarrow> bool" where
  "token_char c \<longleftrightarrow> is_lower c \<or> is_upper c \<or> is_digit c \<or>
     ord c \<in> {33, 35, 36, 37, 38, 39, 42, 43, 45, 46, 94, 95, 96, 124, 126}"

definition upper_char :: "char \<Rightarrow> char" where
  "upper_char c = (if is_lower c then char_of (ord c - 32) else c)"

fun canonical_loop :: "bool \<Rightarrow> string \<Rightarrow> string" where
  "canonical_loop upper [] = []"
| "canonical_loop upper (c # s) =
     (if upper then upper_char c else lower_char c) # canonical_loop (c = CHR ''-'') s"

definition canonical_header :: "string \<Rightarrow> string" where
  "canonical_header name = (if list_all token_char name then canonical_loop True name else name)"

type_synonym header = "(string \<times> string) list"

definition header_set :: "string \<Rightarrow> string \<Rightarrow> header \<Rightarrow> header" where
  "header_set name value h =
     filter (\<lambda>(n, _). n \<noteq> canonical_header name) h @ [(canonical_header name, value)]"

definition header_get :: "string \<Rightarrow> header \<Rightarrow> string" where
  "header_get name h = (case map_of h (canonical_header name) of Some v \<Rightarrow> v | None \<Rightarrow> [])"

lemma header_get_set: "header_get a (header_set b v h) = (if canonical_header a = canonical_header b then v else header_get a h)"
proof -
  have f: "map_of (filter (\<lambda>(n, _). n \<noteq> k) h) a = (if a = k then None else map_of h a)" for a k
    by (induction h) auto
  show ?thesis by (auto simp: header_get_def header_set_def map_add_def f split: option.splits)
qed

text \<open>Each of a list of names and values set in turn.\<close>

definition set_headers :: "(string \<times> string) list \<Rightarrow> header \<Rightarrow> header" where
  "set_headers nvs h = foldl (\<lambda>h nv. header_set (fst nv) (snd nv) h) h nvs"

section \<open>Bodies\<close>

text \<open>
  How reading a body to where it stops ends: with \<open>io.EOF\<close>, with the \<open>io.ErrUnexpectedEOF\<close> that
  \<open>net/http\<close> reports when the connection ends short of the length announced, or with any other
  error.
\<close>

datatype body_end = Complete | CutShort | Broken

section \<open>White space and case\<close>

text \<open>\<open>unicode.IsSpace\<close>, and \<open>strings.TrimSpace\<close> over the runes of a string.\<close>

definition space_rune :: "rune \<Rightarrow> bool" where
  "space_rune r \<longleftrightarrow> 9 \<le> r \<and> r \<le> 13 \<or> 8192 \<le> r \<and> r \<le> 8202 \<or>
     r \<in> {32, 133, 160, 5760, 8232, 8233, 8239, 8287, 12288}"

lemma decode_rune_rest: "(r, t) = decode_rune (a # s) \<Longrightarrow> length t < length (a # s)"
  using decode_rune_shorter [of a s] by (metis le_imp_less_Suc length_Cons snd_conv)

function trim_left_space :: "string \<Rightarrow> string" where
  "trim_left_space [] = []"
| "trim_left_space (a # s) =
     (case decode_rune (a # s) of (r, t) \<Rightarrow> if space_rune r then trim_left_space t else a # s)"
  by pat_completeness auto
termination by (relation "measure length") (simp, metis decode_rune_rest in_measure)

function trim_right_space :: "string \<Rightarrow> string" where
  "trim_right_space [] = []"
| "trim_right_space (a # s) =
     (case decode_rune (a # s) of (r, t) \<Rightarrow>
        if space_rune r \<and> trim_right_space t = [] then []
        else take (Suc (length s) - length t) (a # s) @ trim_right_space t)"
  by pat_completeness auto
termination by (relation "measure length") (simp, (metis decode_rune_rest in_measure)+)

definition trim_space :: "string \<Rightarrow> string" where
  "trim_space s = trim_right_space (trim_left_space s)"

text \<open>
  \<open>strings.EqualFold\<close> with a word of ASCII letters: two letters beyond ASCII fold to one within,
  the long s and the sign for kelvin.
\<close>

definition fold_rune :: "rune \<Rightarrow> rune" where
  "fold_rune r = (if 65 \<le> r \<and> r \<le> 90 then r + 32 else if r = 383 then 115 else if r = 8490 then 107 else r)"

definition equal_fold :: "string \<Rightarrow> string \<Rightarrow> bool" where
  "equal_fold s word \<longleftrightarrow> map fold_rune (runes_of s) = map fold_rune (runes_of word)"

end
