(* ===== verification/Auth.thy ===== *)
theory Auth
  imports Config Go_Http
begin

text \<open>
  Authentication: \<open>server/internal/auth/auth.go\<close>. A connection holds the policy its backend
  published for the user it looked up last; its attempts come one after another.

  What is not under \<open>src/\<close> is the parameter \<open>auth_lib\<close>: the network (a POST, which may fail,
  and answers with a status and a body), the decoding of the two documents a backend answers
  with, bcrypt, and the fingerprint of a key. A key is its marshalled bytes. A request that
  takes longer than its timeout is one that fails.
\<close>

section \<open>Addresses\<close>

text \<open>\<open>net.SplitHostPort\<close>, of which the code takes the host.\<close>

definition index_of :: "'a \<Rightarrow> 'a list \<Rightarrow> nat option" where
  "index_of c s = (if c \<in> set s then Some (length (takeWhile (\<lambda>x. x \<noteq> c) s)) else None)"

definition last_index_of :: "'a \<Rightarrow> 'a list \<Rightarrow> nat option" where
  "last_index_of c s = (if c \<in> set s then Some (length s - 1 - length (takeWhile (\<lambda>x. x \<noteq> c) (rev s))) else None)"

definition split_host_port :: "string \<Rightarrow> (string \<times> string) option" where
  "split_host_port hostport =
     (case last_index_of (CHR '':'') hostport of
        None \<Rightarrow> None
      | Some i \<Rightarrow>
          if prefix ''['' hostport then
            (case index_of (CHR '']'') hostport of
               None \<Rightarrow> None
             | Some e \<Rightarrow>
                 if Suc e \<noteq> i then None
                 else if CHR ''['' \<in> set (drop 1 hostport) \<or> CHR '']'' \<in> set (drop (Suc e) hostport) then None
                 else Some (take (e - 1) (drop 1 hostport), drop (Suc i) hostport))
          else if CHR '':'' \<in> set (take i hostport) \<or> CHR ''['' \<in> set hostport \<or> CHR '']'' \<in> set hostport then None
          else Some (take i hostport, drop (Suc i) hostport))"

section \<open>Documents\<close>

record conn_meta =
  meta_user :: string
  meta_remote :: string
  meta_local :: string
  meta_client_version :: string
  meta_server_version :: string

text \<open>A request states the connection, and the password or the fingerprint offered.\<close>

record auth_request =
  req_connection :: conn_meta
  req_password :: string
  req_fingerprint :: string

record lookup_response =
  lr_methods :: "string list"
  lr_authorized_keys :: "string list"

record http_request =
  hr_url :: string
  hr_headers :: header
  hr_body :: auth_request

record http_answer =
  ha_status :: int
  ha_body :: bytes

record 'w auth_lib =
  http_post :: "http_request \<Rightarrow> 'w \<Rightarrow> http_answer option \<times> 'w"
  decode_lookup :: "bytes \<Rightarrow> lookup_response option"
  decode_user :: "bytes \<Rightarrow> user option"
  compare_hash :: "string \<Rightarrow> string \<Rightarrow> bool"
  key_fingerprint :: "string \<Rightarrow> string"
  lib_crypto :: crypto

section \<open>State\<close>

text \<open>
  \<open>newBackend\<close>: no backend, the single endpoint, or the one with a lookup. The policy kept is
  the last one looked up, and the name it was looked up under.
\<close>

datatype auth_mode = NoBackend | SimpleAuth auth_backend | FullAuth auth_backend

definition new_backend :: "auth_backend option \<Rightarrow> auth_mode" where
  "new_backend cfg =
     (case cfg of None \<Rightarrow> NoBackend
      | Some b \<Rightarrow> if URL b \<noteq> [] then SimpleAuth b else FullAuth b)"

record 'w auth_state =
  looked_up_user :: string
  lookup :: "lookup_response option"
  network :: 'w

definition new_conn :: "'w \<Rightarrow> 'w auth_state" where
  "new_conn w = \<lparr>looked_up_user = [], lookup = None, network = w\<rparr>"

text \<open>The text of an error stays inside; a client learns only that authentication failed.\<close>

type_synonym auth_error = string

section \<open>Requests\<close>

definition forwarded_headers :: "conn_meta \<Rightarrow> header \<Rightarrow> header" where
  "forwarded_headers meta h =
     (let host = (case split_host_port (meta_remote meta) of Some (a, _) \<Rightarrow> a | None \<Rightarrow> meta_remote meta)
      in header_set ''X-Forwarded-Host'' (meta_local meta)
           (header_set ''X-Forwarded-Proto'' ''ssh''
             (header_set ''X-Forwarded-For'' host h)))"

definition request_headers :: "auth_backend \<Rightarrow> conn_meta \<Rightarrow> header" where
  "request_headers b meta =
     foldl (\<lambda>h nv. header_set (fst nv) (snd nv) h)
       (forwarded_headers meta (header_set ''Content-Type'' ''application/json'' [])) (AuthHeaders b)"

definition max_response :: int where "max_response = 1048576"

text \<open>
  One POST, and the document in the answer read with \<open>decode\<close>. A URL the library would not
  parse makes no request.
\<close>

definition post_to :: "'w auth_lib \<Rightarrow> auth_backend \<Rightarrow> conn_meta \<Rightarrow> string \<Rightarrow> auth_request \<Rightarrow>
    (bytes \<Rightarrow> 'r option) \<Rightarrow> ('w auth_state, auth_error, 'r) op" where
  "post_to lib b meta rawURL payload decode s =
     (if url_parse rawURL = None then (Inl ''parse'', s)
      else (case http_post lib \<lparr>hr_url = rawURL, hr_headers = request_headers b meta, hr_body = payload\<rparr> (network s) of
        (None, w) \<Rightarrow> (Inl ''request'', s\<lparr>network := w\<rparr>)
      | (Some answer, w) \<Rightarrow>
          (if ha_status answer < 200 \<or> 300 \<le> ha_status answer
           then (Inl ''backend rejected authentication'', s\<lparr>network := w\<rparr>)
           else (case decode (take (nat max_response) (ha_body answer)) of
                   None \<Rightarrow> (Inl ''decode'', s\<lparr>network := w\<rparr>)
                 | Some r \<Rightarrow> (Inr r, s\<lparr>network := w\<rparr>)))))"

definition user_from_response :: "conn_meta \<Rightarrow> user \<Rightarrow> auth_error + user" where
  "user_from_response meta result =
     (let user = (if Username result = [] then result\<lparr>Username := meta_user meta\<rparr> else result)
      in if Username user \<noteq> meta_user meta then Inl ''backend returned another user''
         else if root_validate (RootFS user) \<noteq> None then Inl ''backend returned an invalid rootfs''
         else Inr user)"

text \<open>\<open>JoinPath\<close> of a base URL and elements.\<close>

definition path_join_all :: "string list \<Rightarrow> string" where
  "path_join_all es =
     (let parts = filter (\<lambda>e. e \<noteq> []) es
      in if parts = [] then [] else path_clean (join_with slash parts))"

definition url_join_path :: "url \<Rightarrow> string list \<Rightarrow> url" where
  "url_join_path u elem =
     (let base = escaped_path u;
          p = (if prefix ''/'' base then path_join_all (base # elem)
               else drop 1 (path_join_all ((slash # base) # elem)));
          p' = (if suffix ''/'' (last (base # elem)) \<and> \<not> suffix ''/'' p then p @ ''/'' else p)
      in case set_path p' u of Some v \<Rightarrow> v | None \<Rightarrow> u)"

definition endpoint_url :: "string \<Rightarrow> string \<Rightarrow> auth_error + string" where
  "endpoint_url baseURL endpoint =
     (case url_parse baseURL of
        None \<Rightarrow> Inl ''parse''
      | Some parsed \<Rightarrow>
          Inr (url_string ((url_join_path parsed [''v1'', ''sftp'', ''auth'', endpoint])
                 \<lparr>u_raw_query := [], u_fragment := []\<rparr>)))"

definition request_of :: "conn_meta \<Rightarrow> string \<Rightarrow> string \<Rightarrow> auth_request" where
  "request_of meta password fingerprint =
     \<lparr>req_connection = meta, req_password = password, req_fingerprint = fingerprint\<rparr>"

section \<open>The single endpoint\<close>

definition password_via :: "'w auth_lib \<Rightarrow> auth_backend \<Rightarrow> conn_meta \<Rightarrow> string \<Rightarrow> string \<Rightarrow>
    ('w auth_state, auth_error, user) op" where
  "password_via lib b meta rawURL password =
     bindE (post_to lib b meta rawURL (request_of meta password []) (decode_user lib))
       (\<lambda>result. liftE (user_from_response meta result))"

section \<open>The lookup\<close>

definition full_post :: "'w auth_lib \<Rightarrow> auth_backend \<Rightarrow> conn_meta \<Rightarrow> string \<Rightarrow> auth_request \<Rightarrow>
    (bytes \<Rightarrow> 'r option) \<Rightarrow> ('w auth_state, auth_error, 'r) op" where
  "full_post lib b meta endpoint payload decode =
     bindE (liftE (endpoint_url (BaseURL b) endpoint)) (\<lambda>rawURL. post_to lib b meta rawURL payload decode)"

definition lookup_policy :: "'w auth_lib \<Rightarrow> auth_backend \<Rightarrow> conn_meta \<Rightarrow> ('w auth_state, auth_error, lookup_response) op" where
  "lookup_policy lib b meta s =
     (case (if looked_up_user s = meta_user meta then lookup s else None) of
        Some l \<Rightarrow> (Inr l, s)
      | None \<Rightarrow>
          (case full_post lib b meta ''lookup'' (request_of meta [] []) (decode_lookup lib) s of
             (Inl e, t) \<Rightarrow> (Inl e, t)
           | (Inr l, t) \<Rightarrow>
               if lr_methods l = [] then (Inl ''backend offered no authentication methods'', t)
               else (Inr l, t\<lparr>looked_up_user := meta_user meta, lookup := Some l\<rparr>)))"

definition matches_key :: "'w auth_lib \<Rightarrow> string list \<Rightarrow> string \<Rightarrow> bool" where
  "matches_key lib encodedKeys key =
     list_ex (\<lambda>encoded. parse_authorized_key (lib_crypto lib) encoded = Some key) encodedKeys"

definition full_password :: "'w auth_lib \<Rightarrow> auth_backend \<Rightarrow> conn_meta \<Rightarrow> string \<Rightarrow> ('w auth_state, auth_error, user) op" where
  "full_password lib b meta password =
     bindE (lookup_policy lib b meta) (\<lambda>l.
       if ''password'' \<notin> set (lr_methods l) then failE ''password authentication is not allowed for this user''
       else bindE (liftE (endpoint_url (BaseURL b) ''password''))
              (\<lambda>rawURL. password_via lib b meta rawURL password))"

definition full_public_key :: "'w auth_lib \<Rightarrow> auth_backend \<Rightarrow> conn_meta \<Rightarrow> string \<Rightarrow> ('w auth_state, auth_error, user) op" where
  "full_public_key lib b meta key =
     bindE (lookup_policy lib b meta) (\<lambda>l.
       if ''publickey'' \<notin> set (lr_methods l) then failE ''public-key authentication is not allowed for this user''
       else if \<not> matches_key lib (lr_authorized_keys l) key then failE ''public key is not authorized for this user''
       else bindE (full_post lib b meta ''publickey'' (request_of meta [] (key_fingerprint lib key)) (decode_user lib))
              (\<lambda>result. liftE (user_from_response meta result)))"

section \<open>A connection\<close>

definition backend_password :: "'w auth_lib \<Rightarrow> auth_mode \<Rightarrow> conn_meta \<Rightarrow> string \<Rightarrow> ('w auth_state, auth_error, user) op" where
  "backend_password lib m meta password =
     (case m of
        NoBackend \<Rightarrow> failE ''unknown_user''
      | SimpleAuth b \<Rightarrow> password_via lib b meta (URL b) password
      | FullAuth b \<Rightarrow> full_password lib b meta password)"

definition backend_public_key :: "'w auth_lib \<Rightarrow> auth_mode \<Rightarrow> conn_meta \<Rightarrow> string \<Rightarrow> ('w auth_state, auth_error, user) op" where
  "backend_public_key lib m meta key =
     (case m of
        NoBackend \<Rightarrow> failE ''unknown_user''
      | SimpleAuth b \<Rightarrow> failE ''public-key authentication is not offered in single-endpoint mode''
      | FullAuth b \<Rightarrow> full_public_key lib b meta key)"

text \<open>The user of the session, or \<open>None\<close> for the one failure a client is told of.\<close>

definition conn_password :: "'w auth_lib \<Rightarrow> config \<Rightarrow> conn_meta \<Rightarrow> string \<Rightarrow> 'w auth_state \<Rightarrow> user option \<times> 'w auth_state" where
  "conn_password lib cfg meta password s =
     (case static_user cfg (meta_user meta) of
        Some user \<Rightarrow>
          (if PasswordHash user = [] \<or> \<not> compare_hash lib (PasswordHash user) password then None else Some user, s)
      | None \<Rightarrow>
          (case backend_password lib (new_backend (AuthBackend cfg)) meta password s of
             (Inl e, t) \<Rightarrow> (None, t)
           | (Inr user, t) \<Rightarrow> (Some user, t)))"

definition conn_public_key :: "'w auth_lib \<Rightarrow> config \<Rightarrow> conn_meta \<Rightarrow> string \<Rightarrow> 'w auth_state \<Rightarrow> user option \<times> 'w auth_state" where
  "conn_public_key lib cfg meta key s =
     (case static_user cfg (meta_user meta) of
        Some user \<Rightarrow> (if \<not> has_authorized_key (lib_crypto lib) user key then None else Some user, s)
      | None \<Rightarrow>
          (case backend_public_key lib (new_backend (AuthBackend cfg)) meta key s of
             (Inl e, t) \<Rightarrow> (None, t)
           | (Inr user, t) \<Rightarrow> (Some user, t)))"

end
