(* ===== verification/Auth_Properties.thy ===== *)
theory Auth_Properties
  imports Auth Config_Facts
begin

text \<open>
  What a session that authenticated can rely on. A static user is judged by the configuration
  alone; any other is whom the backend named, under the name the client gave, and by a method
  and a key the backend published for that very name on this connection.
\<close>

section \<open>Attempts and the network\<close>

text \<open>
  A connection's attempts come one after another, each with a name, a method and a credential of
  the client's choosing. \<open>net_run\<close> is what any sequence of POSTs can make of the network, so that
  a POST made between two of its states is one made in that time.
\<close>

datatype attempt = Try_Password conn_meta string | Try_Public_Key conn_meta string

fun attempt_once :: "'w auth_lib \<Rightarrow> config \<Rightarrow> attempt \<Rightarrow> 'w auth_state \<Rightarrow> user option \<times> 'w auth_state" where
  "attempt_once lib cfg (Try_Password meta password) s = conn_password lib cfg meta password s"
| "attempt_once lib cfg (Try_Public_Key meta key) s = conn_public_key lib cfg meta key s"

fun attempts :: "'w auth_lib \<Rightarrow> config \<Rightarrow> attempt list \<Rightarrow> 'w auth_state \<Rightarrow> 'w auth_state" where
  "attempts lib cfg [] s = s"
| "attempts lib cfg (a # as) s = attempts lib cfg as (snd (attempt_once lib cfg a s))"

inductive net_run :: "'w auth_lib \<Rightarrow> 'w \<Rightarrow> 'w \<Rightarrow> bool" for lib where
  here: "net_run lib w w"
| post: "net_run lib u v \<Longrightarrow> net_run lib u (snd (http_post lib rq v))"

lemma net_run_trans [trans]: "net_run lib u v \<Longrightarrow> net_run lib v w \<Longrightarrow> net_run lib u w"
  by (rotate_tac, induction rule: net_run.induct) (auto intro: net_run.intros)

text \<open>A POST made in that time that was answered with a document.\<close>

definition answered :: "'w auth_lib \<Rightarrow> 'w \<Rightarrow> 'w \<Rightarrow> (auth_request \<Rightarrow> bool) \<Rightarrow> (bytes \<Rightarrow> 'r option) \<Rightarrow> string \<Rightarrow> 'r \<Rightarrow> bool" where
  "answered lib w0 w1 payload decode url r \<longleftrightarrow>
     (\<exists>rq w answer w'. net_run lib w0 w \<and> http_post lib rq w = (Some answer, w') \<and> net_run lib w' w1 \<and>
        hr_url rq = url \<and> payload (hr_body rq) \<and> 200 \<le> ha_status answer \<and> ha_status answer < 300 \<and>
        decode (take (nat max_response) (ha_body answer)) = Some r)"

text \<open>What the backend published for a name.\<close>

definition published :: "'w auth_lib \<Rightarrow> 'w \<Rightarrow> 'w \<Rightarrow> auth_backend \<Rightarrow> string \<Rightarrow> lookup_response \<Rightarrow> bool" where
  "published lib w0 w1 b name l \<longleftrightarrow> lr_methods l \<noteq> [] \<and>
     (\<exists>url. endpoint_url (BaseURL b) ''lookup'' = Inr url \<and>
        answered lib w0 w1 (\<lambda>p. meta_user (req_connection p) = name) (decode_lookup lib) url l)"

text \<open>The invariant: a policy kept is one published, on this connection, for the name it is kept under.\<close>

definition policy_current :: "'w auth_lib \<Rightarrow> 'w \<Rightarrow> auth_mode \<Rightarrow> 'w auth_state \<Rightarrow> bool" where
  "policy_current lib w0 m s \<longleftrightarrow> net_run lib w0 (network s) \<and>
     (\<forall>l. lookup s = Some l \<longrightarrow>
        (\<exists>b. m = FullAuth b \<and> published lib w0 (network s) b (looked_up_user s) l))"

lemma answered_between:
  assumes "answered lib w1 w2 P decode url r"
    and "net_run lib w0 w1" and "net_run lib w2 w3" and weaker: "\<And>p. P p \<Longrightarrow> Q p"
  shows "answered lib w0 w3 Q decode url r"
proof -
  obtain rq w answer w' where h: "net_run lib w1 w" "http_post lib rq w = (Some answer, w')" "net_run lib w' w2"
      "hr_url rq = url \<and> P (hr_body rq) \<and> 200 \<le> ha_status answer \<and> ha_status answer < 300 \<and>
       decode (take (nat max_response) (ha_body answer)) = Some r"
    using assms(1) unfolding answered_def by blast
  have "net_run lib w0 w" "net_run lib w' w3" using h(1,3) assms(2,3) by (blast intro: net_run_trans)+
  then show ?thesis unfolding answered_def using h(2,4) weaker by blast
qed

lemma answered_earlier:
  assumes "answered lib w1 w2 P decode url r" and "net_run lib w0 w1"
  shows "answered lib w0 w2 P decode url r"
  by (rule answered_between [OF assms net_run.here])

lemma published_mono:
  assumes "published lib w0 w1 b name l" and "net_run lib w1 w2"
  shows "published lib w0 w2 b name l"
proof -
  obtain url where url: "lr_methods l \<noteq> []" "endpoint_url (BaseURL b) ''lookup'' = Inr url"
      "answered lib w0 w1 (\<lambda>p. meta_user (req_connection p) = name) (decode_lookup lib) url l"
    using assms(1) unfolding published_def by blast
  have "answered lib w0 w2 (\<lambda>p. meta_user (req_connection p) = name) (decode_lookup lib) url l"
    by (rule answered_between [OF url(3) net_run.here assms(2)])
  then show ?thesis using url(1,2) unfolding published_def by blast
qed

text \<open>A step that leaves the policy alone: the network moves on, nothing else changes.\<close>

definition only_network :: "'w auth_lib \<Rightarrow> 'w auth_state \<Rightarrow> 'w auth_state \<Rightarrow> bool" where
  "only_network lib s t \<longleftrightarrow> net_run lib (network s) (network t) \<and> lookup t = lookup s \<and> looked_up_user t = looked_up_user s"

lemma only_network_refl [simp]: "only_network lib s s"
  by (simp add: only_network_def net_run.here)

lemma policy_current_only_network:
  "policy_current lib w0 m s \<Longrightarrow> only_network lib s t \<Longrightarrow> policy_current lib w0 m t"
  by (auto simp: policy_current_def only_network_def intro: net_run_trans elim!: published_mono)

section \<open>Requests\<close>

lemma post_to_moves: "post_to lib b meta url payload decode s = (r, t) \<Longrightarrow> only_network lib s t"
  using net_run.post [OF net_run.here, of lib "network s" "\<lparr>hr_url = url, hr_headers = request_headers b meta, hr_body = payload\<rparr>"]
  by (auto simp: post_to_def only_network_def net_run.here split: if_splits prod.splits option.splits)

lemma post_to_answered:
  assumes "post_to lib b meta url payload decode s = (Inr r, t)"
  shows "answered lib (network s) (network t) (\<lambda>p. p = payload) decode url r"
proof -
  obtain answer w where h: "http_post lib \<lparr>hr_url = url, hr_headers = request_headers b meta, hr_body = payload\<rparr> (network s)
      = (Some answer, w)" "\<not> (ha_status answer < 200 \<or> 300 \<le> ha_status answer)"
      "decode (take (nat max_response) (ha_body answer)) = Some r" "t = s\<lparr>network := w\<rparr>"
    using assms by (auto simp: post_to_def split: if_splits prod.splits option.splits)
  show ?thesis unfolding answered_def
    by (intro exI conjI, rule net_run.here, rule h(1)) (use h in \<open>auto intro: net_run.here\<close>)
qed

lemma full_post_answered:
  "full_post lib b meta endpoint payload decode s = (Inr r, t) \<Longrightarrow>
     \<exists>url. endpoint_url (BaseURL b) endpoint = Inr url \<and>
       answered lib (network s) (network t) (\<lambda>p. p = payload) decode url r"
  by (cases "endpoint_url (BaseURL b) endpoint") (auto simp: full_post_def dest: post_to_answered)

lemma full_post_moves: "full_post lib b meta endpoint payload decode s = (r, t) \<Longrightarrow> only_network lib s t"
  by (cases "endpoint_url (BaseURL b) endpoint") (auto simp: full_post_def dest: post_to_moves)

lemma password_via_moves: "password_via lib b meta url pw s = (r, t) \<Longrightarrow> only_network lib s t"
  by (auto simp: password_via_def bindE_app dest!: post_to_moves split: prod.splits sum.splits)

lemma lookup_policy_published:
  assumes "policy_current lib w0 (FullAuth b) s" and "lookup_policy lib b meta s = (r, t)"
  shows "policy_current lib w0 (FullAuth b) t \<and> net_run lib (network s) (network t) \<and>
    (\<forall>l. r = Inr l \<longrightarrow> published lib w0 (network t) b (meta_user meta) l)"
proof (cases "looked_up_user s = meta_user meta \<and> lookup s \<noteq> None")
  case True
  then show ?thesis using assms by (auto simp: lookup_policy_def policy_current_def net_run.here)
next
  case False
  obtain q u where q: "full_post lib b meta ''lookup'' (request_of meta [] []) (decode_lookup lib) s = (q, u)"
    by (metis surj_pair)
  note moved = full_post_moves [OF q]
  have u: "policy_current lib w0 (FullAuth b) u"
    by (rule policy_current_only_network [OF assms(1) moved])
  have start: "net_run lib w0 (network s)" using assms(1) by (simp add: policy_current_def)
  have pub: "published lib w0 (network u) b (meta_user meta) l" if l: "q = Inr l" "lr_methods l \<noteq> []" for l
  proof -
    obtain url where url: "endpoint_url (BaseURL b) ''lookup'' = Inr url"
        "answered lib (network s) (network u) (\<lambda>p. p = request_of meta [] []) (decode_lookup lib) url l"
      using full_post_answered q l(1) by metis
    have "answered lib w0 (network u) (\<lambda>p. meta_user (req_connection p) = meta_user meta) (decode_lookup lib) url l"
      by (rule answered_between [OF url(2) start net_run.here]) (simp add: request_of_def)
    then show ?thesis using l(2) url(1) unfolding published_def by blast
  qed
  have "(case (if looked_up_user s = meta_user meta then lookup s else None) of Some l \<Rightarrow> False | None \<Rightarrow> True)"
    using False by (auto split: option.splits)
  then have "(r, t) = (case q of Inl e \<Rightarrow> (Inl e, u) | Inr l \<Rightarrow>
      if lr_methods l = [] then (Inl ''backend offered no authentication methods'', u)
      else (Inr l, u\<lparr>looked_up_user := meta_user meta, lookup := Some l\<rparr>))"
    using assms(2) q by (auto simp: lookup_policy_def split: option.splits sum.splits if_splits)
  then show ?thesis using u pub moved
    by (auto simp: policy_current_def only_network_def split: sum.splits if_splits)
qed

lemma user_from_response_Inr:
  "user_from_response meta r = Inr u \<Longrightarrow> Username u = meta_user meta \<and> root_validate (RootFS u) = None \<and>
     (u = r \<or> Username r = [] \<and> u = r\<lparr>Username := meta_user meta\<rparr>)"
  by (auto simp: user_from_response_def Let_def split: if_splits)

definition named_by :: "conn_meta \<Rightarrow> user \<Rightarrow> user \<Rightarrow> bool" where
  "named_by meta r u \<longleftrightarrow> Username u = meta_user meta \<and> root_validate (RootFS u) = None \<and>
     (u = r \<or> Username r = [] \<and> u = r\<lparr>Username := meta_user meta\<rparr>)"

lemma password_via_sound:
  assumes "password_via lib b meta url pw s = (Inr u, t)"
  shows "\<exists>r. answered lib (network s) (network t) (\<lambda>p. p = request_of meta pw []) (decode_user lib) url r \<and> named_by meta r u"
proof -
  obtain r where r: "post_to lib b meta url (request_of meta pw []) (decode_user lib) s = (Inr r, t)"
      "user_from_response meta r = Inr u"
    using assms by (auto simp: password_via_def bindE_Inr_iff)
  show ?thesis using post_to_answered [OF r(1)] user_from_response_Inr [OF r(2)] unfolding named_by_def by blast
qed

lemma full_password_sound:
  assumes "policy_current lib w0 (FullAuth b) s" and "full_password lib b meta pw s = (Inr u, t)"
  shows "\<exists>l url r. published lib w0 (network t) b (meta_user meta) l \<and> ''password'' \<in> set (lr_methods l) \<and>
    endpoint_url (BaseURL b) ''password'' = Inr url \<and>
    answered lib (network s) (network t) (\<lambda>p. p = request_of meta pw []) (decode_user lib) url r \<and> named_by meta r u"
proof -
  obtain l v where l: "lookup_policy lib b meta s = (Inr l, v)" "''password'' \<in> set (lr_methods l)"
      "bindE (liftE (endpoint_url (BaseURL b) ''password'')) (\<lambda>rawURL. password_via lib b meta rawURL pw) v = (Inr u, t)"
    using assms(2) unfolding full_password_def by (auto simp: bindE_Inr_iff split: if_splits)
  obtain url where url: "endpoint_url (BaseURL b) ''password'' = Inr url" "password_via lib b meta url pw v = (Inr u, t)"
    using l(3) by (auto simp: bindE_Inr_iff)
  note p = lookup_policy_published [OF assms(1) l(1)]
  have vt: "net_run lib (network v) (network t)" using password_via_moves [OF url(2)] by (simp add: only_network_def)
  obtain r where r: "answered lib (network v) (network t) (\<lambda>p. p = request_of meta pw []) (decode_user lib) url r" "named_by meta r u"
    using password_via_sound [OF url(2)] by blast
  show ?thesis using p l(2) url(1) r(2) answered_earlier [OF r(1)] published_mono [OF _ vt] by blast
qed

lemma full_public_key_sound:
  assumes "policy_current lib w0 (FullAuth b) s" and "full_public_key lib b meta key s = (Inr u, t)"
  shows "\<exists>l url r. published lib w0 (network t) b (meta_user meta) l \<and> ''publickey'' \<in> set (lr_methods l) \<and>
    matches_key lib (lr_authorized_keys l) key \<and> endpoint_url (BaseURL b) ''publickey'' = Inr url \<and>
    answered lib (network s) (network t) (\<lambda>p. p = request_of meta [] (key_fingerprint lib key)) (decode_user lib) url r \<and>
    named_by meta r u"
proof -
  obtain l v where l: "lookup_policy lib b meta s = (Inr l, v)" "''publickey'' \<in> set (lr_methods l)"
      "matches_key lib (lr_authorized_keys l) key"
      "bindE (full_post lib b meta ''publickey'' (request_of meta [] (key_fingerprint lib key)) (decode_user lib))
         (\<lambda>result. liftE (user_from_response meta result)) v = (Inr u, t)"
    using assms(2) unfolding full_public_key_def by (auto simp: bindE_Inr_iff split: if_splits)
  obtain r where r: "full_post lib b meta ''publickey'' (request_of meta [] (key_fingerprint lib key)) (decode_user lib) v = (Inr r, t)"
      "user_from_response meta r = Inr u"
    using l(4) by (auto simp: bindE_Inr_iff)
  note p = lookup_policy_published [OF assms(1) l(1)]
  have vt: "net_run lib (network v) (network t)" using full_post_moves [OF r(1)] by (simp add: only_network_def)
  obtain url where url: "endpoint_url (BaseURL b) ''publickey'' = Inr url"
      "answered lib (network v) (network t) (\<lambda>p. p = request_of meta [] (key_fingerprint lib key)) (decode_user lib) url r"
    using full_post_answered [OF r(1)] by blast
  have "named_by meta r u" using user_from_response_Inr [OF r(2)] by (simp add: named_by_def)
  then show ?thesis using p l(2,3) url(1) answered_earlier [OF url(2)] published_mono [OF _ vt] by blast
qed

section \<open>The invariant of a connection\<close>

lemma post_to_keeps_policy: "keeps (policy_current lib w0 m) (post_to lib b meta url payload decode)"
  by (rule keepsI, erule policy_current_only_network, rule post_to_moves [OF prod.collapse [symmetric]])

lemma full_post_keeps_policy: "keeps (policy_current lib w0 m) (full_post lib b meta endpoint payload decode)"
  unfolding full_post_def by (intro keeps_rules post_to_keeps_policy)

lemma password_via_keeps_policy: "keeps (policy_current lib w0 m) (password_via lib b meta url pw)"
  unfolding password_via_def by (intro keeps_rules post_to_keeps_policy)

lemma lookup_policy_keeps_policy: "keeps (policy_current lib w0 (FullAuth b)) (lookup_policy lib b meta)"
  by (rule keepsI) (metis lookup_policy_published prod.collapse)

lemma backend_password_keeps_policy: "keeps (policy_current lib w0 m) (backend_password lib m meta pw)"
  unfolding backend_password_def full_password_def
  by (cases m) (auto intro!: keeps_rules password_via_keeps_policy lookup_policy_keeps_policy)

lemma backend_public_key_keeps_policy: "keeps (policy_current lib w0 m) (backend_public_key lib m meta key)"
  unfolding backend_public_key_def full_public_key_def
  by (cases m) (auto intro!: keeps_rules full_post_keeps_policy lookup_policy_keeps_policy)

lemma attempt_once_keeps_policy:
  "keeps (policy_current lib w0 (new_backend (AuthBackend cfg))) (attempt_once lib cfg a)"
proof (cases a)
  case (Try_Password meta pw)
  then show ?thesis
    using keepsD [OF backend_password_keeps_policy [of lib w0 "new_backend (AuthBackend cfg)" meta pw]]
    by (auto intro!: keepsI simp: conn_password_def split: option.splits prod.splits sum.splits) (metis snd_conv)+
next
  case (Try_Public_Key meta key)
  then show ?thesis
    using keepsD [OF backend_public_key_keeps_policy [of lib w0 "new_backend (AuthBackend cfg)" meta key]]
    by (auto intro!: keepsI simp: conn_public_key_def split: option.splits prod.splits sum.splits) (metis snd_conv)+
qed

lemma attempts_keep_policy:
  "policy_current lib w0 (new_backend (AuthBackend cfg)) s \<Longrightarrow>
   policy_current lib w0 (new_backend (AuthBackend cfg)) (attempts lib cfg as s)"
  by (induction as arbitrary: s) (auto intro: keepsD [OF attempt_once_keeps_policy])

lemma policy_current_new [simp]: "policy_current lib w m (new_conn w)"
  by (simp add: policy_current_def new_conn_def net_run.here)

section \<open>Sessions\<close>

text \<open>
  What the backend must have done for a user, between the start of the connection (\<open>w0\<close>), the
  start of the attempt (\<open>w1\<close>) and its end (\<open>w2\<close>).
\<close>

definition granted_password :: "'w auth_lib \<Rightarrow> 'w \<Rightarrow> 'w \<Rightarrow> 'w \<Rightarrow> auth_backend \<Rightarrow> conn_meta \<Rightarrow> string \<Rightarrow> user \<Rightarrow> bool" where
  "granted_password lib w0 w1 w2 b meta password u \<longleftrightarrow>
     (\<exists>url r. named_by meta r u \<and>
        answered lib w1 w2 (\<lambda>p. p = request_of meta password []) (decode_user lib) url r \<and>
        (if URL b \<noteq> [] then url = URL b
         else endpoint_url (BaseURL b) ''password'' = Inr url \<and>
           (\<exists>l. published lib w0 w2 b (meta_user meta) l \<and> ''password'' \<in> set (lr_methods l))))"

definition granted_public_key :: "'w auth_lib \<Rightarrow> 'w \<Rightarrow> 'w \<Rightarrow> 'w \<Rightarrow> auth_backend \<Rightarrow> conn_meta \<Rightarrow> string \<Rightarrow> user \<Rightarrow> bool" where
  "granted_public_key lib w0 w1 w2 b meta key u \<longleftrightarrow> URL b = [] \<and>
     (\<exists>url r l. named_by meta r u \<and> endpoint_url (BaseURL b) ''publickey'' = Inr url \<and>
        answered lib w1 w2 (\<lambda>p. p = request_of meta [] (key_fingerprint lib key)) (decode_user lib) url r \<and>
        published lib w0 w2 b (meta_user meta) l \<and> ''publickey'' \<in> set (lr_methods l) \<and>
        matches_key lib (lr_authorized_keys l) key)"

lemma backend_password_granted:
  assumes "policy_current lib w0 (new_backend (Some b)) s"
    and "backend_password lib (new_backend (Some b)) meta pw s = (Inr u, t)"
  shows "granted_password lib w0 (network s) (network t) b meta pw u"
proof (cases "URL b = []")
  case False
  then have "password_via lib b meta (URL b) pw s = (Inr u, t)"
    using assms(2) by (simp add: backend_password_def new_backend_def)
  from password_via_sound [OF this] False show ?thesis unfolding granted_password_def by auto
next
  case True
  then have "policy_current lib w0 (FullAuth b) s" "full_password lib b meta pw s = (Inr u, t)"
    using assms by (simp_all add: backend_password_def new_backend_def)
  from full_password_sound [OF this] True show ?thesis unfolding granted_password_def by auto
qed

lemma backend_public_key_granted:
  assumes "policy_current lib w0 (new_backend (Some b)) s"
    and "backend_public_key lib (new_backend (Some b)) meta key s = (Inr u, t)"
  shows "granted_public_key lib w0 (network s) (network t) b meta key u"
proof -
  have U: "URL b = []"
    using assms(2) by (auto simp: backend_public_key_def new_backend_def split: if_splits)
  then have "policy_current lib w0 (FullAuth b) s" "full_public_key lib b meta key s = (Inr u, t)"
    using assms by (simp_all add: backend_public_key_def new_backend_def)
  from full_public_key_sound [OF this] U show ?thesis unfolding granted_public_key_def by blast
qed

lemma static_user_name: "static_user cfg name = Some u \<Longrightarrow> Username u = name \<and> u \<in> set (Users cfg)"
  by (auto simp: static_user_def find_Some_iff)

text \<open>
  C16. After any attempts, with any names, methods and credentials, a password opens a session
  only for the user of the name given: a static user whose stored hash matches, judged without
  a request; or, for a name the configuration does not define, the user a backend answered
  with to a POST of this very attempt carrying this password, whose tree passed the validation
  of the configuration, and with a base URL only if the backend published the method for that
  name on this connection.
\<close>

theorem auth_password_sound:
  assumes "conn_password lib cfg meta password (attempts lib cfg earlier (new_conn w0)) = (Some u, t)"
  shows "Username u = meta_user meta \<and>
    (case static_user cfg (meta_user meta) of
       Some su \<Rightarrow> u = su \<and> PasswordHash u \<noteq> [] \<and> compare_hash lib (PasswordHash u) password \<and>
         t = attempts lib cfg earlier (new_conn w0)
     | None \<Rightarrow> (\<exists>b. AuthBackend cfg = Some b \<and>
         granted_password lib w0 (network (attempts lib cfg earlier (new_conn w0))) (network t) b meta password u))"
proof (cases "static_user cfg (meta_user meta)")
  case (Some su)
  then show ?thesis using assms static_user_name [OF Some] by (auto simp: conn_password_def split: if_splits)
next
  case None
  let ?s = "attempts lib cfg earlier (new_conn w0)"
  have g: "backend_password lib (new_backend (AuthBackend cfg)) meta password ?s = (Inr u, t)"
    using assms None by (auto simp: conn_password_def split: prod.splits sum.splits)
  then obtain b where b: "AuthBackend cfg = Some b"
    by (cases "AuthBackend cfg") (auto simp: new_backend_def backend_password_def)
  have "granted_password lib w0 (network ?s) (network t) b meta password u"
    by (rule backend_password_granted [OF attempts_keep_policy [where cfg=cfg, unfolded b] g [unfolded b]]) simp
  then show ?thesis using None b by (auto simp: granted_password_def named_by_def)
qed

text \<open>
  C17. After any attempts, a key opens a session only for the user of the name given: a static
  user the configuration lists the key for; or one for whom the backend published, on this
  connection, the method and the key, and whose fingerprint it then confirmed. A
  single-endpoint backend never grants a key.
\<close>

theorem auth_public_key_sound:
  assumes "conn_public_key lib cfg meta key (attempts lib cfg earlier (new_conn w0)) = (Some u, t)"
  shows "Username u = meta_user meta \<and>
    (case static_user cfg (meta_user meta) of
       Some su \<Rightarrow> u = su \<and> has_authorized_key (lib_crypto lib) u key \<and>
         t = attempts lib cfg earlier (new_conn w0)
     | None \<Rightarrow> (\<exists>b. AuthBackend cfg = Some b \<and>
         granted_public_key lib w0 (network (attempts lib cfg earlier (new_conn w0))) (network t) b meta key u))"
proof (cases "static_user cfg (meta_user meta)")
  case (Some su)
  then show ?thesis using assms static_user_name [OF Some] by (auto simp: conn_public_key_def split: if_splits)
next
  case None
  let ?s = "attempts lib cfg earlier (new_conn w0)"
  have g: "backend_public_key lib (new_backend (AuthBackend cfg)) meta key ?s = (Inr u, t)"
    using assms None by (auto simp: conn_public_key_def split: prod.splits sum.splits)
  then obtain b where b: "AuthBackend cfg = Some b"
    by (cases "AuthBackend cfg") (auto simp: new_backend_def backend_public_key_def)
  have "granted_public_key lib w0 (network ?s) (network t) b meta key u"
    by (rule backend_public_key_granted [OF attempts_keep_policy [where cfg=cfg, unfolded b] g [unfolded b]]) simp
  then show ?thesis using None b by (auto simp: granted_public_key_def named_by_def)
qed

text \<open>A backend that publishes both methods for everybody, and a client it lets in.\<close>

definition sample_lib :: "nat auth_lib" where
  "sample_lib = \<lparr>http_post = (\<lambda>rq n. (Some \<lparr>ha_status = 200, ha_body = req_password (hr_body rq)\<rparr>, Suc n)),
     decode_lookup = (\<lambda>_. Some \<lparr>lr_methods = [''password'', ''publickey''], lr_authorized_keys = [''K'']\<rparr>),
     decode_user = (\<lambda>_. Some (sample_user\<lparr>Username := []\<rparr>)), compare_hash = (\<lambda>_ _. False),
     key_fingerprint = (\<lambda>k. k), lib_crypto = \<lparr>bcrypt_cost = (\<lambda>_. True), parse_authorized_key = Some\<rparr>\<rparr>"

definition sample_auth_config :: config where
  "sample_auth_config = sample_config\<lparr>AuthBackend := Some \<lparr>BaseURL = ''https://a/b'', URL = [], AuthHeaders = [], TimeoutMs = None\<rparr>\<rparr>"

definition sample_meta :: conn_meta where
  "sample_meta = \<lparr>meta_user = ''bob'', meta_remote = ''[::1]:22'', meta_local = ''h:2222'',
     meta_client_version = ''c'', meta_server_version = ''s''\<rparr>"

definition sample_bob :: user where "sample_bob = sample_user\<lparr>Username := ''bob''\<rparr>"

lemma auth_password_sound_witness:
  "\<exists>t. conn_password sample_lib sample_auth_config sample_meta ''pw''
      (attempts sample_lib sample_auth_config [Try_Public_Key (sample_meta\<lparr>meta_user := ''eve''\<rparr>) ''L''] (new_conn 0)) = (Some sample_bob, t) \<and>
    Username sample_bob = meta_user sample_meta"
proof -
  have r: "conn_password sample_lib sample_auth_config sample_meta ''pw''
      (attempts sample_lib sample_auth_config [Try_Public_Key (sample_meta\<lparr>meta_user := ''eve''\<rparr>) ''L''] (new_conn 0)) =
      (Some sample_bob, \<lparr>looked_up_user = ''bob'',
        lookup = Some \<lparr>lr_methods = [''password'', ''publickey''], lr_authorized_keys = [''K'']\<rparr>, network = 3\<rparr>)"
    by code_simp
  show ?thesis using auth_password_sound [OF r] r by blast
qed

lemma auth_public_key_sound_witness:
  "\<exists>t. conn_public_key sample_lib sample_auth_config sample_meta ''K''
      (attempts sample_lib sample_auth_config [Try_Password sample_meta ''pw''] (new_conn 0)) = (Some sample_bob, t) \<and>
    Username sample_bob = meta_user sample_meta"
proof -
  have r: "conn_public_key sample_lib sample_auth_config sample_meta ''K''
      (attempts sample_lib sample_auth_config [Try_Password sample_meta ''pw''] (new_conn 0)) =
      (Some sample_bob, \<lparr>looked_up_user = ''bob'',
        lookup = Some \<lparr>lr_methods = [''password'', ''publickey''], lr_authorized_keys = [''K'']\<rparr>, network = 3\<rparr>)"
    by code_simp
  show ?thesis using auth_public_key_sound [OF r] r by blast
qed

end
