(* ===== verification/Staging.thy ===== *)
theory Staging
  imports Vfs Go_Os Go_Runes
begin

text \<open>
  Scratch space on the local disk: \<open>server/internal/vfs/staging.go\<close>. A backend that can only be
  given a whole file collects it here first.

  The world of such a backend is the local disk, a network of any type, and the error each staged
  writer has kept. A descriptor is never used twice, so a writer is known by that of its file.
\<close>

section \<open>State\<close>

record staging_file =
  staged_fd :: nat
  staged_name :: host_path
  unlinked :: "host_path option"

record staged_writer =
  sw_file :: staging_file
  sw_err :: "verror option"

record 'n remote =
  disk :: host
  net :: 'n
  staged_writers :: "nat \<rightharpoonup> staged_writer"

definition on_disk :: "(host \<Rightarrow> 'r \<times> host) \<Rightarrow> ('n, 'z) remote_scheme \<Rightarrow> 'r \<times> ('n, 'z) remote_scheme" where
  "on_disk m w = (case m (disk w) of (r, h) \<Rightarrow> (r, w\<lparr>disk := h\<rparr>))"

definition on_net :: "('n \<Rightarrow> 'r \<times> 'n) \<Rightarrow> ('n, 'z) remote_scheme \<Rightarrow> 'r \<times> ('n, 'z) remote_scheme" where
  "on_net m w = (case m (net w) of (r, n) \<Rightarrow> (r, w\<lparr>net := n\<rparr>))"

section \<open>Files read and written from where they stand\<close>

text \<open>\<open>Seek(0, io.SeekStart)\<close>.\<close>

definition os_seek_start :: "nat \<Rightarrow> (host, os_error, unit) op" where
  "os_seek_start fd = os_call (\<lambda>h.
     if handles h fd = None then (Inl OtherError, h)
     else (Inr (), h\<lparr>positions := (positions h)(fd := 0)\<rparr>))"

text \<open>
  Reading to the end, in as many calls as it takes: all there is from where the file stands, or,
  when a call fails, what was read until then.
\<close>

definition os_read_rest :: "nat \<Rightarrow> host \<Rightarrow> (bytes \<times> os_error option) \<times> host" where
  "os_read_rest fd h =
     (let h' = h\<lparr>calls := Suc (calls h)\<rparr> in
      case Option.bind (inode_of h fd) (inodes h) of
        None \<Rightarrow> (([], Some OtherError), h')
      | Some file \<Rightarrow>
          (let rest = drop (positions h fd) (contents file);
               (got, e) = (case faults h (calls h) of Some (e, k) \<Rightarrow> (take k rest, Some e) | None \<Rightarrow> (rest, None))
           in ((got, e), h'\<lparr>positions := (positions h)(fd := positions h fd + length got)\<rparr>)))"

text \<open>
  \<open>io.Copy\<close> into a file from a stream that delivers some bytes and then ends, or breaks off:
  how many were written, and whether it got to the end.
\<close>

definition os_copy :: "nat \<Rightarrow> bytes \<Rightarrow> bool \<Rightarrow> host \<Rightarrow> (nat \<times> bool) \<times> host" where
  "os_copy fd data breaks h =
     (case os_write_at fd data (word_of_nat (positions h fd)) h of
        ((n, e), h') \<Rightarrow> ((n, e = None \<and> \<not> breaks), h'\<lparr>positions := (positions h')(fd := positions h fd + n)\<rparr>))"

section \<open>Staging files\<close>

text \<open>
  \<open>os.CreateTemp\<close>: a pattern is cut at its asterisk, and a random number goes between. A name
  that is taken is tried again, so many times at most.
\<close>

definition temp_attempts :: nat where "temp_attempts = 10000"

definition temp_mode :: uint32 where "temp_mode = 384"

definition random_number :: "host \<Rightarrow> string \<times> host" where
  "random_number h = (show_int (int (entropy h (calls h)) mod 4294967296), h\<lparr>calls := Suc (calls h)\<rparr>)"

fun create_temp_loop :: "nat \<Rightarrow> host_path \<Rightarrow> string \<Rightarrow> string \<Rightarrow> (host, os_error, host_path \<times> nat) op" where
  "create_temp_loop 0 dir before_star after_star h = (Inl Exist, h)"
| "create_temp_loop (Suc n) dir before_star after_star h =
     (case random_number h of (digits, h1) \<Rightarrow>
        (case os_create_excl (dir @ [before_star @ digits @ after_star]) temp_mode h1 of
           (Inr fd, h2) \<Rightarrow> (Inr (dir @ [before_star @ digits @ after_star], fd), h2)
         | (Inl e, h2) \<Rightarrow>
             if e = Exist then create_temp_loop n dir before_star after_star h2 else (Inl e, h2)))"

definition os_create_temp :: "host_path \<Rightarrow> string \<Rightarrow> (host, os_error, host_path \<times> nat) op" where
  "os_create_temp dir pattern =
     (case cut_last (CHR ''*'') pattern of (pre, suf, _) \<Rightarrow> create_temp_loop temp_attempts dir pre suf)"

text \<open>\<open>NewStagingFile\<close> unlinks the file it made, and keeps its path where that is refused.\<close>

definition new_staging_file :: "host_path \<Rightarrow> string \<Rightarrow> (host, verror, staging_file) op" where
  "new_staging_file dir pattern h =
     (case os_create_temp dir pattern h of
        (Inl e, h1) \<Rightarrow> (Inl ErrFailure, h1)
      | (Inr (name, fd), h1) \<Rightarrow>
          (case os_remove name h1 of
             (Inl e, h2) \<Rightarrow> (Inr \<lparr>staged_fd = fd, staged_name = name, unlinked = Some name\<rparr>, h2)
           | (Inr _, h2) \<Rightarrow> (Inr \<lparr>staged_fd = fd, staged_name = name, unlinked = None\<rparr>, h2)))"

definition staging_close :: "staging_file \<Rightarrow> host \<Rightarrow> verror option \<times> host" where
  "staging_close f h =
     (case os_close (staged_fd f) h of (closed, h1) \<Rightarrow>
        (case unlinked f of
           None \<Rightarrow> (if isl closed then Some ErrFailure else None, h1)
         | Some path \<Rightarrow>
             (case os_remove path h1 of (removed, h2) \<Rightarrow>
                (if isl closed \<or> isl removed then Some ErrFailure else None, h2))))"

section \<open>Staged writers\<close>

text \<open>What the contents are handed to: the backend's last step, over the file itself.\<close>

type_synonym ('n, 'z) commit = "staging_file \<Rightarrow> ('n, 'z) remote_scheme \<Rightarrow> verror option \<times> ('n, 'z) remote_scheme"

definition staged_write_at :: "nat \<Rightarrow> bytes \<Rightarrow> int64 \<Rightarrow> ('n, 'z) remote_scheme \<Rightarrow> (nat \<times> verror option) \<times> ('n, 'z) remote_scheme" where
  "staged_write_at fd data offset w =
     (case staged_writers w fd of
        None \<Rightarrow> ((0, Some ErrFailure), w)
      | Some sw \<Rightarrow>
          (case sw_err sw of
             Some e \<Rightarrow> ((0, Some e), w)
           | None \<Rightarrow>
               (case on_disk (os_write_at (staged_fd (sw_file sw)) data offset) w of
                  ((n, None), w1) \<Rightarrow> ((n, None), w1)
                | ((n, Some _), w1) \<Rightarrow>
                    ((n, Some ErrFailure),
                     w1\<lparr>staged_writers := (staged_writers w1)(fd \<mapsto> sw\<lparr>sw_err := Some ErrFailure\<rparr>)\<rparr>))))"

text \<open>\<open>defer w.file.Close()\<close>, whose result is dropped.\<close>

definition closing_staged :: "staging_file \<Rightarrow> 'r \<times> ('n, 'z) remote_scheme \<Rightarrow> 'r \<times> ('n, 'z) remote_scheme" where
  "closing_staged f rw = (case rw of (r, w) \<Rightarrow> (r, snd (on_disk (staging_close f) w)))"

definition staged_writer_close :: "('n, 'z) commit \<Rightarrow> nat \<Rightarrow> ('n, 'z) remote_scheme \<Rightarrow> verror option \<times> ('n, 'z) remote_scheme" where
  "staged_writer_close commit fd w =
     (case staged_writers w fd of
        None \<Rightarrow> (Some ErrFailure, w)
      | Some sw \<Rightarrow> closing_staged (sw_file sw)
          (case sw_err sw of
             Some e \<Rightarrow> (Some e, w)
           | None \<Rightarrow>
               (case on_disk (os_seek_start (staged_fd (sw_file sw))) w of
                  (Inl e, w1) \<Rightarrow> (Some ErrFailure, w1)
                | (Inr _, w1) \<Rightarrow> commit (sw_file sw) w1)))"

definition staged_writer_abort :: "nat \<Rightarrow> ('n, 'z) remote_scheme \<Rightarrow> verror option \<times> ('n, 'z) remote_scheme" where
  "staged_writer_abort fd w =
     (case staged_writers w fd of
        None \<Rightarrow> (Some ErrFailure, w)
      | Some sw \<Rightarrow>
          on_disk (staging_close (sw_file sw))
            (w\<lparr>staged_writers := (staged_writers w)(fd \<mapsto> sw\<lparr>sw_err := Some ErrFailure\<rparr>)\<rparr>))"

definition staged_handle :: "('n, 'z) commit \<Rightarrow> nat \<Rightarrow> ('n, 'z) remote_scheme writer" where
  "staged_handle commit fd =
     \<lparr>write_at = staged_write_at fd, write_close = staged_writer_close commit fd, write_abort = staged_writer_abort fd\<rparr>"

definition upload_pattern :: string where "upload_pattern = ''upload-*''"

definition new_staged_writer :: "host_path \<Rightarrow> ('n, 'z) commit \<Rightarrow> (('n, 'z) remote_scheme, verror, ('n, 'z) remote_scheme writer) op" where
  "new_staged_writer dir commit w =
     (case on_disk (new_staging_file dir upload_pattern) w of
        (Inl e, w1) \<Rightarrow> (Inl e, w1)
      | (Inr f, w1) \<Rightarrow>
          (Inr (staged_handle commit (staged_fd f)),
           w1\<lparr>staged_writers := (staged_writers w1)(staged_fd f \<mapsto> \<lparr>sw_file = f, sw_err = None\<rparr>)\<rparr>))"

end
