(* ===== verification/Headers.thy ===== *)
theory Headers
  imports Go_Http
begin

text \<open>
  The stamp of a user, \<open>server/internal/headers/headers.go\<close>: what a request carries with it of the
  headers the user is served under. The context of a request is the record \<open>request_context\<close>.
\<close>

record request_context = ctx_stamp :: "(string \<times> string) list option"

definition headers_with :: "request_context \<Rightarrow> (string \<times> string) list \<Rightarrow> request_context" where
  "headers_with ctx stamp = (if stamp = [] then ctx else ctx\<lparr>ctx_stamp := Some stamp\<rparr>)"

definition headers_from :: "request_context \<Rightarrow> (string \<times> string) list" where
  "headers_from ctx = (case ctx_stamp ctx of None \<Rightarrow> [] | Some stamp \<Rightarrow> stamp)"

end
