(* ===== verification/Httpfs.thy ===== *)
theory Httpfs
  imports Staging Headers
begin

text \<open>
  The HTTP backend: \<open>server/internal/httpfs/httpfs.go\<close> and \<open>read.go\<close>.

  The record \<open>web\<close> stands for what is not under \<open>src/\<close>: the network behind the HTTP client, which
  answers a request or fails, and the decoding of a media type and of a listing. A body is the
  bytes that arrive and how the stream then ends. Contexts carry the stamp; a request
  whose context is cancelled is one that fails.
\<close>

section \<open>Requests and responses\<close>

record web_request =
  wr_method :: string
  wr_url :: string
  wr_headers :: header
  wr_body :: "(bytes \<times> bool) option"

record web_response =
  ws_status :: int
  ws_headers :: header
  ws_length :: int64
  ws_body :: bytes
  ws_end :: body_end

record 'n web =
  web_do :: "web_request \<Rightarrow> 'n \<Rightarrow> web_response option \<times> 'n"
  media_type :: "string \<Rightarrow> string option"
  decode_entries :: "bytes \<Rightarrow> entry list option"

section \<open>Stamps\<close>

definition stamped :: "request_context \<Rightarrow> header \<Rightarrow> header" where
  "stamped ctx h = set_headers (headers_from ctx) h"

section \<open>State\<close>

text \<open>
  A reader is chosen once and pointed to from then on: a range reader by the cell that keeps
  the length it has learnt, a staged reader by its file. A gate is a channel, which once closed
  stays closed.
\<close>

datatype chosen_reader = Ranged nat | Staged staging_file

record open_file =
  of_chosen :: "chosen_reader option"
  of_probing :: "nat option"
  of_closed :: bool

record 'n http_world = "'n remote" +
  open_files :: "nat \<rightharpoonup> open_file"
  next_open :: nat
  range_sizes :: "nat \<Rightarrow> int64"
  next_range :: nat
  next_gate :: nat
  closed_gates :: "nat set"

record 'n http_fs =
  hf_web :: "'n web"
  hf_staging :: host_path
  hf_ctx :: request_context

definition directory_content_type :: string where "directory_content_type = ''application/vnd.sftpproxy.directory+json''"
definition directory_entry_content_type :: string where "directory_entry_content_type = ''application/vnd.sftpproxy.directoryentry''"
definition http_upload_content_type :: string where "http_upload_content_type = ''application/octet-stream''"

definition max_listing_bytes :: nat where "max_listing_bytes = 8388608"

definition http_permits :: "node \<Rightarrow> string \<Rightarrow> bool" where
  "http_permits node verb \<longleftrightarrow> AllowedMethods (attrs_of node) = [] \<or> verb \<in> set (AllowedMethods (attrs_of node))"

definition response_error :: "int \<Rightarrow> verror option" where
  "response_error status =
     (if 200 \<le> status \<and> status < 300 then None
      else if status = 401 \<or> status = 403 then Some ErrPermission
      else if status = 404 then Some ErrNotExist
      else if status = 405 then Some ErrUnsupported
      else Some ErrFailure)"

section \<open>Asking\<close>

text \<open>
  A body is a staging file, read from where it stands; the client closes it when it is done with
  it, whether the request succeeded or not.
\<close>

definition take_body :: "staging_file option \<Rightarrow> ('n, 'z) remote_scheme \<Rightarrow> (bytes \<times> bool) option \<times> ('n, 'z) remote_scheme" where
  "take_body body w =
     (case body of
        None \<Rightarrow> (None, w)
      | Some f \<Rightarrow>
          (case on_disk (os_read_rest (staged_fd f)) w of ((data, e), w1) \<Rightarrow>
             (Some (data, e \<noteq> None), snd (on_disk (staging_close f) w1))))"

definition http_do :: "'n http_fs \<Rightarrow> string \<Rightarrow> string \<Rightarrow> string \<Rightarrow> staging_file option \<Rightarrow> (('n, 'z) remote_scheme, verror, web_response) op" where
  "http_do b verb rawURL contentType body w =
     (if url_parse rawURL = None then (Inl ErrFailure, w)
      else (let h = stamped (hf_ctx b) [];
                h' = (if contentType \<noteq> [] then header_set ''Content-Type'' contentType h else h)
            in case take_body body w of (data, w1) \<Rightarrow>
              (case on_net (web_do (hf_web b) \<lparr>wr_method = verb, wr_url = rawURL, wr_headers = h', wr_body = data\<rparr>) w1 of
                 (None, w2) \<Rightarrow> (Inl ErrFailure, w2)
               | (Some response, w2) \<Rightarrow> (Inr response, w2))))"

definition error_as_op :: "verror option \<Rightarrow> ('s, verror, unit) op" where
  "error_as_op e = (case e of None \<Rightarrow> returnE () | Some x \<Rightarrow> failE x)"

definition http_mutate :: "'n http_fs \<Rightarrow> string \<Rightarrow> string \<Rightarrow> string \<Rightarrow> staging_file option \<Rightarrow> (('n, 'z) remote_scheme, verror, unit) op" where
  "http_mutate b verb rawURL contentType body =
     bindE (http_do b verb rawURL contentType body) (\<lambda>response. error_as_op (response_error (ws_status response)))"

section \<open>Operations\<close>

definition http_list :: "'n http_fs \<Rightarrow> node \<Rightarrow> (('n, 'z) remote_scheme, verror, node list) op" where
  "http_list b node =
     (if \<not> http_permits node ''GET'' then returnE []
      else bindE (http_do b ''GET'' (entry_backend node) [] None) (\<lambda>response.
        if ws_status response = 405 then returnE []
        else (case response_error (ws_status response) of
          Some e \<Rightarrow> failE e
        | None \<Rightarrow>
            if media_type (hf_web b) (header_get ''Content-Type'' (ws_headers response)) \<noteq> Some directory_content_type
            then failE ErrFailure
            else (case decode_entries (hf_web b) (take max_listing_bytes (ws_body response)) of
                    None \<Rightarrow> failE ErrFailure
                  | Some children \<Rightarrow>
                      if validate_entries children \<noteq> None then failE ErrFailure else returnE children))))"

text \<open>What the contents of an upload are handed to.\<close>

definition commit_by_post :: "'n http_fs \<Rightarrow> string \<Rightarrow> ('n, 'z) commit" where
  "commit_by_post b rawURL f w =
     (case http_mutate b ''POST'' rawURL http_upload_content_type (Some f) w of
        (Inl e, w1) \<Rightarrow> (Some e, w1) | (Inr _, w1) \<Rightarrow> (None, w1))"

definition http_create :: "'n http_fs \<Rightarrow> node \<Rightarrow> (('n, 'z) remote_scheme, verror, ('n, 'z) remote_scheme writer) op" where
  "http_create b node =
     (if \<not> http_permits node ''POST'' then failE ErrPermission
      else new_staged_writer (hf_staging b) (commit_by_post b (entry_backend node)))"

definition http_mkdir :: "'n http_fs \<Rightarrow> node \<Rightarrow> (('n, 'z) remote_scheme, verror, unit) op" where
  "http_mkdir b node =
     (if \<not> http_permits node ''POST'' then failE ErrPermission
      else http_mutate b ''POST'' (entry_backend node) directory_entry_content_type None)"

definition http_remove :: "'n http_fs \<Rightarrow> node \<Rightarrow> (('n, 'z) remote_scheme, verror, unit) op" where
  "http_remove b node =
     (if \<not> http_permits node ''DELETE'' then failE ErrPermission
      else http_mutate b ''DELETE'' (entry_backend node) [] None)"

definition rename_query :: "string \<Rightarrow> string" where
  "rename_query target = ''renameTo='' @ escape EncodeQuery target"

definition http_rename :: "'n http_fs \<Rightarrow> node \<Rightarrow> string \<Rightarrow> string \<Rightarrow> (('n, 'z) remote_scheme, verror, unit) op" where
  "http_rename b node from target =
     (if \<not> http_permits node ''DELETE'' then failE ErrPermission
      else (case url_parse (entry_backend node) of
              None \<Rightarrow> failE ErrFailure
            | Some parsed \<Rightarrow>
                http_mutate b ''DELETE'' (url_string (parsed\<lparr>u_raw_query := rename_query target\<rparr>)) [] None))"

definition http_child :: "node \<Rightarrow> string \<Rightarrow> verror + node" where
  "http_child node name =
     (case url_parse (entry_backend node) of
        None \<Rightarrow> Inl ErrFailure
      | Some parsed \<Rightarrow>
          Inr (Entry (no_attrs\<lparr>File := name,
                 Backend := url_string (parsed\<lparr>u_path := trim_suffix ''/'' (u_path parsed) @ ''/'' @ name\<rparr>),
                 AllowedMethods := AllowedMethods (attrs_of node),
                 MaxUploadSize := MaxUploadSize (attrs_of node)\<rparr>) []))"

section \<open>Reading by ranges\<close>

definition size_unknown :: int64 where "size_unknown = - 1"

definition content_range_total :: "string \<Rightarrow> int64" where
  "content_range_total h =
     (case cut (CHR '' '') h of (unit_name, remainder, found) \<Rightarrow>
        if \<not> found \<or> \<not> equal_fold (trim_space unit_name) ''bytes'' then size_unknown
        else (case cut (CHR ''/'') remainder of (_, after_slash, found') \<Rightarrow>
          if \<not> found' then size_unknown
          else (case parse_int (trim_space after_slash) of
                  None \<Rightarrow> size_unknown
                | Some n \<Rightarrow> if n < 0 then size_unknown else word_of_int n)))"

definition range_header :: "int64 \<Rightarrow> nat \<Rightarrow> string" where
  "range_header offset len =
     ''bytes='' @ show_int (sint offset) @ ''-'' @ show_int (sint (offset + of_nat len - 1))"

definition range_request :: "'n http_fs \<Rightarrow> string \<Rightarrow> int64 \<Rightarrow> nat \<Rightarrow> web_request" where
  "range_request b url offset len =
     \<lparr>wr_method = ''GET'', wr_url = url,
      wr_headers = header_set ''Range'' (range_header offset len) (stamped (hf_ctx b) []), wr_body = None\<rparr>"

definition fetch :: "'n http_fs \<Rightarrow> string \<Rightarrow> int64 \<Rightarrow> nat \<Rightarrow> (('n, 'z) remote_scheme, verror, web_response) op" where
  "fetch b url offset len w =
     (if url_parse url = None then (Inl ErrFailure, w)
      else (case on_net (web_do (hf_web b) (range_request b url offset len)) w of
              (None, w1) \<Rightarrow> (Inl ErrFailure, w1)
            | (Some response, w1) \<Rightarrow> (Inr response, w1)))"

text \<open>The compare-and-swap of \<open>learn\<close>, on the cell of a range reader.\<close>

definition learn :: "nat \<Rightarrow> web_response \<Rightarrow> 'n http_world \<Rightarrow> 'n http_world" where
  "learn c response w =
     (if range_sizes w c = size_unknown
      then w\<lparr>range_sizes := (range_sizes w)(c := content_range_total (header_get ''Content-Range'' (ws_headers response)))\<rparr>
      else w)"

text \<open>
  \<open>io.ReadFull\<close> of a body into a buffer of \<open>n\<close> bytes, as a read answers it: the end of the body
  and its being cut short are both answered as the end of the file, any other error is not.
\<close>

definition read_full_body :: "web_response \<Rightarrow> nat \<Rightarrow> bytes \<times> io_error option" where
  "read_full_body response n =
     (if n \<le> length (ws_body response) then (take n (ws_body response), None)
      else if ws_end response = Broken then (ws_body response, Some (IOErr ErrFailure))
      else (ws_body response, Some EOF))"

definition serve :: "nat \<Rightarrow> web_response \<Rightarrow> nat \<Rightarrow> 'n http_world \<Rightarrow> (bytes \<times> io_error option) \<times> 'n http_world" where
  "serve c response n w =
     (if ws_status response = 206 then (read_full_body response n, learn c response w)
      else if ws_status response = 416 then (([], Some EOF), learn c response w)
      else if ws_status response = 200 then (([], Some (IOErr ErrFailure)), w)
      else (case response_error (ws_status response) of
              Some e \<Rightarrow> (([], Some (IOErr e)), w)
            | None \<Rightarrow> (([], Some (IOErr ErrFailure)), w)))"

definition ranged_read_at :: "'n http_fs \<Rightarrow> string \<Rightarrow> nat \<Rightarrow> nat \<Rightarrow> int64 \<Rightarrow> 'n http_world \<Rightarrow> (bytes \<times> io_error option) \<times> 'n http_world" where
  "ranged_read_at b url c n offset w =
     (if range_sizes w c \<noteq> size_unknown \<and> sint (range_sizes w c) \<le> sint offset then (([], Some EOF), w)
      else (case fetch b url offset n w of
              (Inl e, w1) \<Rightarrow> (([], Some (IOErr e)), w1)
            | (Inr response, w1) \<Rightarrow> serve c response n w1))"

definition ranged_size :: "nat \<Rightarrow> ('n http_world, verror, int64) op" where
  "ranged_size c w = (if range_sizes w c = size_unknown then Inl ErrUnsupported else Inr (range_sizes w c), w)"

section \<open>Reading a staged copy\<close>

definition download_pattern :: string where "download_pattern = ''download-*''"

definition stage :: "'n http_fs \<Rightarrow> web_response \<Rightarrow> (('n, 'z) remote_scheme, verror, staging_file) op" where
  "stage b response w =
     (case on_disk (new_staging_file (hf_staging b) download_pattern) w of
        (Inl e, w1) \<Rightarrow> (Inl ErrFailure, w1)
      | (Inr f, w1) \<Rightarrow>
          (case on_disk (os_copy (staged_fd f) (ws_body response) (ws_end response \<noteq> Complete)) w1 of
             ((count, ok), w2) \<Rightarrow>
               if \<not> ok \<or> 0 \<le> sint (ws_length response) \<and> int count \<noteq> sint (ws_length response)
               then (Inl ErrFailure, snd (on_disk (staging_close f) w2))
               else (Inr f, w2)))"

definition staged_read_at :: "staging_file \<Rightarrow> nat \<Rightarrow> int64 \<Rightarrow> ('n, 'z) remote_scheme \<Rightarrow> (bytes \<times> io_error option) \<times> ('n, 'z) remote_scheme" where
  "staged_read_at f n offset w =
     (case on_disk (os_read_at (staged_fd f) n offset) w of
        ((data, None), w1) \<Rightarrow> ((data, None), w1)
      | ((data, Some OsEOF), w1) \<Rightarrow> ((data, Some EOF), w1)
      | ((data, Some (OsErr e)), w1) \<Rightarrow> ((data, Some (IOErr ErrFailure)), w1))"

definition staged_size :: "staging_file \<Rightarrow> (('n, 'z) remote_scheme, verror, int64) op" where
  "staged_size f w =
     (case on_disk (os_fstat (staged_fd f)) w of
        (Inl e, w1) \<Rightarrow> (Inl ErrFailure, w1) | (Inr i, w1) \<Rightarrow> (Inr (info_size i), w1))"

section \<open>Whichever was chosen\<close>

definition chosen_read_at :: "'n http_fs \<Rightarrow> string \<Rightarrow> chosen_reader \<Rightarrow> nat \<Rightarrow> int64 \<Rightarrow> 'n http_world \<Rightarrow> (bytes \<times> io_error option) \<times> 'n http_world" where
  "chosen_read_at b url r n offset =
     (case r of Ranged c \<Rightarrow> ranged_read_at b url c n offset | Staged f \<Rightarrow> staged_read_at f n offset)"

definition chosen_size :: "chosen_reader \<Rightarrow> ('n http_world, verror, int64) op" where
  "chosen_size r = (case r of Ranged c \<Rightarrow> ranged_size c | Staged f \<Rightarrow> staged_size f)"

definition chosen_close :: "chosen_reader \<Rightarrow> 'n http_world \<Rightarrow> verror option \<times> 'n http_world" where
  "chosen_close r w = (case r of Ranged c \<Rightarrow> (None, w) | Staged f \<Rightarrow> on_disk (staging_close f) w)"

section \<open>The handle\<close>

text \<open>What \<open>next\<close> decides under the lock.\<close>

datatype next_step = Refuse | Through chosen_reader | Wait nat | Probe

definition open_next :: "nat \<Rightarrow> 'n http_world \<Rightarrow> next_step \<times> 'n http_world" where
  "open_next k w =
     (case open_files w k of
        None \<Rightarrow> (Refuse, w)
      | Some f \<Rightarrow>
          if of_closed f then (Refuse, w)
          else (case of_chosen f of
            Some r \<Rightarrow> (Through r, w)
          | None \<Rightarrow>
              (case of_probing f of
                 Some g \<Rightarrow> (Wait g, w)
               | None \<Rightarrow>
                   (Probe, w\<lparr>open_files := (open_files w)(k \<mapsto> f\<lparr>of_probing := Some (next_gate w)\<rparr>),
                              next_gate := Suc (next_gate w)\<rparr>))))"

text \<open>A reader that is not taken on is closed.\<close>

definition adopt :: "nat \<Rightarrow> chosen_reader \<Rightarrow> ('n http_world, verror, unit) op" where
  "adopt k r w =
     (case open_files w k of
        None \<Rightarrow> (Inl ErrFailure, snd (chosen_close r w))
      | Some f \<Rightarrow>
          if of_closed f then (Inl ErrFailure, snd (chosen_close r w))
          else (Inr (), w\<lparr>open_files := (open_files w)(k \<mapsto> f\<lparr>of_chosen := Some r\<rparr>)\<rparr>))"

text \<open>
  \<open>classify\<close> up to the reader it builds: the first window's answer, and the reader to adopt, if
  there is one; then what it does with the reader.
\<close>

datatype classified = Failed "bytes \<times> io_error option" | Whole staging_file | Window nat "bytes \<times> io_error option"

definition new_range_reader :: "'n http_world \<Rightarrow> nat \<times> 'n http_world" where
  "new_range_reader w =
     (next_range w, w\<lparr>range_sizes := (range_sizes w)(next_range w := size_unknown), next_range := Suc (next_range w)\<rparr>)"

definition classify_answer :: "'n http_fs \<Rightarrow> string \<Rightarrow> nat \<Rightarrow> int64 \<Rightarrow> 'n http_world \<Rightarrow> classified \<times> 'n http_world" where
  "classify_answer b url n offset w =
     (case fetch b url offset n w of
        (Inl e, w1) \<Rightarrow> (Failed ([], Some (IOErr e)), w1)
      | (Inr response, w1) \<Rightarrow>
          if ws_status response = 200 then
            (case stage b response w1 of
               (Inl e, w2) \<Rightarrow> (Failed ([], Some (IOErr e)), w2) | (Inr f, w2) \<Rightarrow> (Whole f, w2))
          else (case new_range_reader w1 of (c, w2) \<Rightarrow>
            (case serve c response n w2 of
               ((data, Some (IOErr e)), w3) \<Rightarrow> (Failed (data, Some (IOErr e)), w3)
             | (answer, w3) \<Rightarrow> (Window c answer, w3))))"

definition classify_adopt :: "nat \<Rightarrow> nat \<Rightarrow> int64 \<Rightarrow> classified \<Rightarrow> 'n http_world \<Rightarrow> (bytes \<times> io_error option) \<times> 'n http_world" where
  "classify_adopt k n offset a w =
     (case a of
        Failed answer \<Rightarrow> (answer, w)
      | Whole f \<Rightarrow>
          (case adopt k (Staged f) w of
             (Inl e, w1) \<Rightarrow> (([], Some (IOErr e)), w1) | (Inr _, w1) \<Rightarrow> staged_read_at f n offset w1)
      | Window c answer \<Rightarrow>
          (case adopt k (Ranged c) w of
             (Inl e, w1) \<Rightarrow> (([], Some (IOErr e)), w1) | (Inr _, w1) \<Rightarrow> (answer, w1)))"

definition classify :: "'n http_fs \<Rightarrow> nat \<Rightarrow> string \<Rightarrow> nat \<Rightarrow> int64 \<Rightarrow> 'n http_world \<Rightarrow> (bytes \<times> io_error option) \<times> 'n http_world" where
  "classify b k url n offset w =
     (case classify_answer b url n offset w of (a, w1) \<Rightarrow> classify_adopt k n offset a w1)"

text \<open>The end of \<open>probe\<close>: the gate is taken down under the lock, and then closed.\<close>

definition take_gate :: "nat \<Rightarrow> 'n http_world \<Rightarrow> nat option \<times> 'n http_world" where
  "take_gate k w =
     (case open_files w k of
        None \<Rightarrow> (None, w)
      | Some f \<Rightarrow> (of_probing f, w\<lparr>open_files := (open_files w)(k \<mapsto> f\<lparr>of_probing := None\<rparr>)\<rparr>))"

definition close_gate :: "nat option \<Rightarrow> 'n http_world \<Rightarrow> 'n http_world" where
  "close_gate g w = (case g of None \<Rightarrow> w | Some x \<Rightarrow> w\<lparr>closed_gates := insert x (closed_gates w)\<rparr>)"

definition probe :: "'n http_fs \<Rightarrow> nat \<Rightarrow> string \<Rightarrow> nat \<Rightarrow> int64 \<Rightarrow> 'n http_world \<Rightarrow> (bytes \<times> io_error option) \<times> 'n http_world" where
  "probe b k url n offset w = 
     (case classify b k url n offset w of (answer, w1) \<Rightarrow>
        (case take_gate k w1 of (g, w2) \<Rightarrow> (answer, close_gate g w2)))"

text \<open>
  A read that has the handle to itself. It would find a gate only if another read were under
  way; waiting at it, with nobody there to open it, ends when the context does.
\<close>

definition open_read_at :: "'n http_fs \<Rightarrow> nat \<Rightarrow> string \<Rightarrow> nat \<Rightarrow> int64 \<Rightarrow> 'n http_world \<Rightarrow> (bytes \<times> io_error option) \<times> 'n http_world" where
  "open_read_at b k url n offset w =
     (if n = 0 then (([], None), w)
      else (case open_next k w of
              (Refuse, w1) \<Rightarrow> (([], Some (IOErr ErrFailure)), w1)
            | (Through r, w1) \<Rightarrow> chosen_read_at b url r n offset w1
            | (Wait g, w1) \<Rightarrow> (([], Some (IOErr ErrFailure)), w1)
            | (Probe, w1) \<Rightarrow> probe b k url n offset w1))"

definition open_size :: "'n http_fs \<Rightarrow> nat \<Rightarrow> string \<Rightarrow> ('n http_world, verror, int64) op" where
  "open_size b k url w =
     (case open_read_at b k url 1 0 w of
        ((_, Some (IOErr e)), w1) \<Rightarrow> (Inl e, w1)
      | (_, w1) \<Rightarrow>
          (case Option.bind (open_files w1 k) of_chosen of
             None \<Rightarrow> (Inl ErrFailure, w1) | Some r \<Rightarrow> chosen_size r w1))"

text \<open>\<open>Close\<close>: what it takes away under the lock, and then the closing of that.\<close>

definition close_lock :: "nat \<Rightarrow> 'n http_world \<Rightarrow> chosen_reader option \<times> 'n http_world" where
  "close_lock k w =
     (case open_files w k of
        None \<Rightarrow> (None, w)
      | Some f \<Rightarrow> (of_chosen f, w\<lparr>open_files := (open_files w)(k \<mapsto> f\<lparr>of_chosen := None, of_closed := True\<rparr>)\<rparr>))"

definition open_close :: "nat \<Rightarrow> 'n http_world \<Rightarrow> verror option \<times> 'n http_world" where
  "open_close k w =
     (case close_lock k w of (None, w1) \<Rightarrow> (None, w1) | (Some r, w1) \<Rightarrow> chosen_close r w1)"

definition http_open :: "'n http_fs \<Rightarrow> node \<Rightarrow> ('n http_world, verror, 'n http_world reader) op" where
  "http_open b node w =
     (if \<not> http_permits node ''GET'' then (Inl ErrPermission, w)
      else (let k = next_open w; url = entry_backend node in
        (Inr \<lparr>read_at = open_read_at b k url, read_size = open_size b k url, read_close = open_close k\<rparr>,
         w\<lparr>open_files := (open_files w)(k \<mapsto> \<lparr>of_chosen = None, of_probing = None, of_closed = False\<rparr>),
           next_open := Suc k\<rparr>)))"

definition http_backend :: "'n http_fs \<Rightarrow> 'n http_world backend" where
  "http_backend b =
     \<lparr>backend_list = http_list b, backend_open = http_open b, backend_create = http_create b,
      backend_mkdir = http_mkdir b, backend_remove = http_remove b, backend_rename = http_rename b,
      backend_child = http_child\<rparr>"

end
