(* ===== verification/Staging_Properties.thy ===== *)
theory Staging_Properties
  imports Staging
begin

text \<open>
  A staged writer hands its contents over at most once, and only if they are the whole of what
  was written: after a write that failed, after an abort and after a close nothing is handed over.
\<close>

section \<open>Histories\<close>

text \<open>
  What has been done with a writer since it was made. In between, anything else may happen that
  leaves its file and what it remembers alone; no name leads to the file any more.
\<close>

datatype staged_event = Wrote bytes int64 "verror option" | Aborted | Closed

definition undisturbed :: "nat \<Rightarrow> nat \<Rightarrow> ('n, 'z) remote_scheme \<Rightarrow> ('n, 'z) remote_scheme \<Rightarrow> bool" where
  "undisturbed fd i w w' \<longleftrightarrow> staged_writers w' fd = staged_writers w fd \<and>
     handles (disk w') fd = handles (disk w) fd \<and>
     map_option contents (inodes (disk w') i) = map_option contents (inodes (disk w) i)"

inductive staged_history :: "('n, 'z) commit \<Rightarrow> nat \<Rightarrow> nat \<Rightarrow> ('n, 'z) remote_scheme \<Rightarrow> staged_event list \<Rightarrow> ('n, 'z) remote_scheme \<Rightarrow> bool"
  for commit fd i w0 where
  made: "staged_history commit fd i w0 [] w0"
| wrote: "staged_history commit fd i w0 es w \<Longrightarrow> staged_write_at fd data off w = ((n, e), w') \<Longrightarrow>
    staged_history commit fd i w0 (es @ [Wrote data off e]) w'"
| aborted: "staged_history commit fd i w0 es w \<Longrightarrow> staged_history commit fd i w0 (es @ [Aborted]) (snd (staged_writer_abort fd w))"
| closed: "staged_history commit fd i w0 es w \<Longrightarrow> staged_history commit fd i w0 (es @ [Closed]) (snd (staged_writer_close commit fd w))"
| others: "staged_history commit fd i w0 es w \<Longrightarrow> undisturbed fd i w w' \<Longrightarrow> staged_history commit fd i w0 es w'"

fun accepted :: "staged_event \<Rightarrow> bool" where
  "accepted (Wrote data off e) = (e = None)"
| "accepted _ = False"

fun written :: "staged_event \<Rightarrow> bytes \<times> int64" where
  "written (Wrote data off e) = (data, off)"
| "written _ = ([], 0)"

definition staged_contents :: "('n, 'z) remote_scheme \<Rightarrow> nat \<Rightarrow> bytes option" where
  "staged_contents w fd =
     (case handles (disk w) fd of Some (WriteHandle i) \<Rightarrow> map_option contents (inodes (disk w) i) | _ \<Rightarrow> None)"

text \<open>The invariant: still whole, or spent for good.\<close>

definition staged_whole :: "nat \<Rightarrow> nat \<Rightarrow> bytes \<Rightarrow> ('n, 'z) remote_scheme \<Rightarrow> bool" where
  "staged_whole fd i data w \<longleftrightarrow> (\<exists>sw. staged_writers w fd = Some sw \<and> staged_fd (sw_file sw) = fd \<and> sw_err sw = None) \<and>
     handles (disk w) fd = Some (WriteHandle i) \<and> map_option contents (inodes (disk w) i) = Some data"

definition staged_spent :: "nat \<Rightarrow> ('n, 'z) remote_scheme \<Rightarrow> bool" where
  "staged_spent fd w \<longleftrightarrow> (\<exists>sw. staged_writers w fd = Some sw \<and> staged_fd (sw_file sw) = fd \<and>
     (sw_err sw = Some ErrFailure \<or> sw_err sw = None \<and> handles (disk w) fd = None))"

definition staged_state :: "nat \<Rightarrow> nat \<Rightarrow> staged_event list \<Rightarrow> ('n, 'z) remote_scheme \<Rightarrow> bool" where
  "staged_state fd i es w \<longleftrightarrow>
     (if list_all accepted es then staged_whole fd i (foldl apply_write [] (map written es)) w else staged_spent fd w)"

section \<open>The operations\<close>

lemma on_disk_fields [simp]:
  "net (snd (on_disk m w)) = net w" "staged_writers (snd (on_disk m w)) = staged_writers w"
  "disk (snd (on_disk m w)) = snd (m (disk w))" "fst (on_disk m w) = fst (m (disk w))"
  by (simp_all add: on_disk_def split: prod.splits)

lemma on_disk_iff: "on_disk m w = (r, w') \<longleftrightarrow> (\<exists>h. m (disk w) = (r, h) \<and> w' = w\<lparr>disk := h\<rparr>)"
  by (auto simp: on_disk_def split: prod.splits)

lemma os_close_handle: "handles (snd (os_close fd h)) fd = None"
  by (simp add: os_close_def Let_def split: option.splits)

lemma os_remove_handles [simp]: "handles (snd (os_remove p h)) = handles h"
  by (auto simp: os_remove_def os_call_def Let_def split: option.splits if_splits)

lemma os_remove_same_handles: "os_remove p h = (r, h') \<Longrightarrow> handles h' = handles h"
  by (metis os_remove_handles snd_conv)

lemma staging_close_handle: "handles (snd (staging_close f h)) (staged_fd f) = None"
proof -
  obtain r h1 where h1: "os_close (staged_fd f) h = (r, h1)" by (metis surj_pair)
  then have "handles h1 (staged_fd f) = None" using os_close_handle [of "staged_fd f" h] by simp
  then show ?thesis using h1
    by (auto simp: staging_close_def split: option.splits prod.splits dest: os_remove_same_handles)
qed

lemma staged_write_net: "staged_write_at fd data off w = (r, w') \<Longrightarrow> net w' = net w"
  by (auto simp: staged_write_at_def on_disk_iff split: option.splits prod.splits)

lemma write_at_whole:
  assumes "staged_whole fd i data w" and "staged_write_at fd d off w = ((n, e), w')"
  shows "if e = None then staged_whole fd i (apply_write data (d, off)) w' else e = Some ErrFailure \<and> staged_spent fd w'"
proof -
  obtain sw where sw: "staged_writers w fd = Some sw" "staged_fd (sw_file sw) = fd" "sw_err sw = None"
      and hd: "handles (disk w) fd = Some (WriteHandle i)" "map_option contents (inodes (disk w) i) = Some data"
    using assms(1) by (auto simp: staged_whole_def)
  obtain e' h where h: "os_write_at fd d off (disk w) = ((n, e'), h)"
    using assms(2) sw by (auto simp: staged_write_at_def on_disk_iff split: option.splits prod.splits)
  have w': "e = (if e' = None then None else Some ErrFailure)"
      "w' = (if e' = None then w\<lparr>disk := h\<rparr>
             else w\<lparr>disk := h, staged_writers := (staged_writers w)(fd \<mapsto> sw\<lparr>sw_err := Some ErrFailure\<rparr>)\<rparr>)"
    using assms(2) sw h by (auto simp: staged_write_at_def on_disk_def split: option.splits)
  show ?thesis
  proof (cases e')
    case None
    then have "handles h fd = Some (WriteHandle i) \<and> map_option contents (inodes h i) = Some (apply_write data (d, off))"
      using h hd by (auto simp: os_write_at_def Let_def apply_write_def put_bytes_def split: if_splits option.splits)
    then show ?thesis using None w' sw by (simp add: staged_whole_def)
  next
    case (Some x)
    then show ?thesis using w' sw by (simp add: staged_spent_def)
  qed
qed

lemma write_at_spent:
  assumes "staged_spent fd w" and "staged_write_at fd d off w = ((n, e), w')"
  shows "staged_spent fd w'"
proof -
  obtain sw where sw: "staged_writers w fd = Some sw" "staged_fd (sw_file sw) = fd"
      "sw_err sw = Some ErrFailure \<or> sw_err sw = None \<and> handles (disk w) fd = None"
    using assms(1) by (auto simp: staged_spent_def)
  show ?thesis
  proof (cases "sw_err sw")
    case (Some x)
    then show ?thesis using assms sw by (auto simp: staged_write_at_def)
  next
    case None
    obtain r h where h: "os_write_at fd d off (disk w) = (r, h)" by (metis surj_pair)
    have "handles h fd = None" using h None sw(3) by (auto simp: os_write_at_def Let_def split: if_splits)
    then show ?thesis using assms(2) sw None h
      by (auto simp: staged_write_at_def staged_spent_def on_disk_def split: option.splits prod.splits)
  qed
qed

lemma abort_spends:
  assumes "staged_writers w fd = Some sw" and "staged_fd (sw_file sw) = fd"
  shows "staged_spent fd (snd (staged_writer_abort fd w))" and "net (snd (staged_writer_abort fd w)) = net w"
  using assms by (simp_all add: staged_writer_abort_def staged_spent_def)

lemma closing_staged_spends:
  assumes "staged_writers w fd = Some sw" and "staged_fd (sw_file sw) = fd" and "sw_err sw = None \<or> sw_err sw = Some ErrFailure"
  shows "staged_spent fd (snd (closing_staged (sw_file sw) (r, w)))"
  using assms staging_close_handle [of "sw_file sw" "disk w"]
  by (auto simp: closing_staged_def staged_spent_def)

lemma os_seek_start_whole:
  assumes "os_seek_start fd h = (Inr u, h')"
  shows "handles h' = handles h" "inodes h' = inodes h" "positions h' fd = 0" "handles h fd \<noteq> None"
  using assms by (auto simp: os_seek_start_def os_call_def Let_def split: option.splits if_splits)

lemma close_whole:
  assumes "staged_whole fd i data w" and "staged_writer_close commit fd w = (r, w')"
  shows "(\<exists>f wc wd. commit f wc = (r, wd) \<and> w' = snd (on_disk (staging_close f) wd) \<and> net wc = net w \<and>
            staged_fd f = fd \<and> staged_writers wc = staged_writers w \<and> staged_contents wc fd = Some data \<and> positions (disk wc) fd = 0) \<or>
         faults (disk w) (calls (disk w)) \<noteq> None \<and> r = Some ErrFailure \<and> net w' = net w \<and> staged_writers w' = staged_writers w"
proof -
  obtain sw where sw: "staged_writers w fd = Some sw" "staged_fd (sw_file sw) = fd" "sw_err sw = None"
      and hd: "handles (disk w) fd = Some (WriteHandle i)" "map_option contents (inodes (disk w) i) = Some data"
    using assms(1) by (auto simp: staged_whole_def)
  obtain s h where h: "os_seek_start fd (disk w) = (s, h)" by (metis surj_pair)
  show ?thesis
  proof (cases s)
    case (Inl e)
    then have "faults (disk w) (calls (disk w)) \<noteq> None"
      using h hd by (auto simp: os_seek_start_def os_call_def Let_def split: option.splits)
    moreover have "r = Some ErrFailure" "net w' = net w" "staged_writers w' = staged_writers w"
      using assms(2) sw h Inl by (auto simp: staged_writer_close_def closing_staged_def on_disk_def split: prod.splits)
    ultimately show ?thesis by simp
  next
    case (Inr u)
    note k = os_seek_start_whole [OF h [unfolded Inr]]
    define wc where "wc = w\<lparr>disk := h\<rparr>"
    obtain r' wd where c: "commit (sw_file sw) wc = (r', wd)" by (metis surj_pair)
    have e: "r = r'" "w' = snd (on_disk (staging_close (sw_file sw)) wd)"
      using assms(2) sw h Inr c by (auto simp: staged_writer_close_def closing_staged_def on_disk_def wc_def split: prod.splits)
    have "net wc = net w" "staged_writers wc = staged_writers w" "positions (disk wc) fd = 0" "staged_contents wc fd = Some data"
      using k hd by (simp_all add: wc_def staged_contents_def)
    then show ?thesis using c e sw(2) by blast
  qed
qed

lemma close_spent:
  assumes "staged_spent fd w" and "staged_writer_close commit fd w = (r, w')"
  shows "r = Some ErrFailure \<and> net w' = net w \<and> staged_spent fd w'"
proof -
  obtain sw where sw: "staged_writers w fd = Some sw" "staged_fd (sw_file sw) = fd"
      "sw_err sw = Some ErrFailure \<or> sw_err sw = None \<and> handles (disk w) fd = None"
    using assms(1) by (auto simp: staged_spent_def)
  show ?thesis
  proof (cases "sw_err sw")
    case (Some x)
    then have "(r, w') = closing_staged (sw_file sw) (Some ErrFailure, w)" using assms(2) sw by (auto simp: staged_writer_close_def)
    then show ?thesis using closing_staged_spends [OF sw(1,2), where r="Some ErrFailure"] sw(3)
      by (auto simp: closing_staged_def)
  next
    case None
    obtain s h where h: "os_seek_start fd (disk w) = (s, h)" by (metis surj_pair)
    have "isl s" using os_seek_start_whole(4) [of fd "disk w" _ h] h sw(3) None by (cases s) auto
    then have e: "(r, w') = closing_staged (sw_file sw) (Some ErrFailure, w\<lparr>disk := h\<rparr>)"
      using assms(2) sw None h by (auto simp: staged_writer_close_def on_disk_def split: sum.splits)
    have "staged_spent fd (snd (closing_staged (sw_file sw) (Some ErrFailure, w\<lparr>disk := h\<rparr>)))"
      by (rule closing_staged_spends) (use sw None in auto)
    then show ?thesis using e by (auto simp: closing_staged_def)
  qed
qed

section \<open>At most once, and whole\<close>

text \<open>What a commit must leave alone: what the writers remember.\<close>

definition leaves_writers :: "('n, 'z) commit \<Rightarrow> bool" where
  "leaves_writers commit \<longleftrightarrow> (\<forall>f w. staged_writers (snd (commit f w)) = staged_writers w)"

lemma staged_spent_undisturbed: "staged_spent fd w \<Longrightarrow> undisturbed fd i w w' \<Longrightarrow> staged_spent fd w'"
  by (simp add: staged_spent_def undisturbed_def)

lemma staged_whole_undisturbed: "staged_whole fd i data w \<Longrightarrow> undisturbed fd i w w' \<Longrightarrow> staged_whole fd i data w'"
  by (simp add: staged_whole_def undisturbed_def)

lemma staged_state_writer:
  "staged_state fd i es w \<Longrightarrow> \<exists>sw. staged_writers w fd = Some sw \<and> staged_fd (sw_file sw) = fd \<and>
     (sw_err sw = None \<or> sw_err sw = Some ErrFailure)"
  by (auto simp: staged_state_def staged_whole_def staged_spent_def split: if_splits)

lemma close_spends:
  assumes "leaves_writers commit" and "staged_state fd i es w"
  shows "staged_spent fd (snd (staged_writer_close commit fd w))"
proof -
  obtain sw where sw: "staged_writers w fd = Some sw" "staged_fd (sw_file sw) = fd"
      "sw_err sw = None \<or> sw_err sw = Some ErrFailure"
    using staged_state_writer [OF assms(2)] by blast
  obtain r w1 where c: "staged_writer_close commit fd w = closing_staged (sw_file sw) (r, w1)" "staged_writers w1 = staged_writers w"
  proof (cases "sw_err sw")
    case (Some e)
    then show ?thesis using that sw by (simp add: staged_writer_close_def)
  next
    case None
    obtain x v where x: "on_disk (os_seek_start fd) w = (x, v)" by (metis surj_pair)
    then have "staged_writers v = staged_writers w" by (auto simp: on_disk_iff)
    moreover have "staged_writers (snd (commit f v)) = staged_writers v" for f using assms(1) by (simp add: leaves_writers_def)
    ultimately show ?thesis using that x sw None
      by (cases x; cases "commit (sw_file sw) v") (auto simp: staged_writer_close_def, metis snd_conv)
  qed
  show ?thesis unfolding c(1) by (rule closing_staged_spends) (use sw c(2) in auto)
qed

lemma staged_history_state:
  assumes "staged_history commit fd i w0 es w" and "leaves_writers commit" and "staged_state fd i [] w0"
  shows "staged_state fd i es w"
  using assms(1)
proof induction
  case made
  show ?case by (rule assms(3))
next
  case (wrote es w data off n e w')
  show ?case
  proof (cases "list_all accepted es")
    case True
    then have "staged_whole fd i (foldl apply_write [] (map written es)) w" using wrote.IH by (simp add: staged_state_def)
    from write_at_whole [OF this wrote.hyps(2)] True show ?thesis by (auto simp: staged_state_def split: if_splits)
  next
    case False
    then have "staged_spent fd w" using wrote.IH by (simp only: staged_state_def if_False)
    from write_at_spent [OF this wrote.hyps(2)] False show ?thesis by (simp add: staged_state_def)
  qed
next
  case (aborted es w)
  obtain sw where "staged_writers w fd = Some sw" "staged_fd (sw_file sw) = fd"
    using staged_state_writer [OF aborted.IH] by blast
  then show ?case using abort_spends(1) by (simp add: staged_state_def)
next
  case (closed es w)
  then show ?case using close_spends [OF assms(2)] by (simp add: staged_state_def)
next
  case (others es w w')
  then show ?case using staged_spent_undisturbed staged_whole_undisturbed by (auto simp: staged_state_def)
qed

text \<open>A writer begins whole and empty.\<close>

lemma os_create_excl_handle:
  assumes "os_create_excl p mode h = (Inr fd, h')"
  shows "\<exists>i. handles h' fd = Some (WriteHandle i) \<and> map_option contents (inodes h' i) = Some []"
  using assms by (auto simp: os_create_excl_def os_call_def Let_def new_handle_def split: option.splits if_splits)

lemma create_temp_loop_handle:
  "create_temp_loop n dir a b h = (Inr (name, fd), h') \<Longrightarrow>
     \<exists>i. handles h' fd = Some (WriteHandle i) \<and> map_option contents (inodes h' i) = Some []"
proof (induction n arbitrary: h)
  case (Suc n)
  then show ?case
    by (auto split: prod.splits sum.splits if_splits dest: os_create_excl_handle)
qed simp

lemma os_remove_same: "os_remove p h = (r, h') \<Longrightarrow> inodes h' = inodes h \<and> handles h' = handles h"
  by (auto simp: os_remove_def os_call_def Let_def split: option.splits if_splits)

lemma new_staging_file_handle:
  "new_staging_file dir pattern h = (Inr f, h') \<Longrightarrow>
     \<exists>i. handles h' (staged_fd f) = Some (WriteHandle i) \<and> map_option contents (inodes h' i) = Some []"
  by (auto simp: new_staging_file_def os_create_temp_def split: prod.splits sum.splits
      dest!: create_temp_loop_handle os_remove_same)

lemma new_staged_writer_whole:
  assumes "new_staged_writer dir commit w = (Inr wr, w0)"
  shows "\<exists>fd i. wr = staged_handle commit fd \<and> staged_state fd i [] w0"
proof -
  obtain f h where f: "new_staging_file dir upload_pattern (disk w) = (Inr f, h)" "wr = staged_handle commit (staged_fd f)"
      "w0 = w\<lparr>disk := h, staged_writers := (staged_writers w)(staged_fd f \<mapsto> \<lparr>sw_file = f, sw_err = None\<rparr>)\<rparr>"
    using assms by (auto simp: new_staged_writer_def on_disk_iff on_disk_def split: prod.splits sum.splits)
  obtain i where "handles h (staged_fd f) = Some (WriteHandle i)" "map_option contents (inodes h i) = Some []"
    using new_staging_file_handle [OF f(1)] by blast
  then have "staged_state (staged_fd f) i [] w0" using f(3) by (simp add: staged_state_def staged_whole_def)
  then show ?thesis using f(2) by blast
qed

text \<open>Handed over: the commit was given the whole file, to be read from its start. Or nothing was.\<close>

definition handed_over :: "('n, 'z) commit \<Rightarrow> nat \<Rightarrow> staged_event list \<Rightarrow> ('n, 'z) remote_scheme \<Rightarrow> verror option \<Rightarrow> ('n, 'z) remote_scheme \<Rightarrow> bool" where
  "handed_over commit fd es w r w' \<longleftrightarrow> list_all accepted es \<and>
     (\<exists>f wc wd. commit f wc = (r, wd) \<and> w' = snd (on_disk (staging_close f) wd) \<and>
        staged_fd f = fd \<and> net wc = net w \<and> positions (disk wc) fd = 0 \<and>
        staged_contents wc fd = Some (foldl apply_write [] (map written es)))"

definition held_back :: "staged_event list \<Rightarrow> ('n, 'z) remote_scheme \<Rightarrow> verror option \<Rightarrow> ('n, 'z) remote_scheme \<Rightarrow> bool" where
  "held_back es w r w' \<longleftrightarrow> r = Some ErrFailure \<and> net w' = net w \<and>
     (\<not> list_all accepted es \<or> faults (disk w) (calls (disk w)) \<noteq> None)"

lemma staged_close_verdict:
  assumes "leaves_writers commit" and "staged_state fd i [] w0"
    and h: "staged_history commit fd i w0 es w" and c: "staged_writer_close commit fd w = (r, w')"
  shows "handed_over commit fd es w r w' \<or> held_back es w r w'"
proof (cases "list_all accepted es")
  case True
  then have "staged_whole fd i (foldl apply_write [] (map written es)) w"
    using staged_history_state [OF h assms(1,2)] by (simp add: staged_state_def)
  from close_whole [OF this c] True show ?thesis unfolding handed_over_def held_back_def by blast
next
  case False
  then have "staged_spent fd w"
    using staged_history_state [OF h assms(1,2)] by (simp only: staged_state_def if_False)
  from close_spent [OF this c] False show ?thesis unfolding held_back_def by blast
qed

text \<open>
  C28. A staged writer hands its contents to the backend at most once, and only if every write
  since it was made was accepted: the bytes of all of them, to be read from the start. After a
  write that failed, an abort or a close, closing it reports a failure and the network is left
  alone, whatever else happens on the disk in between.
\<close>

theorem staged_commits_exactly:
  assumes "new_staged_writer dir commit w = (Inr wr, w0)" and "leaves_writers commit"
  shows "\<exists>fd i. wr = staged_handle commit fd \<and>
    (\<forall>es w1 r w2. staged_history commit fd i w0 es w1 \<longrightarrow> write_close wr w1 = (r, w2) \<longrightarrow>
       handed_over commit fd es w1 r w2 \<or> held_back es w1 r w2)"
proof -
  obtain fd i where fd: "wr = staged_handle commit fd" "staged_state fd i [] w0"
    using new_staged_writer_whole [OF assms(1)] by blast
  have "write_close wr = staged_writer_close commit fd" using fd(1) by (simp add: staged_handle_def)
  then show ?thesis using fd(1) staged_close_verdict [OF assms(2) fd(2)] by metis
qed

text \<open>A disk with room, and a network that keeps what it is given.\<close>

definition sample_disk :: host where
  "sample_disk = \<lparr>names = [([], DirectoryOf 493 0), ([''tmp''], DirectoryOf 511 0)], inodes = Map.empty,
     next_inode = 0, handles = Map.empty, next_handle = 3, positions = (\<lambda>_. 0), calls = 0,
     faults = (\<lambda>_. None), clock = (\<lambda>n. of_nat n), entropy = (\<lambda>n. 7), umask = 18\<rparr>"

definition sample_remote :: "bytes option remote" where
  "sample_remote = \<lparr>disk = sample_disk, net = None, staged_writers = Map.empty\<rparr>"

definition sample_commit :: "(bytes option, unit) commit" where
  "sample_commit f w = (None, w\<lparr>net := staged_contents w (staged_fd f)\<rparr>)"

definition sample_staged :: host where
  "sample_staged = snd (new_staging_file [''tmp''] upload_pattern sample_disk)"

lemma temp_attempts_Suc: "temp_attempts = Suc 9999"
  by (simp add: temp_attempts_def)

lemma create_temp_first:
  "os_create_excl (dir @ [a @ fst (random_number h) @ b]) temp_mode (snd (random_number h)) = (Inr fd, h2) \<Longrightarrow>
   create_temp_loop (Suc n) dir a b h = (Inr (dir @ [a @ fst (random_number h) @ b], fd), h2)"
  by (cases "random_number h") simp

lemma sample_temp:
  "os_create_temp [''tmp''] upload_pattern sample_disk =
     (Inr ([''tmp'', ''upload-7''], 3),
      snd (os_create_excl [''tmp'', ''upload-7''] temp_mode (snd (random_number sample_disk))))"
proof -
  have r: "fst (random_number sample_disk) = ''7''" by code_simp
  have c: "cut_last (CHR ''*'') upload_pattern = (''upload-'', [], True)" by code_simp
  have p: "[''tmp''] @ [''upload-'' @ fst (random_number sample_disk) @ []] = [''tmp'', ''upload-7'']" unfolding r by simp
  have e: "fst (os_create_excl [''tmp'', ''upload-7''] temp_mode (snd (random_number sample_disk))) = Inr 3" by code_simp
  show ?thesis
    unfolding os_create_temp_def c prod.case temp_attempts_Suc
    by (subst create_temp_first) (simp_all only: p e prod_eq_iff fst_conv snd_conv)
qed

lemma sample_new_staging:
  "new_staging_file [''tmp''] upload_pattern sample_disk =
     (Inr \<lparr>staged_fd = 3, staged_name = [''tmp'', ''upload-7''], unlinked = None\<rparr>, sample_staged)"
proof -
  have "fst (os_remove [''tmp'', ''upload-7''] (snd (os_create_excl [''tmp'', ''upload-7''] temp_mode (snd (random_number sample_disk))))) = Inr ()"
    by code_simp
  then show ?thesis using sample_temp
    by (simp add: new_staging_file_def sample_staged_def split_beta)
qed

lemma os_faults:
  "faults (snd (os_create_excl p m h)) = faults h" "faults (snd (os_remove p h)) = faults h"
  "faults (snd (random_number h)) = faults h"
  by (auto simp: os_create_excl_def os_remove_def os_call_def Let_def new_handle_def random_number_def split: option.splits)

lemma sample_staged_faults: "faults sample_staged n = None"
proof -
  have "sample_staged = snd (os_remove [''tmp'', ''upload-7'']
      (snd (os_create_excl [''tmp'', ''upload-7''] temp_mode (snd (random_number sample_disk)))))"
    using sample_temp by (simp add: sample_staged_def new_staging_file_def split: prod.splits sum.splits)
  then have "faults sample_staged = faults sample_disk" by (metis os_faults)
  then show ?thesis by (simp add: sample_disk_def)
qed

lemma sample_leaves_writers: "leaves_writers sample_commit"
  by (simp add: leaves_writers_def sample_commit_def)

lemma staged_commits_exactly_witness:
  "\<exists>wr w0 w2. new_staged_writer [''tmp''] sample_commit sample_remote = (Inr wr, w0) \<and>
     write_close wr w0 = (None, w2) \<and> net w2 = Some []"
proof -
  obtain wr w0 where m: "new_staged_writer [''tmp''] sample_commit sample_remote = (Inr wr, w0)" "disk w0 = sample_staged"
    by (simp add: new_staged_writer_def on_disk_def sample_remote_def sample_new_staging)
  obtain r w2 where c: "write_close wr w0 = (r, w2)" by (metis surj_pair)
  obtain fd i where v: "\<forall>es w1 r w2. staged_history sample_commit fd i w0 es w1 \<longrightarrow> write_close wr w1 = (r, w2) \<longrightarrow>
       handed_over sample_commit fd es w1 r w2 \<or> held_back es w1 r w2"
    using staged_commits_exactly [OF m(1) sample_leaves_writers] by blast
  have "handed_over sample_commit fd [] w0 r w2"
    using v staged_history.made c by (metis held_back_def list.pred_inject(1) m(2) sample_staged_faults)
  then have "r = None \<and> net w2 = Some []"
    by (auto simp: handed_over_def sample_commit_def)
  then show ?thesis using m(1) c by blast
qed

end
