(* ===== verification/Httpfs_Reads.thy ===== *)
theory Httpfs_Reads
  imports Httpfs Staging_Properties
begin

text \<open>
  A file open over HTTP and everything that is done with it at once: pipelined reads, each a
  goroutine of its own, and calls of \<open>Close\<close>. The steps are the code's, cut where another
  goroutine may come between: at each taking of the lock, and around each call that waits for
  the network or the disk.
\<close>

section \<open>Steps\<close>

type_synonym answer = "bytes \<times> io_error option"

datatype phase =
    Asking nat int64
  | Waiting nat nat int64
  | Reading chosen_reader nat int64
  | Classifying nat int64
  | Adopting classified nat int64
  | Serving staging_file nat int64
  | Leaving answer nat int64
  | Lowered "nat option" answer nat int64
  | Finished answer nat int64
  | Closing
  | Releasing chosen_reader
  | Released

record 'n reads =
  rd_world :: "'n http_world"
  phases :: "phase list"

definition advance :: "nat \<Rightarrow> phase \<Rightarrow> 'n http_world \<Rightarrow> 'n reads \<Rightarrow> 'n reads" where
  "advance t p w s = s\<lparr>rd_world := w, phases := (phases s)[t := p]\<rparr>"

definition refused :: answer where "refused = ([], Some (IOErr ErrFailure))"

fun after_next :: "next_step \<Rightarrow> nat \<Rightarrow> int64 \<Rightarrow> phase" where
  "after_next Refuse n off = Finished refused n off"
| "after_next (Through r) n off = Reading r n off"
| "after_next (Wait g) n off = Waiting g n off"
| "after_next Probe n off = Classifying n off"

text \<open>\<open>classify_adopt\<close>, up to the read from the copy.\<close>

definition after_adopt :: "nat \<Rightarrow> classified \<Rightarrow> nat \<Rightarrow> int64 \<Rightarrow> 'n http_world \<Rightarrow> phase \<times> 'n http_world" where
  "after_adopt k a n off w =
     (case a of
        Failed answer \<Rightarrow> (Leaving answer n off, w)
      | Whole f \<Rightarrow>
          (case adopt k (Staged f) w of
             (Inl e, w1) \<Rightarrow> (Leaving ([], Some (IOErr e)) n off, w1) | (Inr _, w1) \<Rightarrow> (Serving f n off, w1))
      | Window c answer \<Rightarrow>
          (case adopt k (Ranged c) w of
             (Inl e, w1) \<Rightarrow> (Leaving ([], Some (IOErr e)) n off, w1) | (Inr _, w1) \<Rightarrow> (Leaving answer n off, w1)))"

text \<open>
  What one goroutine does next, where it can go on by itself: every phase but waiting at a gate
  that is not open yet, and having finished.
\<close>

fun phase_step :: "'n http_fs \<Rightarrow> nat \<Rightarrow> string \<Rightarrow> phase \<Rightarrow> 'n http_world \<Rightarrow> (phase \<times> 'n http_world) option" where
  "phase_step b k url (Asking n off) w =
     (if n = 0 then Some (Finished ([], None) n off, w)
      else (case open_next k w of (s, w1) \<Rightarrow> Some (after_next s n off, w1)))"
| "phase_step b k url (Waiting g n off) w = (if g \<in> closed_gates w then Some (Asking n off, w) else None)"
| "phase_step b k url (Reading r n off) w =
     (case chosen_read_at b url r n off w of (a, w1) \<Rightarrow> Some (Finished a n off, w1))"
| "phase_step b k url (Classifying n off) w =
     (case classify_answer b url n off w of (a, w1) \<Rightarrow> Some (Adopting a n off, w1))"
| "phase_step b k url (Adopting a n off) w = Some (after_adopt k a n off w)"
| "phase_step b k url (Serving f n off) w =
     (case staged_read_at f n off w of (a, w1) \<Rightarrow> Some (Leaving a n off, w1))"
| "phase_step b k url (Leaving a n off) w =
     (case take_gate k w of (g, w1) \<Rightarrow> Some (Lowered g a n off, w1))"
| "phase_step b k url (Lowered g a n off) w = Some (Finished a n off, close_gate g w)"
| "phase_step b k url (Finished a n off) w = None"
| "phase_step b k url Closing w =
     (case close_lock k w of (None, w1) \<Rightarrow> Some (Released, w1) | (Some r, w1) \<Rightarrow> Some (Releasing r, w1))"
| "phase_step b k url (Releasing r) w = Some (Released, snd (chosen_close r w))"
| "phase_step b k url Released w = None"

text \<open>A goroutine at a gate may also find its context cancelled.\<close>

inductive read_step :: "'n http_fs \<Rightarrow> nat \<Rightarrow> string \<Rightarrow> 'n reads \<Rightarrow> 'n reads \<Rightarrow> bool" for b k url where
  goes: "t < length (phases s) \<Longrightarrow> phase_step b k url (phases s ! t) (rd_world s) = Some (p, w) \<Longrightarrow>
    read_step b k url s (advance t p w s)"
| cancelled: "t < length (phases s) \<Longrightarrow> phases s ! t = Waiting g n off \<Longrightarrow>
    read_step b k url s (advance t (Finished refused n off) (rd_world s) s)"

inductive reachable :: "'n http_fs \<Rightarrow> nat \<Rightarrow> string \<Rightarrow> 'n reads \<Rightarrow> 'n reads \<Rightarrow> bool" for b k url s0 where
  start: "reachable b k url s0 s0"
| steps: "reachable b k url s0 s \<Longrightarrow> read_step b k url s s' \<Longrightarrow> reachable b k url s0 s'"

text \<open>One such run: the goroutines in the order given, each going on if it can.\<close>

fun schedule :: "'n http_fs \<Rightarrow> nat \<Rightarrow> string \<Rightarrow> nat list \<Rightarrow> 'n reads \<Rightarrow> 'n reads" where
  "schedule b k url [] s = s"
| "schedule b k url (t # ts) s =
     schedule b k url ts
       (if t < length (phases s) then
          (case phase_step b k url (phases s ! t) (rd_world s) of None \<Rightarrow> s | Some (p, w) \<Rightarrow> advance t p w s)
        else s)"

lemma schedule_reachable: "reachable b k url s0 s \<Longrightarrow> reachable b k url s0 (schedule b k url ts s)"
proof (induction ts arbitrary: s)
  case (Cons t ts)
  have "reachable b k url s0
      (if t < length (phases s) then
         (case phase_step b k url (phases s ! t) (rd_world s) of None \<Rightarrow> s | Some (p, w) \<Rightarrow> advance t p w s)
       else s)"
    using Cons.prems by (auto split: option.splits intro: reachable.steps read_step.goes)
  from Cons.IH [OF this] show ?case by simp
qed simp

text \<open>A handle just opened, reads about to be made and calls of \<open>Close\<close>.\<close>

definition begins :: "phase \<Rightarrow> bool" where
  "begins p \<longleftrightarrow> (case p of Asking n off \<Rightarrow> True | Closing \<Rightarrow> True | _ \<Rightarrow> False)"

definition started :: "'n http_fs \<Rightarrow> node \<Rightarrow> 'n http_world \<Rightarrow> phase list \<Rightarrow> nat \<Rightarrow> 'n reads \<Rightarrow> bool" where
  "started b node w0 ps k s \<longleftrightarrow> k = next_open w0 \<and> list_all begins ps \<and>
     (\<exists>r. http_open b node w0 = (Inr r, rd_world s)) \<and> phases s = ps"

text \<open>A single read over its phases is the read of the handle.\<close>

fun run_phases :: "'n http_fs \<Rightarrow> nat \<Rightarrow> string \<Rightarrow> nat \<Rightarrow> phase \<Rightarrow> 'n http_world \<Rightarrow> phase \<times> 'n http_world" where
  "run_phases b k url 0 p w = (p, w)"
| "run_phases b k url (Suc m) p w =
     (case phase_step b k url p w of None \<Rightarrow> (p, w) | Some (p', w') \<Rightarrow> run_phases b k url m p' w')"

lemma run_phases_finished [simp]: "run_phases b k url m (Finished a n off) w = (Finished a n off, w)"
  by (cases m) simp_all

lemma single_read_phases:
  "(\<And>g. fst (open_next k w) \<noteq> Wait g) \<Longrightarrow>
   run_phases b k url 6 (Asking n off) w =
     (Finished (fst (open_read_at b k url n off w)) n off, snd (open_read_at b k url n off w))"
  by (cases "open_next k w"; cases "fst (open_next k w)")
     (auto simp: open_read_at_def numeral_eq_Suc refused_def probe_def classify_def classify_adopt_def after_adopt_def
       split: prod.splits classified.splits sum.splits)

section \<open>Gates\<close>

text \<open>What an operation leaves alone: every handle and every gate.\<close>

definition same_gates :: "'n http_world \<Rightarrow> 'n http_world \<Rightarrow> bool" where
  "same_gates w w' \<longleftrightarrow> open_files w' = open_files w \<and> closed_gates w' = closed_gates w \<and> next_gate w' = next_gate w"

named_theorems same_gates_rules

lemma same_gates_refl [same_gates_rules, simp]: "same_gates w w"
  by (simp add: same_gates_def)

lemma same_gates_trans: "same_gates u v \<Longrightarrow> same_gates v w \<Longrightarrow> same_gates u w"
  by (simp add: same_gates_def)

lemma on_disk_gates: "on_disk m w = (r, w') \<Longrightarrow> same_gates w w'"
  by (auto simp: on_disk_iff same_gates_def)

lemma on_net_gates: "on_net m w = (r, w') \<Longrightarrow> same_gates w w'"
  by (auto simp: on_net_def same_gates_def split: prod.splits)

lemma fetch_gates: "fetch b url off n w = (r, w') \<Longrightarrow> same_gates w w'"
  by (auto simp: fetch_def dest: on_net_gates split: if_splits prod.splits option.splits)

lemma serve_gates: "serve c response n w = (r, w') \<Longrightarrow> same_gates w w'"
  by (auto simp: serve_def learn_def same_gates_def split: if_splits option.splits)

lemma staged_read_gates: "staged_read_at f n off w = (r, w') \<Longrightarrow> same_gates w w'"
  by (auto simp: staged_read_at_def dest: on_disk_gates split: prod.splits option.splits os_io.splits)

lemma chosen_read_gates: "chosen_read_at b url r n off w = (a, w') \<Longrightarrow> same_gates w w'"
  by (auto simp: chosen_read_at_def ranged_read_at_def dest!: fetch_gates serve_gates staged_read_gates
      intro: same_gates_trans split: if_splits prod.splits sum.splits chosen_reader.splits)

lemma chosen_close_gates: "chosen_close r w = (a, w') \<Longrightarrow> same_gates w w'"
  by (auto simp: chosen_close_def dest: on_disk_gates split: chosen_reader.splits)

lemma stage_gates: "stage b response w = (r, w') \<Longrightarrow> same_gates w w'"
  by (auto simp: stage_def same_gates_def on_disk_def split: prod.splits sum.splits if_splits)

lemma new_range_gates: "new_range_reader w = (c, w') \<Longrightarrow> same_gates w w'"
  by (auto simp: new_range_reader_def same_gates_def)

lemma classify_gates: "classify_answer b url n off w = (a, w') \<Longrightarrow> same_gates w w'"
  by (auto simp: classify_answer_def dest!: fetch_gates stage_gates new_range_gates serve_gates
      intro: same_gates_trans split: if_splits prod.splits sum.splits option.splits io_error.splits)

lemmas gates_kept = staged_read_gates chosen_read_gates chosen_close_gates classify_gates

definition prober :: "phase \<Rightarrow> bool" where
  "prober p \<longleftrightarrow> (case p of Classifying n off \<Rightarrow> True | Adopting a n off \<Rightarrow> True | Serving f n off \<Rightarrow> True
     | Leaving a n off \<Rightarrow> True | _ \<Rightarrow> False)"

lemma prober_simps [simp]:
  "prober (Classifying n off)" "prober (Adopting a n off)" "prober (Serving f n off)" "prober (Leaving ans n off)"
  "\<not> prober (Asking n off)" "\<not> prober (Waiting g n off)" "\<not> prober (Reading r n off)"
  "\<not> prober (Lowered l ans n off)" "\<not> prober (Finished ans n off)" "\<not> prober Closing" "\<not> prober (Releasing r)"
  "\<not> prober Released"
  by (simp_all add: prober_def)

definition probers :: "phase list \<Rightarrow> nat" where
  "probers ps = sum_list (map (\<lambda>p. if prober p then 1 else 0) ps)"

lemma probers_update:
  "t < length ps \<Longrightarrow> probers (ps[t := p]) + (if prober (ps ! t) then 1 else 0) = probers ps + (if prober p then 1 else 0)"
proof -
  assume t: "t < length ps"
  let ?xs = "map (\<lambda>p. if prober p then 1 else 0 :: nat) ps"
  have "?xs ! t \<le> sum_list ?xs" using t by (intro elem_le_sum_list) simp
  then show ?thesis using t sum_list_update [of t ?xs] by (auto simp: probers_def map_update)
qed

lemma prober_counted: "t < length ps \<Longrightarrow> prober (ps ! t) \<Longrightarrow> 0 < probers ps"
  using probers_update [of t ps Released] by (cases "probers ps") auto

lemma prober_exists: "0 < probers ps \<Longrightarrow> \<exists>t < length ps. prober (ps ! t)"
  by (induction ps) (auto simp: probers_def split: if_splits)

text \<open>
  The invariant: a gate stands exactly while one goroutine probes; a gate that is waited at
  stands, or is about to be opened, or is open.
\<close>

definition waits_at :: "phase \<Rightarrow> nat option" where
  "waits_at p = (case p of Waiting g n off \<Rightarrow> Some g | _ \<Rightarrow> None)"

definition lowers :: "phase \<Rightarrow> nat option" where
  "lowers p = (case p of Lowered g a n off \<Rightarrow> g | _ \<Rightarrow> None)"

lemma gate_simps [simp]:
  "waits_at (Waiting g n off) = Some g" "waits_at (Asking n off) = None" "waits_at (Reading r n off) = None"
  "waits_at (Classifying n off) = None" "waits_at (Adopting c n off) = None" "waits_at (Serving f n off) = None"
  "waits_at (Leaving a n off) = None" "waits_at (Lowered l a n off) = None" "waits_at (Finished a n off) = None"
  "waits_at Closing = None" "waits_at (Releasing r) = None" "waits_at Released = None"
  "lowers (Waiting g n off) = None" "lowers (Asking n off) = None" "lowers (Reading r n off) = None"
  "lowers (Classifying n off) = None" "lowers (Adopting c n off) = None" "lowers (Serving f n off) = None"
  "lowers (Leaving a n off) = None" "lowers (Lowered l a n off) = l" "lowers (Finished a n off) = None"
  "lowers Closing = None" "lowers (Releasing r) = None" "lowers Released = None"
  by (simp_all add: waits_at_def lowers_def)

definition awaited :: "nat \<Rightarrow> 'n reads \<Rightarrow> open_file \<Rightarrow> bool" where
  "awaited g s f \<longleftrightarrow> g \<in> closed_gates (rd_world s) \<or> of_probing f = Some g \<or>
     (\<exists>t < length (phases s). lowers (phases s ! t) = Some g)"

definition gates_ok :: "nat \<Rightarrow> 'n reads \<Rightarrow> bool" where
  "gates_ok k s \<longleftrightarrow> (\<exists>f. open_files (rd_world s) k = Some f \<and>
     probers (phases s) = (if of_probing f = None then 0 else 1) \<and>
     (\<forall>g. of_probing f = Some g \<longrightarrow> g < next_gate (rd_world s) \<and> g \<notin> closed_gates (rd_world s)) \<and>
     (\<forall>t g. t < length (phases s) \<longrightarrow> lowers (phases s ! t) = Some g \<longrightarrow>
        g < next_gate (rd_world s) \<and> of_probing f \<noteq> Some g) \<and>
     closed_gates (rd_world s) \<subseteq> {..<next_gate (rd_world s)} \<and>
     (of_closed f \<longrightarrow> of_chosen f = None) \<and>
     (\<forall>t g. t < length (phases s) \<longrightarrow> waits_at (phases s ! t) = Some g \<longrightarrow> awaited g s f))"

lemma gates_okD:
  assumes "gates_ok k s" and "open_files (rd_world s) k = Some f"
  shows "probers (phases s) = (if of_probing f = None then 0 else 1)"
    and "of_probing f = Some g \<Longrightarrow> g < next_gate (rd_world s) \<and> g \<notin> closed_gates (rd_world s)"
    and "t < length (phases s) \<Longrightarrow> lowers (phases s ! t) = Some g \<Longrightarrow> g < next_gate (rd_world s) \<and> of_probing f \<noteq> Some g"
    and "closed_gates (rd_world s) \<subseteq> {..<next_gate (rd_world s)}"
    and "of_closed f \<Longrightarrow> of_chosen f = None"
    and "t < length (phases s) \<Longrightarrow> waits_at (phases s ! t) = Some g \<Longrightarrow> awaited g s f"
  using assms by (auto simp: gates_ok_def)

lemma awaited_update:
  assumes "awaited g s f" and "t < length (phases s)" and "closed_gates (rd_world s) \<subseteq> closed_gates w"
    and "of_probing f = Some g \<Longrightarrow> of_probing f' = Some g \<or> lowers p = Some g"
    and "lowers (phases s ! t) = Some g \<Longrightarrow> lowers p = Some g \<or> g \<in> closed_gates w"
  shows "awaited g (advance t p w s) f'"
proof -
  consider "g \<in> closed_gates (rd_world s)" | "of_probing f = Some g"
    | i where "i < length (phases s)" "lowers (phases s ! i) = Some g"
    using assms(1) unfolding awaited_def by blast
  then show ?thesis
  proof cases
    case 1
    then show ?thesis using assms(3) by (auto simp: awaited_def advance_def)
  next
    case 2
    then show ?thesis using assms(2,4) by (auto simp: awaited_def advance_def)
  next
    case 3
    then show ?thesis using assms(2,5) unfolding awaited_def advance_def
      by (cases "i = t") (auto intro!: exI [of _ i])
  qed
qed

text \<open>Whatever changes the handle, it is enough to look at what the goroutine was and is.\<close>

lemma gates_ok_advance:
  assumes ok: "gates_ok k s" and t: "t < length (phases s)"
    and f: "open_files (rd_world s) k = Some f" and f': "open_files w k = Some f'" "of_closed f' \<Longrightarrow> of_chosen f' = None"
    and n: "probers ((phases s)[t := p]) = (if of_probing f' = None then 0 else 1)"
    and new: "\<And>g. of_probing f' = Some g \<Longrightarrow> g < next_gate w \<and> g \<notin> closed_gates w \<and>
        (\<forall>i < length (phases s). lowers (phases s ! i) \<noteq> Some g) \<and> lowers p \<noteq> Some g"
    and mono: "next_gate (rd_world s) \<le> next_gate w" "closed_gates (rd_world s) \<subseteq> closed_gates w" "closed_gates w \<subseteq> {..<next_gate w}"
    and low: "\<And>g. lowers p = Some g \<Longrightarrow> g < next_gate w"
    and keep: "\<And>g. of_probing f = Some g \<Longrightarrow> of_probing f' = Some g \<or> lowers p = Some g"
      "\<And>g. lowers (phases s ! t) = Some g \<Longrightarrow> lowers p = Some g \<or> g \<in> closed_gates w"
    and wait: "\<And>g. waits_at p = Some g \<Longrightarrow> of_probing f' = Some g"
  shows "gates_ok k (advance t p w s)"
proof -
  note d = gates_okD [OF ok f]
  have low': "g < next_gate w \<and> of_probing f' \<noteq> Some g"
    if "i < length (phases s)" "lowers ((phases s)[t := p] ! i) = Some g" for i g
  proof (cases "i = t")
    case True
    then show ?thesis using that t low new by auto
  next
    case False
    then show ?thesis using that d(3) [of i g] mono(1) new by fastforce
  qed
  have wait': "awaited g (advance t p w s) f'"
    if "i < length (phases s)" "waits_at ((phases s)[t := p] ! i) = Some g" for i g
  proof (cases "i = t")
    case True
    then show ?thesis using that t wait by (simp add: awaited_def)
  next
    case False
    then have "awaited g s f" using that d(6) by simp
    then show ?thesis by (rule awaited_update [OF _ t mono(2) keep])
  qed
  show ?thesis unfolding gates_ok_def
  proof (intro exI conjI)
    show "open_files (rd_world (advance t p w s)) k = Some f'" using f'(1) by (simp add: advance_def)
    show "probers (phases (advance t p w s)) = (if of_probing f' = None then 0 else 1)" using n by (simp add: advance_def)
  qed (use f'(2) new mono(3) low' wait' in \<open>auto simp: advance_def\<close>)
qed

lemma gates_ok_same:
  assumes ok: "gates_ok k s" and t: "t < length (phases s)" and w: "same_gates (rd_world s) w"
    and "prober p = prober (phases s ! t)" and "waits_at p = None" and "lowers p = None" and "lowers (phases s ! t) = None"
  shows "gates_ok k (advance t p w s)"
proof -
  obtain f where f: "open_files (rd_world s) k = Some f" using ok by (auto simp: gates_ok_def)
  note d = gates_okD [OF ok f]
  have n: "probers ((phases s)[t := p]) = probers (phases s)" using probers_update [OF t, of p] assms(4) by (simp split: if_splits)
  show ?thesis
    by (rule gates_ok_advance [OF ok t f, where f' = f]) (use w d f n assms(5,6,7) in \<open>auto simp: same_gates_def\<close>)
qed

text \<open>The steps that change the handle or a gate.\<close>

lemma gates_ok_ask:
  assumes ok: "gates_ok k s" and t: "t < length (phases s)" and p: "phases s ! t = Asking n off"
    and o: "open_next k (rd_world s) = (x, w)"
  shows "gates_ok k (advance t (after_next x n off) w s)"
proof -
  obtain f where f: "open_files (rd_world s) k = Some f" using ok by (auto simp: gates_ok_def)
  note d = gates_okD [OF ok f]
  have u: "probers ((phases s)[t := q]) = probers (phases s) + (if prober q then 1 else 0)" for q
    using probers_update [OF t, of q] p by simp
  consider (same) "w = rd_world s" "x \<noteq> Probe" "\<And>g. x = Wait g \<Longrightarrow> of_probing f = Some g"
    | (fresh) "x = Probe" "of_probing f = None" "of_chosen f = None"
        "w = (rd_world s)\<lparr>open_files := (open_files (rd_world s))(k \<mapsto> f\<lparr>of_probing := Some (next_gate (rd_world s))\<rparr>),
                           next_gate := Suc (next_gate (rd_world s))\<rparr>"
    using o f by (auto simp: open_next_def split: if_splits option.splits)
  then show ?thesis
  proof cases
    case same
    have q: "\<not> prober (after_next x n off)" "lowers (after_next x n off) = None"
        "\<And>g. waits_at (after_next x n off) = Some g \<Longrightarrow> of_probing f = Some g"
      using same(2,3) by (cases x; simp)+
    show ?thesis
      by (rule gates_ok_advance [OF ok t f, where f' = f]) (use same(1) q u d f p in auto)
  next
    case fresh
    show ?thesis
      by (rule gates_ok_advance [OF ok t f, where f' = "f\<lparr>of_probing := Some (next_gate (rd_world s))\<rparr>"])
         (use fresh u d p in \<open>fastforce+\<close>)
  qed
qed

lemma gates_ok_adopt:
  assumes ok: "gates_ok k s" and t: "t < length (phases s)" and p: "phases s ! t = Adopting a n off"
    and o: "after_adopt k a n off (rd_world s) = (q, w)"
  shows "gates_ok k (advance t q w s)"
proof -
  obtain f where f: "open_files (rd_world s) k = Some f" using ok by (auto simp: gates_ok_def)
  note d = gates_okD [OF ok f]
  have q: "prober q" "lowers q = None" "waits_at q = None"
    using o by (auto simp: after_adopt_def split: classified.splits prod.splits sum.splits)
  have u: "probers ((phases s)[t := q]) = probers (phases s)" using probers_update [OF t, of q] p q by simp
  have "\<exists>f'. open_files w k = Some f' \<and> of_probing f' = of_probing f \<and> (of_closed f' \<longrightarrow> of_chosen f' = None) \<and>
      closed_gates w = closed_gates (rd_world s) \<and> next_gate w = next_gate (rd_world s)"
    using o f d(5) by (auto simp: after_adopt_def adopt_def chosen_close_def on_disk_def
        split: classified.splits prod.splits sum.splits if_splits)
  then obtain f' where f': "open_files w k = Some f'" "of_probing f' = of_probing f" "of_closed f' \<longrightarrow> of_chosen f' = None"
      "closed_gates w = closed_gates (rd_world s)" "next_gate w = next_gate (rd_world s)" by blast
  show ?thesis
    by (rule gates_ok_advance [OF ok t f f'(1)]) (use f' q u d p in auto)
qed

lemma gates_ok_leave:
  assumes ok: "gates_ok k s" and t: "t < length (phases s)" and p: "phases s ! t = Leaving a n off"
    and o: "take_gate k (rd_world s) = (g, w)"
  shows "gates_ok k (advance t (Lowered g a n off) w s)"
proof -
  obtain f where f: "open_files (rd_world s) k = Some f" using ok by (auto simp: gates_ok_def)
  note d = gates_okD [OF ok f]
  have w: "g = of_probing f" "w = (rd_world s)\<lparr>open_files := (open_files (rd_world s))(k \<mapsto> f\<lparr>of_probing := None\<rparr>)\<rparr>"
    using o f by (auto simp: take_gate_def)
  have "0 < probers (phases s)" using prober_counted [OF t] p by simp
  then have g: "g \<noteq> None" "probers (phases s) = 1" using d(1) w(1) by (auto split: if_splits)
  have u: "probers ((phases s)[t := Lowered g a n off]) = 0" using probers_update [OF t, of "Lowered g a n off"] p g(2) by simp
  show ?thesis
    by (rule gates_ok_advance [OF ok t f, where f' = "f\<lparr>of_probing := None\<rparr>"]) (use w u d p in auto)
qed

lemma gates_ok_lowered:
  assumes ok: "gates_ok k s" and t: "t < length (phases s)" and p: "phases s ! t = Lowered g a n off"
  shows "gates_ok k (advance t (Finished a n off) (close_gate g (rd_world s)) s)"
proof -
  obtain f where f: "open_files (rd_world s) k = Some f" using ok by (auto simp: gates_ok_def)
  note d = gates_okD [OF ok f]
  have u: "probers ((phases s)[t := Finished a n off]) = probers (phases s)"
    using probers_update [OF t, of "Finished a n off"] p by simp
  have l: "g = Some x \<Longrightarrow> x < next_gate (rd_world s) \<and> of_probing f \<noteq> Some x" for x using d(3) [OF t] p by simp
  have c: "closed_gates (close_gate g (rd_world s)) = closed_gates (rd_world s) \<union> set_option g"
      "open_files (close_gate g (rd_world s)) = open_files (rd_world s)" "next_gate (close_gate g (rd_world s)) = next_gate (rd_world s)"
    by (auto simp: close_gate_def split: option.splits)
  show ?thesis
    by (rule gates_ok_advance [OF ok t f, where f' = f]) (use f c l u d p in \<open>auto simp: elem_set\<close>)
qed

lemma gates_ok_closing:
  assumes ok: "gates_ok k s" and t: "t < length (phases s)" and p: "phases s ! t = Closing"
    and o: "close_lock k (rd_world s) = (r, w)" and q: "q = (case r of None \<Rightarrow> Released | Some x \<Rightarrow> Releasing x)"
  shows "gates_ok k (advance t q w s)"
proof -
  obtain f where f: "open_files (rd_world s) k = Some f" using ok by (auto simp: gates_ok_def)
  note d = gates_okD [OF ok f]
  have w: "w = (rd_world s)\<lparr>open_files := (open_files (rd_world s))(k \<mapsto> f\<lparr>of_chosen := None, of_closed := True\<rparr>)\<rparr>"
    using o f by (auto simp: close_lock_def)
  have q': "\<not> prober q" "lowers q = None" "waits_at q = None" using q by (auto split: option.splits)
  have u: "probers ((phases s)[t := q]) = probers (phases s)" using probers_update [OF t, of q] p q' by simp
  show ?thesis
    by (rule gates_ok_advance [OF ok t f, where f' = "f\<lparr>of_chosen := None, of_closed := True\<rparr>"]) (use w u d p q' in auto)
qed

lemma gates_ok_step:
  assumes "read_step b k url s s'" and ok: "gates_ok k s"
  shows "gates_ok k s'"
  using assms(1)
proof cases
  case (cancelled t g n off)
  show ?thesis unfolding cancelled(1) by (rule gates_ok_same [OF ok cancelled(2)]) (simp_all add: cancelled(3))
next
  case (goes t p w)
  note t = goes(2) and st = goes(3)
  show ?thesis unfolding goes(1)
  proof (cases "phases s ! t")
    case (Asking n off)
    show "gates_ok k (advance t p w s)"
    proof (cases "n = 0")
      case True
      then show ?thesis using st Asking by (intro gates_ok_same [OF ok t]) auto
    next
      case False
      then show ?thesis using st Asking gates_ok_ask [OF ok t Asking] by (auto split: prod.splits)
    qed
  next
    case (Waiting g n off)
    show "gates_ok k (advance t p w s)"
      by (rule gates_ok_same [OF ok t]) (use st Waiting in \<open>auto split: if_splits\<close>)
  next
    case (Reading r n off)
    show "gates_ok k (advance t p w s)"
      by (rule gates_ok_same [OF ok t]) (use st Reading in \<open>auto split: prod.splits dest: gates_kept\<close>)
  next
    case (Classifying n off)
    show "gates_ok k (advance t p w s)"
      by (rule gates_ok_same [OF ok t]) (use st Classifying in \<open>auto split: prod.splits dest: gates_kept\<close>)
  next
    case (Adopting a n off)
    then show "gates_ok k (advance t p w s)" using st by (intro gates_ok_adopt [OF ok t Adopting]) simp
  next
    case (Serving f n off)
    show "gates_ok k (advance t p w s)"
      by (rule gates_ok_same [OF ok t]) (use st Serving in \<open>auto split: prod.splits dest: gates_kept\<close>)
  next
    case (Leaving a n off)
    then show "gates_ok k (advance t p w s)" using st gates_ok_leave [OF ok t Leaving] by (auto split: prod.splits)
  next
    case (Lowered g a n off)
    then show "gates_ok k (advance t p w s)" using st gates_ok_lowered [OF ok t Lowered] by auto
  next
    case Closing
    then show "gates_ok k (advance t p w s)"
      using st by (auto split: prod.splits option.splits intro!: gates_ok_closing [OF ok t Closing])
  next
    case (Releasing r)
    show "gates_ok k (advance t p w s)"
      by (rule gates_ok_same [OF ok t])
         (use st Releasing chosen_close_gates [of r "rd_world s"] in \<open>auto simp: prod_eq_iff\<close>)
  qed (use st in simp_all)
qed

lemma gates_ok_reachable: "reachable b k url s0 s \<Longrightarrow> gates_ok k s0 \<Longrightarrow> gates_ok k s"
  by (induction rule: reachable.induct) (auto intro: gates_ok_step)

lemma gates_ok_started:
  assumes "started b node w0 ps k s" and "closed_gates w0 \<subseteq> {..<next_gate w0}"
  shows "gates_ok k s"
proof -
  have b: "\<not> prober p \<and> waits_at p = None \<and> lowers p = None" if "begins p" for p
    using that by (cases p) (simp_all add: begins_def)
  have all: "\<forall>t < length ps. begins (ps ! t)" using assms(1) by (simp add: started_def list_all_length)
  have "probers ps = 0" using prober_exists [of ps] b all by auto
  have w: "rd_world s = w0\<lparr>open_files := (open_files w0)(k \<mapsto> \<lparr>of_chosen = None, of_probing = None, of_closed = False\<rparr>),
      next_open := Suc k\<rparr>" and ps: "phases s = ps"
    using assms(1) by (auto simp: started_def http_open_def Let_def split: if_splits)
  show ?thesis unfolding gates_ok_def
    by (rule exI [of _ "\<lparr>of_chosen = None, of_probing = None, of_closed = False\<rparr>"])
       (use \<open>probers ps = 0\<close> assms(2) b all w ps in auto)
qed

section \<open>Every call returns\<close>

definition unfinished :: "phase \<Rightarrow> bool" where
  "unfinished p \<longleftrightarrow> (case p of Finished a n off \<Rightarrow> False | Released \<Rightarrow> False | _ \<Rightarrow> True)"

text \<open>How far a goroutine has to go. One at an open gate has its next attempt before it.\<close>

definition to_go :: "nat set \<Rightarrow> phase \<Rightarrow> nat" where
  "to_go opened p = (case p of
     Waiting g n off \<Rightarrow> if g \<in> opened then 9 else 1 | Asking n off \<Rightarrow> 8 | Classifying n off \<Rightarrow> 7 | Adopting a n off \<Rightarrow> 6
   | Serving f n off \<Rightarrow> 5 | Leaving a n off \<Rightarrow> 4 | Lowered g a n off \<Rightarrow> 3 | Reading r n off \<Rightarrow> 2 | Closing \<Rightarrow> 2
   | Releasing r \<Rightarrow> 1 | Finished a n off \<Rightarrow> 0 | Released \<Rightarrow> 0)"

definition left_over :: "'n reads \<Rightarrow> nat" where
  "left_over s = sum_list (map (\<lambda>p. if unfinished p then 1 else 0) (phases s))"

definition total_to_go :: "'n reads \<Rightarrow> nat" where
  "total_to_go s = sum_list (map (to_go (closed_gates (rd_world s))) (phases s))"

lemma sum_list_less:
  fixes f :: "'a \<Rightarrow> nat"
  assumes "t < length xs" and "f x < f (xs ! t)"
  shows "sum_list (map f (xs[t := x])) < sum_list (map f xs)"
proof -
  have "f (xs ! t) \<le> sum_list (map f xs)" using assms(1) elem_le_sum_list [of t "map f xs"] by simp
  then show ?thesis using sum_list_update [of t "map f xs" "f x"] assms by (simp add: map_update)
qed

lemma sum_list_same:
  fixes f :: "'a \<Rightarrow> nat"
  shows "t < length xs \<Longrightarrow> f x = f (xs ! t) \<Longrightarrow> sum_list (map f (xs[t := x])) = sum_list (map f xs)"
  by (metis list_update_id map_update)

text \<open>A goroutine that goes on has less to go, or opens a gate and is done.\<close>

lemma phase_step_closer:
  assumes "phase_step b k url p w = Some (q, w')" and "open_files w k = Some f"
    and standing: "\<And>g. of_probing f = Some g \<Longrightarrow> g \<notin> closed_gates w"
  shows "unfinished p \<and> (\<not> unfinished q \<or> closed_gates w' = closed_gates w \<and> to_go (closed_gates w) q < to_go (closed_gates w) p)"
proof -
  have gates: "same_gates w v \<Longrightarrow> closed_gates v = closed_gates w" for v by (simp add: same_gates_def)
  show ?thesis
  proof (cases p)
    case (Asking n off)
    then show ?thesis using assms
      by (auto simp: unfinished_def to_go_def open_next_def split: if_splits option.splits)
  next
    case (Reading r n off)
    then show ?thesis using assms(1) by (auto simp: unfinished_def split: prod.splits)
  next
    case (Classifying n off)
    then show ?thesis using assms(1)
      by (auto simp: unfinished_def to_go_def split: prod.splits dest!: classify_gates gates)
  next
    case (Serving g n off)
    then show ?thesis using assms(1)
      by (auto simp: unfinished_def to_go_def split: prod.splits dest!: staged_read_gates gates)
  next
    case (Adopting a n off)
    then show ?thesis using assms(1)
      by (auto simp: unfinished_def to_go_def after_adopt_def adopt_def chosen_close_def on_disk_def
          split: classified.splits prod.splits sum.splits if_splits option.splits)
  next
    case (Leaving a n off)
    then show ?thesis using assms(1)
      by (auto simp: unfinished_def to_go_def take_gate_def split: prod.splits option.splits)
  next
    case Closing
    then show ?thesis using assms(1)
      by (auto simp: unfinished_def to_go_def close_lock_def split: prod.splits option.splits)
  qed (use assms(1) in \<open>auto simp: unfinished_def to_go_def split: if_splits\<close>)
qed

lemma read_step_closer:
  assumes "read_step b k url s s'" and "gates_ok k s"
  shows "(s', s) \<in> measures [left_over, total_to_go]"
proof -
  obtain f where f: "open_files (rd_world s) k = Some f" using assms(2) by (auto simp: gates_ok_def)
  show ?thesis using assms(1)
  proof cases
    case (cancelled t g n off)
    have "left_over s' < left_over s" unfolding left_over_def cancelled(1) advance_def
      by (simp, rule sum_list_less [OF cancelled(2)]) (simp add: unfinished_def cancelled(3))
    then show ?thesis by simp
  next
    case (goes t p w)
    note c = phase_step_closer [OF goes(3) f gates_okD(2) [OF assms(2) f, THEN conjunct2]]
    show ?thesis
    proof (cases "unfinished p")
      case False
      have "left_over s' < left_over s" unfolding left_over_def goes(1) advance_def
        by (simp, rule sum_list_less [OF goes(2)]) (use c False in simp)
      then show ?thesis by simp
    next
      case True
      have "left_over s' = left_over s" unfolding left_over_def goes(1) advance_def
        by (simp, rule sum_list_same [OF goes(2)]) (use c True in simp)
      moreover have "total_to_go s' < total_to_go s" unfolding total_to_go_def goes(1) advance_def
        using c True by simp (rule sum_list_less [OF goes(2)], simp)
      ultimately show ?thesis by simp
    qed
  qed
qed

lemma no_endless_run:
  assumes "\<And>i. read_step b k url (run i) (run (Suc i))" and "gates_ok k (run 0)"
  shows False
proof -
  have "gates_ok k (run i)" for i by (induction i) (use assms gates_ok_step in blast)+
  then have "(run (Suc i), run i) \<in> measures [left_over, total_to_go]" for i using assms(1) read_step_closer by blast
  moreover have "wf (measures [left_over, total_to_go :: 'n reads \<Rightarrow> nat])" by simp
  ultimately show False unfolding wf_iff_no_infinite_down_chain by blast
qed

lemma someone_goes_on:
  assumes ok: "gates_ok k s" and t: "t < length (phases s)" and u: "unfinished (phases s ! t)"
  shows "\<exists>i < length (phases s). phase_step b k url (phases s ! i) (rd_world s) \<noteq> None"
proof -
  obtain f where f: "open_files (rd_world s) k = Some f" using ok by (auto simp: gates_ok_def)
  have prober_goes: "phase_step b k url p w \<noteq> None" if "prober p" for p w
    using that by (cases p) (auto simp: prober_def split: prod.splits)
  show ?thesis
  proof (cases "\<exists>g n off. phases s ! t = Waiting g n off \<and> g \<notin> closed_gates (rd_world s)")
    case False
    then have "phase_step b k url (phases s ! t) (rd_world s) \<noteq> None"
      using u by (cases "phases s ! t") (auto simp: unfinished_def split: prod.splits option.splits)
    then show ?thesis using t by blast
  next
    case True
    then obtain g where g: "waits_at (phases s ! t) = Some g" "g \<notin> closed_gates (rd_world s)" by auto
    then consider "of_probing f = Some g" | i where "i < length (phases s)" "lowers (phases s ! i) = Some g"
      using gates_okD(6) [OF ok f t g(1)] by (auto simp: awaited_def)
    then show ?thesis
    proof cases
      case 1
      then have "0 < probers (phases s)" using gates_okD(1) [OF ok f] by simp
      then show ?thesis using prober_exists prober_goes by blast
    next
      case (2 i)
      then have "phase_step b k url (phases s ! i) (rd_world s) \<noteq> None"
        by (cases "phases s ! i") (simp_all add: lowers_def)
      then show ?thesis using 2(1) by blast
    qed
  qed
qed

text \<open>
  C30. No read of a file open over HTTP waits for ever: as long as a call has not returned,
  some goroutine can go on by itself, the one asking the backend or the one opening the gate
  if need be, and there is no endless run.
\<close>

theorem http_reads_finish:
  assumes "started b node w0 ps k s0" and "closed_gates w0 \<subseteq> {..<next_gate w0}"
  shows "(\<forall>s. reachable b k (entry_backend node) s0 s \<longrightarrow> (\<exists>t < length (phases s). unfinished (phases s ! t)) \<longrightarrow>
            (\<exists>t < length (phases s). phase_step b k (entry_backend node) (phases s ! t) (rd_world s) \<noteq> None)) \<and>
         \<not> (\<exists>run. run 0 = s0 \<and> (\<forall>i. read_step b k (entry_backend node) (run i) (run (Suc i))))"
proof -
  note ok = gates_ok_started [OF assms]
  show ?thesis
    using someone_goes_on gates_ok_reachable [OF _ ok] no_endless_run ok by metis
qed

end
