(* ===== verification/Httpfs_Exact.thy ===== *)
theory Httpfs_Exact
  imports Httpfs_Reads
begin

text \<open>
  What the reads of one open file are answered with, and what they leave behind: whatever the
  interleaving, each answer is what the file holds at that place, and once every call has
  returned and the handle is closed, no staged copy is left open.
\<close>

section \<open>The disk\<close>

text \<open>
  What every step does to the disk, as seen from a copy made earlier: descriptors and files are
  only added, or closed; no file that was there is written to.
\<close>

definition disk_grows :: "host \<Rightarrow> host \<Rightarrow> bool" where
  "disk_grows h h' \<longleftrightarrow> next_handle h \<le> next_handle h' \<and> next_inode h \<le> next_inode h' \<and>
     (\<forall>fd < next_handle h. handles h' fd = handles h fd \<or> handles h' fd = None) \<and>
     (\<forall>i < next_inode h. map_option contents (inodes h' i) = map_option contents (inodes h i))"

definition tidy_disk :: "host \<Rightarrow> bool" where
  "tidy_disk h \<longleftrightarrow> (\<forall>fd. handles h fd \<noteq> None \<longrightarrow> fd < next_handle h)"

text \<open>The same descriptors, files and counters.\<close>

definition same_files :: "host \<Rightarrow> host \<Rightarrow> bool" where
  "same_files h h' \<longleftrightarrow> handles h' = handles h \<and> next_handle h' = next_handle h \<and>
     inodes h' = inodes h \<and> next_inode h' = next_inode h"

lemma same_files_grows: "same_files h h' \<Longrightarrow> disk_grows h h'"
  by (simp add: same_files_def disk_grows_def)

lemma disk_grows_refl [simp]: "disk_grows h h"
  by (simp add: disk_grows_def)

lemma disk_grows_trans: "disk_grows a b \<Longrightarrow> disk_grows b c \<Longrightarrow> disk_grows a c"
  unfolding disk_grows_def by (metis order.strict_trans2 order_trans)

lemma os_remove_files: "os_remove p h = (r, h') \<Longrightarrow> same_files h h'"
  by (auto simp: os_remove_def os_call_def Let_def same_files_def split: option.splits if_splits)

lemma os_read_files: "os_read_at fd n off h = (r, h') \<Longrightarrow> same_files h h'"
  by (auto simp: os_read_at_def Let_def same_files_def split: option.splits if_splits)

lemma random_number_files: "random_number h = (r, h') \<Longrightarrow> same_files h h'"
  by (auto simp: random_number_def same_files_def)

lemma os_close_files:
  "os_close fd h = (r, h') \<Longrightarrow> handles h' = (handles h)(fd := None) \<and> next_handle h' = next_handle h \<and>
     inodes h' = inodes h \<and> next_inode h' = next_inode h"
  by (auto simp: os_close_def Let_def split: option.splits)

lemma staging_close_files:
  "staging_close f h = (r, h') \<Longrightarrow> handles h' = (handles h)(staged_fd f := None) \<and> next_handle h' = next_handle h \<and>
     inodes h' = inodes h \<and> next_inode h' = next_inode h"
  by (auto simp: staging_close_def same_files_def split: prod.splits option.splits dest!: os_close_files os_remove_files)

lemma staging_close_grows: "staging_close f h = (r, h') \<Longrightarrow> disk_grows h h'"
  using staging_close_files [of f h r h'] by (auto simp: disk_grows_def)

text \<open>A file created is new, and so is its descriptor.\<close>

definition made_file :: "host \<Rightarrow> nat \<Rightarrow> host \<Rightarrow> bool" where
  "made_file h fd h' \<longleftrightarrow> fd = next_handle h \<and> handles h' = (handles h)(fd \<mapsto> WriteHandle (next_inode h)) \<and>
     next_handle h' = Suc fd \<and> next_inode h' = Suc (next_inode h) \<and>
     (\<forall>i. i \<noteq> next_inode h \<longrightarrow> inodes h' i = inodes h i) \<and> positions h' fd = 0 \<and>
     map_option contents (inodes h' (next_inode h)) = Some []"

lemma made_file_same: "same_files a b \<Longrightarrow> made_file b fd c \<Longrightarrow> made_file a fd c"
  by (auto simp: same_files_def made_file_def)

lemma create_temp_loop_makes:
  "create_temp_loop n dir a b h = (r, h') \<Longrightarrow>
     (case r of Inl e \<Rightarrow> same_files h h' | Inr (name, fd) \<Rightarrow> made_file h fd h')"
proof (induction n arbitrary: h)
  case 0
  then show ?case by (auto simp: same_files_def)
next
  case (Suc n)
  obtain digits h1 where h1: "random_number h = (digits, h1)" by (metis surj_pair)
  obtain c h2 where h2: "os_create_excl (dir @ [a @ digits @ b]) temp_mode h1 = (c, h2)" by (metis surj_pair)
  have s1: "same_files h h1" by (rule random_number_files [OF h1])
  show ?case
  proof (cases c)
    case (Inr fd)
    then have "made_file h1 fd h2" using h2
      by (auto simp: made_file_def os_create_excl_def os_call_def Let_def new_handle_def split: option.splits if_splits)
    then show ?thesis using Suc.prems h1 h2 Inr made_file_same [OF s1] by auto
  next
    case (Inl e)
    then have s2: "same_files h1 h2" using h2
      by (auto simp: same_files_def os_create_excl_def os_call_def Let_def split: option.splits if_splits prod.splits)
    then have s: "same_files h h2" using s1 by (simp add: same_files_def)
    show ?thesis
    proof (cases "e = Exist")
      case True
      then have "create_temp_loop n dir a b h2 = (r, h')" using Suc.prems h1 h2 Inl by simp
      from Suc.IH [OF this] show ?thesis using s made_file_same [OF s]
        by (auto simp: same_files_def split: sum.splits)
    next
      case False
      then show ?thesis using Suc.prems h1 h2 Inl s by auto
    qed
  qed
qed

lemma new_staging_file_makes:
  "new_staging_file dir pattern h = (r, h') \<Longrightarrow>
     (case r of Inl e \<Rightarrow> same_files h h' | Inr f \<Rightarrow> made_file h (staged_fd f) h')"
proof -
  assume n: "new_staging_file dir pattern h = (r, h')"
  obtain c h1 where h1: "os_create_temp dir pattern h = (c, h1)" by (metis surj_pair)
  obtain pre suf where "create_temp_loop temp_attempts dir pre suf h = (c, h1)"
    using h1 by (auto simp: os_create_temp_def split: prod.splits)
  note t = create_temp_loop_makes [OF this]
  have m: "made_file h fd h1 \<Longrightarrow> os_remove p h1 = (x, h2) \<Longrightarrow> made_file h fd h2" for fd p x h2
    by (auto simp: made_file_def os_remove_def os_call_def Let_def split: option.splits if_splits)
  show ?thesis using n h1 t m by (auto simp: new_staging_file_def split: sum.splits prod.splits)
qed

text \<open>Copying a stream into a file just made.\<close>

lemma os_copy_makes:
  assumes "made_file h fd h1" and "os_copy fd data breaks h1 = ((n, ok), h2)"
  shows "handles h2 = handles h1 \<and> next_handle h2 = next_handle h1 \<and> next_inode h2 = next_inode h1 \<and>
    (\<forall>i. i \<noteq> next_inode h \<longrightarrow> inodes h2 i = inodes h1 i) \<and>
    (ok \<longrightarrow> \<not> breaks \<and> map_option contents (inodes h2 (next_inode h)) = Some data)"
proof -
  obtain fl where fl: "inodes h1 (next_inode h) = Some fl" "contents fl = []"
    using assms(1) by (auto simp: made_file_def)
  have p: "positions h1 fd = 0" "handles h1 fd = Some (WriteHandle (next_inode h))" using assms(1) by (auto simp: made_file_def)
  have o: "overwrite [] 0 data = data" by (simp add: overwrite_def)
  show ?thesis using assms(2) fl p o
    by (auto simp: os_copy_def os_write_at_def put_bytes_def Let_def split: if_splits option.splits prod.splits)
qed

section \<open>Honest backends\<close>

text \<open>
  A backend that serves a file \<open>D\<close> as RFC 9110 says: a range as a range, stating the complete
  length or leaving it out; a range past the end as one that cannot be satisfied; or the whole
  file. A body may break off with an error, and where \<open>short\<close> allows it the body of a range may be
  cut short of its length. Any other status, and no answer at all, are allowed at any time.
\<close>

definition window :: "bytes \<Rightarrow> nat \<Rightarrow> int64 \<Rightarrow> bytes" where
  "window D n off = take n (drop (nat (sint off)) D)"

definition states_total :: "bytes \<Rightarrow> string \<Rightarrow> bool" where
  "states_total D h \<longleftrightarrow> h = [] \<or>
     (\<exists>r. CHR ''/'' \<notin> set r \<and> (h = ''bytes '' @ r @ ''/*'' \<or> h = ''bytes '' @ r @ ''/'' @ show_int (int (length D))))"

definition honest_response :: "bool \<Rightarrow> bytes \<Rightarrow> nat \<Rightarrow> int64 \<Rightarrow> web_response \<Rightarrow> bool" where
  "honest_response short D n off response \<longleftrightarrow>
     (ws_status response = 206 \<longrightarrow> 0 \<le> sint off \<and> prefix (ws_body response) (window D n off) \<and>
        (ws_end response = Complete \<longrightarrow> ws_body response = window D n off) \<and> (ws_end response = CutShort \<longrightarrow> short) \<and>
        states_total D (header_get ''Content-Range'' (ws_headers response))) \<and>
     (ws_status response = 416 \<longrightarrow> int (length D) \<le> sint off \<and>
        states_total D (header_get ''Content-Range'' (ws_headers response))) \<and>
     (ws_status response = 200 \<longrightarrow> prefix (ws_body response) D \<and> (ws_end response = Complete \<longrightarrow> ws_body response = D))"

definition honest_web :: "bool \<Rightarrow> 'n http_fs \<Rightarrow> string \<Rightarrow> bytes \<Rightarrow> bool" where
  "honest_web short b url D \<longleftrightarrow> (\<forall>off n w response w'. 0 < n \<longrightarrow>
     web_do (hf_web b) (range_request b url off n) w = (Some response, w') \<longrightarrow> honest_response short D n off response)"

text \<open>
  A right answer to a read of \<open>n\<close> bytes: these, or the rest and the end, or part of it and an
  error. Where bodies may be cut short, part of it and the end as well.
\<close>

definition right_answer :: "bool \<Rightarrow> bytes \<Rightarrow> nat \<Rightarrow> int64 \<Rightarrow> answer \<Rightarrow> bool" where
  "right_answer short D n off a \<longleftrightarrow> (case a of (data, e) \<Rightarrow>
     (data \<noteq> [] \<longrightarrow> 0 \<le> sint off) \<and> prefix data (window D n off) \<and>
     (e = None \<longrightarrow> length data = n) \<and> (e = Some EOF \<longrightarrow> 0 \<le> sint off \<and> length data < n \<and> (short \<or> data = window D n off)))"

lemma right_refused [simp]: "right_answer short D n off ([], Some (IOErr e))"
  by (simp add: right_answer_def)

lemma right_nothing [simp]: "right_answer short D 0 off ([], None)"
  by (simp add: right_answer_def)

section \<open>The length a header states\<close>

definition bare :: "char \<Rightarrow> bool" where
  "bare c \<longleftrightarrow> 33 \<le> ord c \<and> ord c < 127"

lemma bare_decode: "bare a \<Longrightarrow> decode_rune (a # s) = (ord a, s) \<and> \<not> space_rune (ord a)"
  by (auto simp: bare_def space_rune_def)

lemma trim_bare: "list_all bare s \<Longrightarrow> trim_space s = s"
proof -
  have "trim_left_space s = s" if "list_all bare s"
    using that bare_decode by (cases s) auto
  moreover have "trim_right_space s = s" if "list_all bare s"
    using that
  proof (induction s)
    case (Cons a s)
    then show ?case using bare_decode [of a s] by simp
  qed simp
  ultimately show "list_all bare s \<Longrightarrow> trim_space s = s" by (simp add: trim_space_def)
qed

lemma bare_number: "list_all bare (show_int (int m))"
proof -
  have "is_digit c \<Longrightarrow> bare c" for c by (simp add: is_digit_def bare_def)
  moreover have "list_all is_digit (show_int (int m))" by (simp add: show_int_def digits_in_digits)
  ultimately show ?thesis by (auto simp: list_all_iff)
qed

lemma content_range_stated:
  assumes "states_total D h" and "int (length D) < 9223372036854775808"
  shows "content_range_total h \<in> {size_unknown, word_of_nat (length D)}"
proof (cases "h = []")
  case True
  then show ?thesis by (simp add: content_range_total_def cut_def)
next
  case False
  then obtain r t where r: "CHR ''/'' \<notin> set r" "h = ''bytes '' @ r @ ''/'' @ t" "t = ''*'' \<or> t = show_int (int (length D))"
    using assms(1) by (auto simp: states_total_def)
  have c1: "cut (CHR '' '') h = (''bytes'', r @ ''/'' @ t, True)"
    using cut_append [of "CHR '' ''" "''bytes''" "r @ ''/'' @ t"] r(2) by simp
  have c2: "cut (CHR ''/'') (r @ ''/'' @ t) = (r, t, True)"
    using cut_append [OF r(1), of t] by simp
  have b: "trim_space ''bytes'' = ''bytes''" "equal_fold ''bytes'' ''bytes''"
    by (rule trim_bare) (simp_all add: bare_def equal_fold_def)
  have "trim_space t = t" using r(3) bare_number by (auto intro!: trim_bare simp: bare_def)
  then have v: "content_range_total h = (case parse_int t of None \<Rightarrow> size_unknown
      | Some n \<Rightarrow> if n < 0 then size_unknown else word_of_int n)"
    unfolding content_range_total_def c1 prod.case c2 b(1) using b(2) by simp
  show ?thesis
  proof (cases "t = ''*''")
    case True
    have "parse_int ''*'' = None" by code_simp
    then show ?thesis using v True by simp
  next
    case False
    then have "parse_int t = Some (int (length D))"
      using r(3) parse_show_int assms(2) by (simp add: in_int64_def)
    then show ?thesis using v by simp
  qed
qed

section \<open>Every answer is right\<close>

definition good_copy :: "bytes \<Rightarrow> nat \<Rightarrow> host \<Rightarrow> bool" where
  "good_copy D fd h \<longleftrightarrow> fd < next_handle h \<and> (handles h fd = None \<or>
     (\<exists>i < next_inode h. handles h fd = Some (WriteHandle i) \<and> map_option contents (inodes h i) = Some D))"

definition world_grows :: "'n http_world \<Rightarrow> 'n http_world \<Rightarrow> bool" where
  "world_grows w w' \<longleftrightarrow> disk_grows (disk w) (disk w') \<and> next_range w \<le> next_range w'"

definition sizes_ok :: "bytes \<Rightarrow> nat \<Rightarrow> 'n http_world \<Rightarrow> bool" where
  "sizes_ok D c0 w \<longleftrightarrow> c0 \<le> next_range w \<and>
     (\<forall>c. c0 \<le> c \<and> c < next_range w \<longrightarrow> range_sizes w c \<in> {size_unknown, word_of_nat (length D)})"

definition reader_ok :: "bytes \<Rightarrow> nat \<Rightarrow> 'n http_world \<Rightarrow> chosen_reader \<Rightarrow> bool" where
  "reader_ok D c0 w r \<longleftrightarrow> (case r of Ranged c \<Rightarrow> c0 \<le> c \<and> c < next_range w | Staged f \<Rightarrow> good_copy D (staged_fd f) (disk w))"

definition phase_ok :: "bool \<Rightarrow> bytes \<Rightarrow> nat \<Rightarrow> 'n http_world \<Rightarrow> phase \<Rightarrow> bool" where
  "phase_ok short D c0 w p \<longleftrightarrow> (case p of
     Reading r n off \<Rightarrow> 0 < n \<and> reader_ok D c0 w r
   | Waiting g n off \<Rightarrow> 0 < n
   | Classifying n off \<Rightarrow> 0 < n
   | Adopting a n off \<Rightarrow> 0 < n \<and> (case a of Failed ans \<Rightarrow> right_answer short D n off ans | Whole f \<Rightarrow> reader_ok D c0 w (Staged f)
       | Window c ans \<Rightarrow> reader_ok D c0 w (Ranged c) \<and> right_answer short D n off ans)
   | Serving f n off \<Rightarrow> 0 < n \<and> reader_ok D c0 w (Staged f)
   | Leaving ans n off \<Rightarrow> right_answer short D n off ans
   | Lowered g ans n off \<Rightarrow> right_answer short D n off ans
   | Finished ans n off \<Rightarrow> right_answer short D n off ans
   | _ \<Rightarrow> True)"

lemma good_copy_grows:
  assumes "good_copy D fd h" and "disk_grows h h'"
  shows "good_copy D fd h'"
proof -
  have fd: "fd < next_handle h" "next_handle h \<le> next_handle h'" using assms by (auto simp: good_copy_def disk_grows_def)
  consider "handles h' fd = None" | "handles h' fd = handles h fd" "handles h fd \<noteq> None"
    using assms(2) fd(1) unfolding disk_grows_def by metis
  then show ?thesis
  proof cases
    case 1
    then show ?thesis using fd by (simp add: good_copy_def)
  next
    case 2
    then obtain i where "i < next_inode h" "handles h fd = Some (WriteHandle i)" "map_option contents (inodes h i) = Some D"
      using assms(1) by (auto simp: good_copy_def)
    moreover from this have "i < next_inode h'" "map_option contents (inodes h' i) = Some D"
      using assms(2) by (simp_all add: disk_grows_def)
    ultimately show ?thesis using 2(1) fd by (auto simp: good_copy_def)
  qed
qed

lemma world_grows_refl [simp]: "world_grows w w"
  by (simp add: world_grows_def)

lemma world_grows_trans: "world_grows u v \<Longrightarrow> world_grows v w \<Longrightarrow> world_grows u w"
  by (auto simp: world_grows_def intro: disk_grows_trans)

lemma reader_ok_grows: "reader_ok D c0 w r \<Longrightarrow> world_grows w w' \<Longrightarrow> reader_ok D c0 w' r"
  by (auto simp: reader_ok_def world_grows_def intro: good_copy_grows split: chosen_reader.splits)

lemma phase_ok_grows: "phase_ok short D c0 w p \<Longrightarrow> world_grows w w' \<Longrightarrow> phase_ok short D c0 w' p"
  by (cases p) (auto simp: phase_ok_def intro: reader_ok_grows split: classified.splits)

text \<open>What the operations do, on sizes, files and answers.\<close>

lemma fetch_same: "fetch b url off n w = (r, w') \<Longrightarrow> disk w' = disk w \<and> next_range w' = next_range w \<and> range_sizes w' = range_sizes w"
  by (auto simp: fetch_def on_net_def split: if_splits prod.splits option.splits)

lemma fetch_honest: "fetch b url off n w = (Inr response, w') \<Longrightarrow> honest_web short b url D \<Longrightarrow> 0 < n \<Longrightarrow> honest_response short D n off response"
proof -
  assume "fetch b url off n w = (Inr response, w')" and h: "honest_web short b url D" "0 < n"
  then obtain u v where "web_do (hf_web b) (range_request b url off n) u = (Some response, v)"
    by (auto simp: fetch_def on_net_def split: if_splits prod.splits option.splits)
  then show ?thesis using h unfolding honest_web_def by blast
qed

lemma read_full_right:
  assumes "honest_response short D n off response" and "ws_status response = 206"
  shows "right_answer short D n off (read_full_body response n)"
proof -
  have h: "0 \<le> sint off" "prefix (ws_body response) (window D n off)" "ws_end response = Complete \<longrightarrow> ws_body response = window D n off"
      "ws_end response = CutShort \<longrightarrow> short"
    using assms by (auto simp: honest_response_def)
  have "length (window D n off) \<le> n" by (simp add: window_def)
  moreover have "length (ws_body response) \<le> length (window D n off)" using h(2) by (rule prefix_length_le)
  ultimately show ?thesis using h
    by (cases "ws_end response") (auto simp: right_answer_def read_full_body_def)
qed

lemma serve_right:
  assumes "honest_response short D n off response" and "0 < n" and "sizes_ok D c0 w" and "c0 \<le> c" and "c < next_range w"
    and "int (length D) < 9223372036854775808" and "serve c response n w = (a, w')"
  shows "right_answer short D n off a \<and> sizes_ok D c0 w' \<and> world_grows w w' \<and> next_range w' = next_range w"
proof -
  have l: "sizes_ok D c0 (learn c response w)"
    if "states_total D (header_get ''Content-Range'' (ws_headers response))"
    using assms(3) content_range_stated [OF that assms(6)] by (auto simp: sizes_ok_def learn_def)
  have g: "world_grows w (learn c response w) \<and> next_range (learn c response w) = next_range w"
    by (simp add: learn_def world_grows_def)
  have e: "right_answer short D n off ([], Some EOF)" if "int (length D) \<le> sint off"
    using that assms(2) by (auto simp: right_answer_def window_def)
  show ?thesis using assms(1,3,7) l g e read_full_right [OF assms(1)]
    by (auto simp: serve_def honest_response_def split: if_splits option.splits)
qed

lemma sint_of_length:
  assumes "int m < 9223372036854775808"
  shows "sint (word_of_nat m :: int64) = int m"
proof -
  have "sint (word_of_int (int m) :: int64) = signed_take_bit 63 (int m)"
    using sint_sbintrunc' [where 'a = 64, of "int m"] by (simp del: of_int_of_nat_eq)
  also have "\<dots> = int m" using assms by (intro signed_take_bit_int_eq_self) simp_all
  finally show ?thesis by simp
qed

lemma prefix_take_min: "prefix (take (min k n) xs) (take n xs)"
  by (metis take_is_prefix take_take)

lemma ranged_read_right:
  assumes "honest_web short b url D" and "0 < n" and "sizes_ok D c0 w" and "c0 \<le> c" and "c < next_range w"
    and "int (length D) < 9223372036854775808" and "ranged_read_at b url c n off w = (a, w')"
  shows "right_answer short D n off a \<and> sizes_ok D c0 w' \<and> world_grows w w'"
proof (cases "range_sizes w c \<noteq> size_unknown \<and> sint (range_sizes w c) \<le> sint off")
  case True
  then have "range_sizes w c = word_of_nat (length D)" using assms(3,4,5) by (auto simp: sizes_ok_def)
  moreover have "sint (word_of_nat (length D) :: int64) = int (length D)"
    using assms(6) by (rule sint_of_length)
  ultimately have "right_answer short D n off ([], Some EOF)" using True assms(2) by (auto simp: right_answer_def window_def)
  then show ?thesis using True assms(3,7) by (auto simp: ranged_read_at_def)
next
  case False
  obtain r w1 where f: "fetch b url off n w = (r, w1)" by (metis surj_pair)
  note s = fetch_same [OF f]
  have ok: "sizes_ok D c0 w1" "world_grows w w1" "c < next_range w1" using s assms(3,5) by (simp_all add: sizes_ok_def world_grows_def)
  show ?thesis
  proof (cases r)
    case (Inl e)
    then show ?thesis using False f assms(7) ok by (auto simp: ranged_read_at_def)
  next
    case (Inr response)
    then have "serve c response n w1 = (a, w')" using False f assms(7) by (auto simp: ranged_read_at_def)
    from serve_right [OF fetch_honest [OF f [unfolded Inr] assms(1,2)] assms(2) ok(1) assms(4) ok(3) assms(6) this]
    show ?thesis using world_grows_trans ok(2) by blast
  qed
qed

lemma staged_read_right:
  assumes "good_copy D (staged_fd f) (disk w)" and "0 < n" and "staged_read_at f n off w = (a, w')"
  shows "right_answer short D n off a \<and> same_files (disk w) (disk w') \<and> next_range w' = next_range w \<and> range_sizes w' = range_sizes w"
proof -
  obtain r h where h: "os_read_at (staged_fd f) n off (disk w) = (r, h)" by (metis surj_pair)
  have w: "w' = w\<lparr>disk := h\<rparr>" using assms(3) h by (auto simp: staged_read_at_def on_disk_def split: prod.splits option.splits os_io.splits)
  have "right_answer short D n off a"
  proof (cases "handles (disk w) (staged_fd f)")
    case None
    then show ?thesis using assms(2,3) h
      by (auto simp: staged_read_at_def on_disk_def os_read_at_def Let_def inode_of_def split: if_splits)
  next
    case (Some d)
    then obtain i fl where "handles (disk w) (staged_fd f) = Some (WriteHandle i)" "inodes (disk w) i = Some fl" "contents fl = D"
      using assms(1) by (auto simp: good_copy_def)
    then show ?thesis using assms(2,3) h
      by (auto simp: staged_read_at_def on_disk_def os_read_at_def Let_def inode_of_def right_answer_def window_def prefix_take_min take_is_prefix
          split: if_splits option.splits)
  qed
  then show ?thesis using os_read_files [OF h] w by simp
qed

text \<open>Staging makes one new file, whole, or leaves nothing open.\<close>

lemma stage_result:
  assumes "stage b response w = (r, w')"
  shows "next_range w' = next_range w \<and> range_sizes w' = range_sizes w \<and> disk_grows (disk w) (disk w') \<and>
    (case r of
       Inl e \<Rightarrow> tidy_disk (disk w) \<longrightarrow> handles (disk w') = handles (disk w)
     | Inr f \<Rightarrow> staged_fd f = next_handle (disk w) \<and> next_handle (disk w') = Suc (staged_fd f) \<and>
         handles (disk w') = (handles (disk w))(staged_fd f \<mapsto> WriteHandle (next_inode (disk w))) \<and>
         ws_end response = Complete \<and> good_copy (ws_body response) (staged_fd f) (disk w'))"
proof -
  obtain m h1 where m: "new_staging_file (hf_staging b) download_pattern (disk w) = (m, h1)" by (metis surj_pair)
  note made = new_staging_file_makes [OF m]
  show ?thesis
  proof (cases m)
    case (Inl e)
    then show ?thesis using assms m made same_files_grows [of "disk w" h1]
      by (auto simp: stage_def on_disk_def same_files_def)
  next
    case (Inr f)
    let ?h = "disk w" and ?fd = "staged_fd f"
    have mf: "made_file ?h ?fd h1" using made Inr by simp
    obtain n ok h2 where c: "os_copy ?fd (ws_body response) (ws_end response \<noteq> Complete) h1 = ((n, ok), h2)" by (metis surj_pair)
    note cp = os_copy_makes [OF mf c]
    have h2: "?fd = next_handle ?h" "handles h2 = (handles ?h)(?fd \<mapsto> WriteHandle (next_inode ?h))" "next_handle h2 = Suc ?fd"
        "next_inode h2 = Suc (next_inode ?h)" "\<And>i. i \<noteq> next_inode ?h \<Longrightarrow> inodes h2 i = inodes ?h i"
      using mf cp by (auto simp: made_file_def)
    have g2: "disk_grows ?h h2" using h2 by (simp add: disk_grows_def)
    show ?thesis
    proof (cases "\<not> ok \<or> 0 \<le> sint (ws_length response) \<and> int n \<noteq> sint (ws_length response)")
      case True
      obtain x h3 where h3: "staging_close f h2 = (x, h3)" by (metis surj_pair)
      have r: "r = Inl ErrFailure" "w' = w\<lparr>disk := h3\<rparr>"
        using assms m Inr c True h3 by (auto simp: stage_def on_disk_def)
      have "handles h3 = handles ?h" if "tidy_disk ?h"
      proof -
        have "handles ?h (next_handle ?h) = None" using that unfolding tidy_disk_def by blast
        then show ?thesis using staging_close_files [OF h3] h2 by (auto simp: fun_eq_iff)
      qed
      then show ?thesis using r disk_grows_trans [OF g2 staging_close_grows [OF h3]] by simp
    next
      case False
      have r: "r = Inr f" "w' = w\<lparr>disk := h2\<rparr>" using assms m Inr c False by (auto simp: stage_def on_disk_def)
      have "handles h2 ?fd = Some (WriteHandle (next_inode ?h))" "next_inode ?h < next_inode h2" "?fd < next_handle h2"
        using h2 by simp_all
      moreover have "map_option contents (inodes h2 (next_inode ?h)) = Some (ws_body response)" using False cp by blast
      ultimately have "good_copy (ws_body response) ?fd h2" by (auto simp: good_copy_def)
      then show ?thesis using r g2 h2 False cp by simp
    qed
  qed
qed

lemma classify_right:
  assumes hon: "honest_web short b url D" and n: "0 < n" and sz: "sizes_ok D c0 w" and len: "int (length D) < 9223372036854775808"
    and c: "classify_answer b url n off w = (a, w')"
  shows "phase_ok short D c0 w' (Adopting a n off) \<and> sizes_ok D c0 w' \<and> world_grows w w'"
proof -
  obtain r w1 where f: "fetch b url off n w = (r, w1)" by (metis surj_pair)
  note s = fetch_same [OF f]
  have ok1: "sizes_ok D c0 w1" "world_grows w w1" using s sz by (simp_all add: sizes_ok_def world_grows_def)
  show ?thesis
  proof (cases r)
    case (Inl e)
    then show ?thesis using c f ok1 n by (auto simp: classify_answer_def phase_ok_def)
  next
    case (Inr response)
    note h = fetch_honest [OF f [unfolded Inr] hon n]
    show ?thesis
    proof (cases "ws_status response = 200")
      case True
      obtain q w2 where q: "stage b response w1 = (q, w2)" by (metis surj_pair)
      note st = stage_result [OF q]
      have "a = (case q of Inl e \<Rightarrow> Failed ([], Some (IOErr e)) | Inr f \<Rightarrow> Whole f)" "w' = w2"
        using c f Inr True q by (auto simp: classify_answer_def split: sum.splits)
      moreover have "world_grows w w2"
        by (rule world_grows_trans [OF ok1(2)]) (use st in \<open>simp add: world_grows_def\<close>)
      moreover have "sizes_ok D c0 w2" using ok1(1) st by (simp add: sizes_ok_def)
      moreover have "q = Inr f \<Longrightarrow> good_copy D (staged_fd f) (disk w2)" for f
        using st h True by (auto simp: honest_response_def)
      ultimately show ?thesis using n by (auto simp: phase_ok_def reader_ok_def split: sum.splits)
    next
      case False
      obtain cl w2 where cl: "new_range_reader w1 = (cl, w2)" by (metis surj_pair)
      obtain x w3 where x: "serve cl response n w2 = (x, w3)" by (metis surj_pair)
      have ok2: "sizes_ok D c0 w2" "world_grows w1 w2" "c0 \<le> cl" "cl < next_range w2"
        using cl ok1(1) by (auto simp: new_range_reader_def sizes_ok_def world_grows_def less_Suc_eq) blast+
      note sr = serve_right [OF h n ok2(1,3,4) len x]
      have "a = (case x of (d, Some (IOErr e)) \<Rightarrow> Failed (d, Some (IOErr e)) | _ \<Rightarrow> Window cl x)" "w' = w3"
        using c f Inr False cl x by (auto simp: classify_answer_def split: option.splits io_error.splits prod.splits)
      moreover have "world_grows w w3" using sr ok2(2) ok1(2) world_grows_trans by blast
      ultimately show ?thesis using sr ok2 n
        by (auto simp: phase_ok_def reader_ok_def split: option.splits io_error.splits prod.splits)
    qed
  qed
qed

text \<open>The invariant.\<close>

definition exact_ok :: "bool \<Rightarrow> bytes \<Rightarrow> nat \<Rightarrow> nat \<Rightarrow> 'n reads \<Rightarrow> bool" where
  "exact_ok short D c0 k s \<longleftrightarrow> sizes_ok D c0 (rd_world s) \<and>
     (\<forall>f r. open_files (rd_world s) k = Some f \<longrightarrow> of_chosen f = Some r \<longrightarrow> reader_ok D c0 (rd_world s) r) \<and>
     (\<forall>t < length (phases s). phase_ok short D c0 (rd_world s) (phases s ! t))"

lemma exact_advance:
  assumes "exact_ok short D c0 k s" and "world_grows (rd_world s) w" and "sizes_ok D c0 w" and "phase_ok short D c0 w p"
    and "\<And>f r. open_files w k = Some f \<Longrightarrow> of_chosen f = Some r \<Longrightarrow>
          reader_ok D c0 w r \<or> (\<exists>g. open_files (rd_world s) k = Some g \<and> of_chosen g = Some r)"
  shows "exact_ok short D c0 k (advance t p w s)"
proof -
  have "phase_ok short D c0 w ((phases s)[t := p] ! i)" if "i < length (phases s)" for i
  proof (cases "i = t")
    case False
    then have "phase_ok short D c0 (rd_world s) (phases s ! i)" using assms(1) that by (simp add: exact_ok_def)
    then show ?thesis using phase_ok_grows [OF _ assms(2)] False by simp
  qed (use assms(4) that in simp)
  moreover have "reader_ok D c0 w r" if "open_files w k = Some f" "of_chosen f = Some r" for f r
    using assms(1,2) assms(5) [OF that] reader_ok_grows by (auto simp: exact_ok_def)
  ultimately show ?thesis using assms(3) by (auto simp: exact_ok_def advance_def)
qed

lemma chosen_close_grows: "chosen_close r w = (x, w') \<Longrightarrow>
    world_grows w w' \<and> next_range w' = next_range w \<and> range_sizes w' = range_sizes w \<and> open_files w' = open_files w"
  by (auto simp: chosen_close_def on_disk_def world_grows_def split: chosen_reader.splits prod.splits dest: staging_close_grows)

lemma sizes_ok_same: "sizes_ok D c0 w \<Longrightarrow> next_range w' = next_range w \<Longrightarrow> range_sizes w' = range_sizes w \<Longrightarrow> sizes_ok D c0 w'"
  by (simp add: sizes_ok_def)

lemma adopt_right:
  assumes "adopt k r w = (x, w')" and "open_files w k = Some f" and "sizes_ok D c0 w"
  shows "sizes_ok D c0 w' \<and> world_grows w w' \<and>
    (\<forall>f' r'. open_files w' k = Some f' \<longrightarrow> of_chosen f' = Some r' \<longrightarrow> r' = r \<or> of_chosen f = Some r')"
  using assms chosen_close_grows [of r w]
  by (auto simp: adopt_def sizes_ok_def world_grows_def prod_eq_iff split: if_splits)

lemma after_adopt_right:
  assumes "after_adopt k a n off w = (p, w')" and "open_files w k = Some f" and "sizes_ok D c0 w"
    and "phase_ok short D c0 w (Adopting a n off)"
  shows "sizes_ok D c0 w' \<and> world_grows w w' \<and> phase_ok short D c0 w' p \<and>
    (\<forall>f' r'. open_files w' k = Some f' \<longrightarrow> of_chosen f' = Some r' \<longrightarrow> reader_ok D c0 w' r' \<or> of_chosen f = Some r')"
proof (cases a)
  case (Failed ans)
  then show ?thesis using assms by (auto simp: after_adopt_def phase_ok_def)
next
  case (Whole g)
  obtain x v where x: "adopt k (Staged g) w = (x, v)" by (metis surj_pair)
  note ad = adopt_right [OF x assms(2,3)]
  have "reader_ok D c0 v (Staged g)"
    using assms(4) Whole ad reader_ok_grows by (auto simp: phase_ok_def)
  then show ?thesis using assms(1,4) Whole x ad by (cases x) (auto simp: after_adopt_def phase_ok_def)
next
  case (Window c ans)
  obtain x v where x: "adopt k (Ranged c) w = (x, v)" by (metis surj_pair)
  note ad = adopt_right [OF x assms(2,3)]
  have "reader_ok D c0 v (Ranged c)"
    using assms(4) Window ad reader_ok_grows by (auto simp: phase_ok_def)
  then show ?thesis using assms(1,4) Window x ad by (cases x) (auto simp: after_adopt_def phase_ok_def)
qed

lemma exact_step:
  assumes "read_step b k url s s'" and ok: "exact_ok short D c0 k s" and g: "gates_ok k s"
    and hon: "honest_web short b url D" and len: "int (length D) < 9223372036854775808"
  shows "exact_ok short D c0 k s'"
  using assms(1)
proof cases
  case (cancelled t g n off)
  have "sizes_ok D c0 (rd_world s)" using ok by (simp add: exact_ok_def)
  then show ?thesis unfolding cancelled(1)
    by (intro exact_advance [OF ok]) (auto simp: phase_ok_def refused_def)
next
  case (goes t p w)
  note st = goes(3)
  obtain f where f: "open_files (rd_world s) k = Some f" using g by (auto simp: gates_ok_def)
  have sz: "sizes_ok D c0 (rd_world s)" and ph: "phase_ok short D c0 (rd_world s) (phases s ! t)"
    and ch: "of_chosen f = Some r \<Longrightarrow> reader_ok D c0 (rd_world s) r" for r
    using ok goes(2) f by (auto simp: exact_ok_def)
  have "sizes_ok D c0 w \<and> world_grows (rd_world s) w \<and> phase_ok short D c0 w p \<and>
      (\<forall>f' r'. open_files w k = Some f' \<longrightarrow> of_chosen f' = Some r' \<longrightarrow> reader_ok D c0 w r' \<or> of_chosen f = Some r')"
  proof (cases "phases s ! t")
    case (Asking n off)
    then show ?thesis using st sz f ch
      by (auto simp: open_next_def phase_ok_def refused_def sizes_ok_def world_grows_def reader_ok_def
          split: if_splits option.splits chosen_reader.splits)
  next
    case (Waiting g n off)
    then show ?thesis using st sz f by (auto simp: phase_ok_def split: if_splits)
  next
    case (Reading r n off)
    obtain a where a: "chosen_read_at b url r n off (rd_world s) = (a, w)" "p = Finished a n off"
      using st Reading by (auto split: prod.splits)
    have r: "0 < n" "reader_ok D c0 (rd_world s) r" using ph Reading by (simp_all add: phase_ok_def)
    have same: "open_files w = open_files (rd_world s)" using chosen_read_gates [OF a(1)] by (simp add: same_gates_def)
    have "right_answer short D n off a \<and> sizes_ok D c0 w \<and> world_grows (rd_world s) w"
    proof (cases r)
      case (Ranged c)
      then have c: "ranged_read_at b url c n off (rd_world s) = (a, w)" "c0 \<le> c" "c < next_range (rd_world s)"
        using a(1) r(2) by (simp_all add: chosen_read_at_def reader_ok_def)
      show ?thesis by (rule ranged_read_right [OF hon r(1) sz c(2,3) len c(1)])
    next
      case (Staged g)
      then show ?thesis using a(1) r staged_read_right [of D g "rd_world s" n off a w] sz
        by (auto simp: chosen_read_at_def reader_ok_def world_grows_def dest: same_files_grows intro: sizes_ok_same)
    qed
    then show ?thesis using a(2) same f by (auto simp: phase_ok_def)
  next
    case (Classifying n off)
    obtain a where a: "classify_answer b url n off (rd_world s) = (a, w)" "p = Adopting a n off"
      using st Classifying by (auto split: prod.splits)
    have n: "0 < n" using ph Classifying by (simp add: phase_ok_def)
    show ?thesis using classify_right [OF hon n sz len a(1)] classify_gates [OF a(1)] a(2) f by (auto simp: same_gates_def)
  next
    case (Adopting a n off)
    then show ?thesis using after_adopt_right [of k a n off "rd_world s" p w f D c0] st f sz ph by simp
  next
    case (Serving g n off)
    obtain a where a: "staged_read_at g n off (rd_world s) = (a, w)" "p = Leaving a n off"
      using st Serving by (auto split: prod.splits)
    show ?thesis using staged_read_right [of D g "rd_world s" n off a w] staged_read_gates [OF a(1)] a ph Serving sz f
      by (auto simp: phase_ok_def reader_ok_def same_gates_def world_grows_def dest: same_files_grows intro: sizes_ok_same)
  next
    case (Leaving a n off)
    then show ?thesis using st sz f ph
      by (auto simp: take_gate_def phase_ok_def sizes_ok_def world_grows_def)
  next
    case (Lowered l a n off)
    then show ?thesis using st sz f ph
      by (auto simp: close_gate_def phase_ok_def sizes_ok_def world_grows_def split: option.splits)
  next
    case Closing
    then show ?thesis using st sz f
      by (auto simp: close_lock_def phase_ok_def sizes_ok_def world_grows_def split: option.splits)
  next
    case (Releasing r)
    then show ?thesis using st sz f chosen_close_grows [of r "rd_world s"]
      by (auto simp: phase_ok_def prod_eq_iff intro: sizes_ok_same)
  qed (use st in simp_all)
  then show ?thesis unfolding goes(1) using f by (intro exact_advance [OF ok]) auto
qed

lemma exact_reachable:
  assumes "reachable b k url s0 s" and "exact_ok short D c0 k s0" and "gates_ok k s0"
    and "honest_web short b url D" and "int (length D) < 9223372036854775808"
  shows "exact_ok short D c0 k s"
  using assms(1) by induction (use assms(2-5) exact_step gates_ok_reachable in blast)+

lemma exact_started:
  assumes "started b node w0 ps k s"
  shows "exact_ok short D (next_range w0) k s"
proof -
  have w: "rd_world s = w0\<lparr>open_files := (open_files w0)(k \<mapsto> \<lparr>of_chosen = None, of_probing = None, of_closed = False\<rparr>),
      next_open := Suc k\<rparr>" and ps: "phases s = ps"
    using assms by (auto simp: started_def http_open_def Let_def split: if_splits)
  have "phase_ok short D c0 v p" if "begins p" for c0 v p using that by (cases p) (simp_all add: begins_def phase_ok_def)
  then show ?thesis using assms w ps by (auto simp: exact_ok_def sizes_ok_def started_def list_all_length)
qed

text \<open>
  C29. However pipelined reads of a file open over HTTP and calls of Close interleave, each
  read is answered with what the file holds at that place, or the rest of it and the end, or
  part of it and an error, if the backend serves ranges of one file, or the whole of it, as
  RFC 9110 says, failing and breaking off with an error whenever it likes. If bodies may also
  be cut short of the length they announce, a read may be answered with part of what is there
  and the end; what it is answered with is what the file holds there still.
\<close>

theorem http_reads_exact:
  assumes "started b node w0 ps k s0" and "closed_gates w0 \<subseteq> {..<next_gate w0}"
    and "honest_web short b (entry_backend node) D" and "int (length D) < 9223372036854775808"
    and "reachable b k (entry_backend node) s0 s" and "t < length (phases s)" and "phases s ! t = Finished a n off"
  shows "right_answer short D n off a"
  using exact_reachable [OF assms(5) exact_started [OF assms(1)] gates_ok_started [OF assms(1,2)] assms(3,4)] assms(6,7)
  by (auto simp: exact_ok_def phase_ok_def)

text \<open>
  That a range cut short is taken for the end of the file is not ruled out by anything the code
  looks at: the length the response states, which it has just learnt, may say otherwise.
\<close>

lemma cut_range_is_the_end:
  assumes "ws_status response = 206" and "ws_end response = CutShort" and "length (ws_body response) < n"
  shows "fst (serve c response n w) = (ws_body response, Some EOF)"
  using assms by (simp add: serve_def read_full_body_def)

text \<open>
  A child is named by its decoded path, so an escaped slash in the URL of its directory does not
  stay one.
\<close>

lemma child_url_decodes_directory:
  "map_sum id entry_backend (http_child (Entry (no_attrs\<lparr>Directory := ''d'', Backend := ''http://h/a%2Fb''\<rparr>) []) ''c'')
   = Inr ''http://h/a/b/c''"
  by code_simp

end
