(* ===== verification/Httpfs_Leaks.thy ===== *)
theory Httpfs_Leaks
  imports Httpfs_Exact
begin

text \<open>
  A staged copy is always somebody's: the handle's that chose it, or the goroutine's that made it
  or is closing it. Once all have returned and the handle is closed, it is nobody's, and closed.
\<close>

section \<open>Counting descriptors\<close>

definition open_bit :: "nat \<Rightarrow> ('n, 'z) remote_scheme \<Rightarrow> nat" where
  "open_bit fd w = (if handles (disk w) fd = None then 0 else 1)"

definition reader_bit :: "nat \<Rightarrow> chosen_reader \<Rightarrow> nat" where
  "reader_bit fd r = (case r of Staged g \<Rightarrow> if staged_fd g = fd then 1 else 0 | Ranged c \<Rightarrow> 0)"

definition chosen_bit :: "nat \<Rightarrow> open_file \<Rightarrow> nat" where
  "chosen_bit fd f = (case of_chosen f of None \<Rightarrow> 0 | Some r \<Rightarrow> reader_bit fd r)"

definition phase_bit :: "nat \<Rightarrow> phase \<Rightarrow> nat" where
  "phase_bit fd p = (case p of Adopting (Whole g) n off \<Rightarrow> reader_bit fd (Staged g) | Releasing r \<Rightarrow> reader_bit fd r | _ \<Rightarrow> 0)"

definition seeking :: "phase \<Rightarrow> bool" where
  "seeking p \<longleftrightarrow> (case p of Classifying n off \<Rightarrow> True | Adopting a n off \<Rightarrow> True | _ \<Rightarrow> False)"

lemma bits_simps [simp]:
  "phase_bit fd (Asking n off) = 0" "phase_bit fd (Waiting g n off) = 0" "phase_bit fd (Reading r n off) = 0"
  "phase_bit fd (Classifying n off) = 0" "phase_bit fd (Adopting (Whole h) n off) = reader_bit fd (Staged h)"
  "phase_bit fd (Adopting (Failed a) n off) = 0" "phase_bit fd (Adopting (Window c a) n off) = 0"
  "phase_bit fd (Serving h n off) = 0" "phase_bit fd (Leaving a n off) = 0" "phase_bit fd (Lowered l a n off) = 0"
  "phase_bit fd (Finished a n off) = 0" "phase_bit fd Closing = 0" "phase_bit fd (Releasing r) = reader_bit fd r"
  "phase_bit fd Released = 0" "reader_bit fd (Ranged c) = 0"
  "seeking (Classifying n off)" "seeking (Adopting x n off)"
  "\<not> seeking (Asking n off)" "\<not> seeking (Waiting g n off)" "\<not> seeking (Reading r n off)"
  "\<not> seeking (Serving h n off)" "\<not> seeking (Leaving a n off)" "\<not> seeking (Lowered l a n off)"
  "\<not> seeking (Finished a n off)" "\<not> seeking Closing" "\<not> seeking (Releasing r)" "\<not> seeking Released"
  by (simp_all add: phase_bit_def seeking_def reader_bit_def)

definition accounted :: "host \<Rightarrow> nat \<Rightarrow> 'n reads \<Rightarrow> bool" where
  "accounted h0 k s \<longleftrightarrow> tidy_disk (disk (rd_world s)) \<and>
     (\<exists>f. open_files (rd_world s) k = Some f \<and>
        (\<forall>fd. open_bit fd (rd_world s) = (if handles h0 fd = None then 0 else 1) + chosen_bit fd f +
                sum_list (map (phase_bit fd) (phases s))) \<and>
        (\<forall>t < length (phases s). seeking (phases s ! t) \<longrightarrow> of_chosen f = None))"

lemma accounted_advance:
  assumes ac: "accounted h0 k s" and t: "t < length (phases s)"
    and f: "open_files (rd_world s) k = Some f" and f': "open_files w k = Some f'"
    and tidy: "tidy_disk (disk w)"
    and bits: "\<And>fd. open_bit fd w + phase_bit fd (phases s ! t) + chosen_bit fd f =
                      open_bit fd (rd_world s) + phase_bit fd p + chosen_bit fd f'"
    and seek: "seeking p \<Longrightarrow> of_chosen f' = None"
      "\<And>i. i < length (phases s) \<Longrightarrow> i \<noteq> t \<Longrightarrow> seeking (phases s ! i) \<Longrightarrow> of_chosen f = None \<Longrightarrow> of_chosen f' = None"
  shows "accounted h0 k (advance t p w s)"
proof -
  have old: "open_bit fd (rd_world s) = (if handles h0 fd = None then 0 else 1) + chosen_bit fd f + sum_list (map (phase_bit fd) (phases s))"
    and sk: "i < length (phases s) \<Longrightarrow> seeking (phases s ! i) \<Longrightarrow> of_chosen f = None" for fd i
    using ac f by (auto simp: accounted_def)
  have upd: "sum_list (map (phase_bit fd) ((phases s)[t := p])) + phase_bit fd (phases s ! t) =
      sum_list (map (phase_bit fd) (phases s)) + phase_bit fd p" for fd
  proof -
    have "phase_bit fd (phases s ! t) \<le> sum_list (map (phase_bit fd) (phases s))"
      using t elem_le_sum_list [of t "map (phase_bit fd) (phases s)"] by simp
    then show ?thesis using t sum_list_update [of t "map (phase_bit fd) (phases s)" "phase_bit fd p"] by (simp add: map_update)
  qed
  have new: "open_bit fd w = (if handles h0 fd = None then 0 else 1) + chosen_bit fd f' + sum_list (map (phase_bit fd) ((phases s)[t := p]))" for fd
    using old [of fd] upd [of fd] bits [of fd] by linarith
  have "of_chosen f' = None" if "i < length (phases s)" "seeking ((phases s)[t := p] ! i)" for i
    using that sk seek t by (cases "i = t") auto
  then show ?thesis using f' tidy new by (auto simp: accounted_def advance_def)
qed

text \<open>A step that leaves the descriptors and the choice alone.\<close>

lemma accounted_same:
  assumes ac: "accounted h0 k s" and t: "t < length (phases s)" and "same_gates (rd_world s) w"
    and "same_files (disk (rd_world s)) (disk w)"
    and "\<And>fd. phase_bit fd p = phase_bit fd (phases s ! t)" and "seeking p \<Longrightarrow> seeking (phases s ! t)"
  shows "accounted h0 k (advance t p w s)"
proof -
  obtain f where f: "open_files (rd_world s) k = Some f" using ac by (auto simp: accounted_def)
  have "seeking (phases s ! t) \<Longrightarrow> of_chosen f = None" using ac f t by (auto simp: accounted_def)
  then show ?thesis
    by (intro accounted_advance [OF ac t f, where f' = f])
       (use assms f in \<open>auto simp: same_gates_def same_files_def open_bit_def accounted_def tidy_disk_def\<close>)
qed

lemma same_files_refl [simp]: "same_files h h"
  by (simp add: same_files_def)

lemma two_probers: "i < length ps \<Longrightarrow> j < length ps \<Longrightarrow> i \<noteq> j \<Longrightarrow> prober (ps ! i) \<Longrightarrow> prober (ps ! j) \<Longrightarrow> 1 < probers ps"
  using probers_update [of i ps Released] prober_counted [of j "ps[i := Released]"] by simp

lemma seeking_prober: "seeking p \<Longrightarrow> prober p"
  by (cases p) simp_all

text \<open>Only the goroutine that probes is seeking.\<close>

lemma only_seeker:
  assumes "gates_ok k s" and "t < length (phases s)" and "prober (phases s ! t)"
    and "i < length (phases s)" and "i \<noteq> t"
  shows "\<not> seeking (phases s ! i)"
proof
  assume "seeking (phases s ! i)"
  then have "1 < probers (phases s)" using two_probers [OF assms(2,4)] assms(3,5) seeking_prober by metis
  then show False using assms(1) by (auto simp: gates_ok_def split: if_splits)
qed

lemma chosen_read_files:
  "chosen_read_at b url r n off w = (a, w') \<Longrightarrow> same_files (disk w) (disk w')"
  by (auto simp: chosen_read_at_def ranged_read_at_def serve_def learn_def staged_read_at_def on_disk_def
      split: chosen_reader.splits if_splits prod.splits sum.splits option.splits os_io.splits
      dest!: fetch_same os_read_files)

lemma staged_read_files: "staged_read_at f n off w = (a, w') \<Longrightarrow> same_files (disk w) (disk w')"
  by (auto simp: staged_read_at_def on_disk_def split: prod.splits option.splits os_io.splits dest!: os_read_files)

lemma close_bit:
  "chosen_close r w = (x, w') \<Longrightarrow> tidy_disk (disk w) \<Longrightarrow>
     tidy_disk (disk w') \<and> open_files w' = open_files w \<and> (open_bit fd w = 0 \<longrightarrow> open_bit fd w' = 0) \<and>
     (reader_bit fd r = 1 \<longrightarrow> open_bit fd w' = 0) \<and> (reader_bit fd r = 0 \<longrightarrow> open_bit fd w' = open_bit fd w)"
  by (auto simp: chosen_close_def on_disk_def tidy_disk_def open_bit_def reader_bit_def
      split: chosen_reader.splits prod.splits if_split_asm dest!: staging_close_files)

lemma reader_bit_cases: "reader_bit fd r = 0 \<or> reader_bit fd r = 1"
  by (auto simp: reader_bit_def split: chosen_reader.splits)

text \<open>Whoever holds a copy holds an open one.\<close>

lemma held_open:
  assumes "accounted h0 k s" and "open_files (rd_world s) k = Some f"
  shows "t < length (phases s) \<Longrightarrow> phase_bit fd (phases s ! t) \<le> open_bit fd (rd_world s)"
    and "t < length (phases s) \<Longrightarrow> phase_bit fd (phases s ! t) + chosen_bit fd f \<le> open_bit fd (rd_world s)"
proof -
  have "open_bit fd (rd_world s) = (if handles h0 fd = None then 0 else 1) + chosen_bit fd f + sum_list (map (phase_bit fd) (phases s))"
    using assms by (auto simp: accounted_def)
  moreover have "t < length (phases s) \<Longrightarrow> phase_bit fd (phases s ! t) \<le> sum_list (map (phase_bit fd) (phases s))"
    using elem_le_sum_list [of t "map (phase_bit fd) (phases s)"] by simp
  ultimately show "t < length (phases s) \<Longrightarrow> phase_bit fd (phases s ! t) \<le> open_bit fd (rd_world s)"
    and "t < length (phases s) \<Longrightarrow> phase_bit fd (phases s ! t) + chosen_bit fd f \<le> open_bit fd (rd_world s)" by linarith+
qed

lemma classify_bits:
  assumes "classify_answer b url n off w = (a, w')" and tidy: "tidy_disk (disk w)"
  shows "tidy_disk (disk w') \<and> open_bit fd w' = open_bit fd w + phase_bit fd (Adopting a n off)"
proof -
  obtain r w1 where f: "fetch b url off n w = (r, w1)" by (metis surj_pair)
  have d1: "disk w1 = disk w" using fetch_same [OF f] by simp
  show ?thesis
  proof (cases r)
    case (Inl e)
    then show ?thesis using assms f d1 by (auto simp: classify_answer_def open_bit_def)
  next
    case (Inr response)
    show ?thesis
    proof (cases "ws_status response = 200")
      case True
      obtain q w2 where q: "stage b response w1 = (q, w2)" by (metis surj_pair)
      note st = stage_result [OF q]
      have a: "a = (case q of Inl e \<Rightarrow> Failed ([], Some (IOErr e)) | Inr f \<Rightarrow> Whole f)" "w' = w2"
        using assms f Inr True q by (auto simp: classify_answer_def split: sum.splits)
      show ?thesis
      proof (cases q)
        case (Inl e)
        then have h: "handles (disk w2) = handles (disk w)" "next_handle (disk w) \<le> next_handle (disk w2)"
          using st tidy d1 by (auto simp: disk_grows_def)
        then show ?thesis using a Inl tidy by (auto simp: tidy_disk_def open_bit_def dest: order.strict_trans2)
      next
        case (Inr g)
        have h: "staged_fd g = next_handle (disk w)" "next_handle (disk w2) = Suc (staged_fd g)"
            "handles (disk w2) = (handles (disk w))(staged_fd g \<mapsto> WriteHandle (next_inode (disk w)))"
          using st Inr d1 by auto
        have "handles (disk w) (next_handle (disk w)) = None" using tidy unfolding tidy_disk_def by blast
        then show ?thesis using a Inr h tidy
          by (auto simp: tidy_disk_def open_bit_def reader_bit_def less_Suc_eq)
      qed
    next
      case False
      obtain cl w2 where cl: "new_range_reader w1 = (cl, w2)" by (metis surj_pair)
      obtain x w3 where x: "serve cl response n w2 = (x, w3)" by (metis surj_pair)
      have "disk w3 = disk w" using cl x d1 by (auto simp: new_range_reader_def serve_def learn_def split: if_splits option.splits)
      moreover have "a = (case x of (d, Some (IOErr e)) \<Rightarrow> Failed (d, Some (IOErr e)) | _ \<Rightarrow> Window cl x)" "w' = w3"
        using assms f Inr False cl x by (auto simp: classify_answer_def split: option.splits io_error.splits prod.splits)
      ultimately show ?thesis using tidy by (auto simp: open_bit_def split: option.splits io_error.splits prod.splits)
    qed
  qed
qed

lemma adopt_bits:
  assumes "adopt k r w = (x, w')" and "open_files w k = Some f" and "tidy_disk (disk w)" and "of_chosen f = None"
    and "\<And>fd. reader_bit fd r \<le> open_bit fd w"
  shows "tidy_disk (disk w') \<and> (\<exists>f'. open_files w' k = Some f' \<and>
    (\<forall>fd. open_bit fd w' + reader_bit fd r + chosen_bit fd f = open_bit fd w + chosen_bit fd f'))"
proof (cases "of_closed f")
  case True
  obtain y v where c: "chosen_close r w = (y, v)" by (metis surj_pair)
  then have w': "w' = v" using assms(1,2) True by (auto simp: adopt_def)
  have "open_bit fd v + reader_bit fd r = open_bit fd w" for fd
    using close_bit [OF c assms(3), of fd] assms(5) [of fd] reader_bit_cases [of fd r]
    by (auto simp: open_bit_def split: if_splits)
  then show ?thesis using w' close_bit [OF c assms(3)] assms(2) by auto
next
  case False
  then have "w' = w\<lparr>open_files := (open_files w)(k \<mapsto> f\<lparr>of_chosen := Some r\<rparr>)\<rparr>"
    using assms(1,2) by (auto simp: adopt_def)
  then show ?thesis using assms(3,4) by (auto simp: chosen_bit_def open_bit_def)
qed

lemma accounted_adopt:
  assumes ac: "accounted h0 k s" and g: "gates_ok k s" and t: "t < length (phases s)" and p: "phases s ! t = Adopting a n off"
    and o: "after_adopt k a n off (rd_world s) = (q, w)"
  shows "accounted h0 k (advance t q w s)"
proof -
  obtain f where f: "open_files (rd_world s) k = Some f" using ac by (auto simp: accounted_def)
  have c: "of_chosen f = None" using ac f t p by (auto simp: accounted_def)
  have tidy: "tidy_disk (disk (rd_world s))" using ac by (simp add: accounted_def)
  have q: "\<not> seeking q" "phase_bit fd q = 0" for fd
    using o by (auto simp: after_adopt_def split: classified.splits prod.splits sum.splits)
  have r: "\<exists>r x. adopt k r (rd_world s) = (x, w) \<and> (\<forall>fd. reader_bit fd r = phase_bit fd (phases s ! t))" if "\<And>ans. a \<noteq> Failed ans"
    using o p that by (cases a) (auto simp: after_adopt_def split: prod.splits sum.splits)
  have "tidy_disk (disk w) \<and> (\<exists>f'. open_files w k = Some f' \<and>
      (\<forall>fd. open_bit fd w + phase_bit fd (phases s ! t) + chosen_bit fd f = open_bit fd (rd_world s) + chosen_bit fd f'))"
  proof (cases "\<exists>ans. a = Failed ans")
    case True
    then show ?thesis using o p f tidy by (auto simp: after_adopt_def)
  next
    case False
    then obtain r x where rx: "adopt k r (rd_world s) = (x, w)" "\<And>fd. reader_bit fd r = phase_bit fd (phases s ! t)"
      using r by blast
    from adopt_bits [OF rx(1) f tidy c] held_open(1) [OF ac f t] rx(2) show ?thesis by metis
  qed
  then obtain f' where f': "tidy_disk (disk w)" "open_files w k = Some f'"
      "\<And>fd. open_bit fd w + phase_bit fd (phases s ! t) + chosen_bit fd f = open_bit fd (rd_world s) + chosen_bit fd f'" by blast
  have "\<not> seeking (phases s ! i)" if "i < length (phases s)" "i \<noteq> t" for i
    by (rule only_seeker [OF g t _ that]) (simp add: p)
  then show ?thesis by (intro accounted_advance [OF ac t f f'(2,1)]) (use f'(3) q in auto)
qed

lemma accounted_step:
  assumes "read_step b k url s s'" and ac: "accounted h0 k s" and g: "gates_ok k s"
  shows "accounted h0 k s'"
  using assms(1)
proof cases
  case (cancelled t x n off)
  show ?thesis unfolding cancelled(1) by (rule accounted_same [OF ac cancelled(2)]) (simp_all add: cancelled(3))
next
  case (goes t p w)
  note t = goes(2) and st = goes(3)
  obtain f where f: "open_files (rd_world s) k = Some f" using ac by (auto simp: accounted_def)
  have tidy: "tidy_disk (disk (rd_world s))" using ac by (simp add: accounted_def)
  show ?thesis unfolding goes(1)
  proof (cases "phases s ! t")
    case (Asking n off)
    have "\<exists>f'. open_files w k = Some f' \<and> disk w = disk (rd_world s) \<and> of_chosen f' = of_chosen f \<and>
        (seeking p \<longrightarrow> of_chosen f = None) \<and> (\<forall>fd. phase_bit fd p = 0)"
      using st Asking f by (auto simp: open_next_def split: if_splits option.splits)
    then obtain f' where f': "open_files w k = Some f'" "disk w = disk (rd_world s)" "of_chosen f' = of_chosen f"
        "seeking p \<longrightarrow> of_chosen f = None" "\<And>fd. phase_bit fd p = 0" by blast
    show "accounted h0 k (advance t p w s)"
      by (rule accounted_advance [OF ac t f f'(1)]) (use f' tidy Asking in \<open>auto simp: open_bit_def chosen_bit_def\<close>)
  next
    case (Waiting x n off)
    then show "accounted h0 k (advance t p w s)" using st by (intro accounted_same [OF ac t]) (auto split: if_splits)
  next
    case (Reading r n off)
    obtain a where a: "chosen_read_at b url r n off (rd_world s) = (a, w)" "p = Finished a n off"
      using st Reading by (auto split: prod.splits)
    show "accounted h0 k (advance t p w s)"
      by (rule accounted_same [OF ac t chosen_read_gates [OF a(1)] chosen_read_files [OF a(1)]]) (simp_all add: Reading a(2))
  next
    case (Classifying n off)
    obtain a where a: "classify_answer b url n off (rd_world s) = (a, w)" "p = Adopting a n off"
      using st Classifying by (auto split: prod.splits)
    have same: "open_files w k = Some f" using classify_gates [OF a(1)] f by (simp add: same_gates_def)
    have c: "of_chosen f = None" using ac f t Classifying by (auto simp: accounted_def)
    show "accounted h0 k (advance t p w s)"
      by (rule accounted_advance [OF ac t f same]) (use classify_bits [OF a(1) tidy] a(2) Classifying c in auto)
  next
    case (Adopting a n off)
    then show "accounted h0 k (advance t p w s)" using st by (intro accounted_adopt [OF ac g t Adopting]) simp
  next
    case (Serving x n off)
    obtain a where a: "staged_read_at x n off (rd_world s) = (a, w)" "p = Leaving a n off"
      using st Serving by (auto split: prod.splits)
    show "accounted h0 k (advance t p w s)"
      by (rule accounted_same [OF ac t staged_read_gates [OF a(1)] staged_read_files [OF a(1)]]) (simp_all add: Serving a(2))
  next
    case (Leaving a n off)
    show "accounted h0 k (advance t p w s)"
      by (rule accounted_advance [OF ac t f, where f' = "f\<lparr>of_probing := None\<rparr>"])
         (use st Leaving f tidy in \<open>auto simp: take_gate_def open_bit_def chosen_bit_def\<close>)
  next
    case (Lowered l a n off)
    show "accounted h0 k (advance t p w s)"
      by (rule accounted_advance [OF ac t f, where f' = f])
         (use st Lowered f tidy in \<open>auto simp: close_gate_def open_bit_def split: option.splits\<close>)
  next
    case Closing
    show "accounted h0 k (advance t p w s)"
      by (rule accounted_advance [OF ac t f, where f' = "f\<lparr>of_chosen := None, of_closed := True\<rparr>"])
         (use st Closing f tidy in \<open>auto simp: close_lock_def open_bit_def chosen_bit_def split: option.splits\<close>)
  next
    case (Releasing r)
    obtain y where y: "chosen_close r (rd_world s) = (y, w)" "p = Released" using st Releasing by (auto simp: prod_eq_iff)
    note cb = close_bit [OF y(1) tidy]
    have "open_bit fd w + reader_bit fd r = open_bit fd (rd_world s)" for fd
      using cb [of fd] held_open(1) [OF ac f t, of fd] Releasing reader_bit_cases [of fd r]
      by (auto simp: open_bit_def split: if_splits)
    then show "accounted h0 k (advance t p w s)"
      by (intro accounted_advance [OF ac t f, where f' = f]) (use cb f y Releasing in auto)
  qed (use st in simp_all)
qed

section \<open>Nothing left\<close>

definition closer :: "phase \<Rightarrow> bool" where
  "closer p \<longleftrightarrow> (case p of Closing \<Rightarrow> True | Releasing r \<Rightarrow> True | Released \<Rightarrow> True | _ \<Rightarrow> False)"

text \<open>Calls of \<open>Close\<close> stay that, and have closed the handle once past the lock.\<close>

definition closers_ok :: "nat \<Rightarrow> nat \<Rightarrow> 'n reads \<Rightarrow> bool" where
  "closers_ok k t s \<longleftrightarrow> t < length (phases s) \<and> closer (phases s ! t) \<and>
     (phases s ! t \<noteq> Closing \<longrightarrow> (\<exists>f. open_files (rd_world s) k = Some f \<and> of_closed f))"

lemma phase_step_closed:
  assumes "phase_step b k url p w = Some (q, w')" and "open_files w k = Some f"
  shows "\<exists>f'. open_files w' k = Some f' \<and> (of_closed f \<longrightarrow> of_closed f') \<and>
    (closer p \<longrightarrow> closer q) \<and> (p = Closing \<longrightarrow> of_closed f')"
proof (cases p)
  case (Asking n off)
  then show ?thesis using assms by (auto simp: closer_def open_next_def split: if_splits option.splits)
next
  case (Reading r n off)
  then show ?thesis using assms by (auto simp: closer_def same_gates_def split: prod.splits dest!: chosen_read_gates)
next
  case (Classifying n off)
  then show ?thesis using assms by (auto simp: closer_def same_gates_def split: prod.splits dest!: classify_gates)
next
  case (Serving g n off)
  then show ?thesis using assms by (auto simp: closer_def same_gates_def split: prod.splits dest!: staged_read_gates)
next
  case (Adopting a n off)
  then show ?thesis using assms
    by (auto simp: closer_def after_adopt_def adopt_def chosen_close_def on_disk_def
        split: classified.splits prod.splits sum.splits if_splits option.splits)
next
  case (Leaving a n off)
  then show ?thesis using assms by (auto simp: closer_def take_gate_def split: prod.splits)
next
  case (Lowered l a n off)
  then show ?thesis using assms by (auto simp: closer_def close_gate_def split: option.splits)
next
  case Closing
  then show ?thesis using assms by (auto simp: closer_def close_lock_def split: option.splits)
next
  case (Waiting g n off)
  then show ?thesis using assms by (auto simp: closer_def split: if_splits)
next
  case (Releasing r)
  then show ?thesis using assms chosen_close_gates [of r w] by (auto simp: closer_def same_gates_def prod_eq_iff)
qed (use assms in simp_all)

lemma closers_step:
  assumes "read_step b k url s s'" and "closers_ok k t s" and g: "gates_ok k s"
  shows "closers_ok k t s'"
proof -
  obtain f where f: "open_files (rd_world s) k = Some f" using g by (auto simp: gates_ok_def)
  have c: "t < length (phases s)" "closer (phases s ! t)" "phases s ! t \<noteq> Closing \<Longrightarrow> of_closed f"
    using assms(2) f by (auto simp: closers_ok_def)
  show ?thesis using assms(1)
  proof cases
    case (cancelled i x n off)
    then have "i \<noteq> t" using c(2) by (auto simp: closer_def)
    then show ?thesis using cancelled assms(2) by (auto simp: closers_ok_def advance_def)
  next
    case (goes i p w)
    obtain f' where f': "open_files w k = Some f'" "of_closed f \<longrightarrow> of_closed f'"
        "closer (phases s ! i) \<longrightarrow> closer p" "phases s ! i = Closing \<longrightarrow> of_closed f'"
      using phase_step_closed [OF goes(3) f] by blast
    then show ?thesis using c goes by (cases "i = t") (auto simp: closers_ok_def advance_def)
  qed
qed

lemma closers_reachable:
  assumes "reachable b k url s0 s" and "closers_ok k t s0" and "gates_ok k s0"
  shows "closers_ok k t s"
  using assms(1) by induction (use assms(2,3) closers_step gates_ok_reachable in blast)+

lemma accounted_reachable:
  assumes "reachable b k url s0 s" and "accounted h0 k s0" and "gates_ok k s0"
  shows "accounted h0 k s"
  using assms(1) by induction (use assms(2,3) accounted_step gates_ok_reachable in blast)+

lemma accounted_started:
  assumes "started b node w0 ps k s" and "tidy_disk (disk w0)"
  shows "accounted (disk w0) k s"
proof -
  have w: "rd_world s = w0\<lparr>open_files := (open_files w0)(k \<mapsto> \<lparr>of_chosen = None, of_probing = None, of_closed = False\<rparr>),
      next_open := Suc k\<rparr>" and ps: "phases s = ps"
    using assms(1) by (auto simp: started_def http_open_def Let_def split: if_splits)
  have b: "phase_bit fd p = 0 \<and> \<not> seeking p" if "begins p" for fd p using that by (cases p) (simp_all add: begins_def)
  have "\<forall>p \<in> set ps. begins p" using assms(1) by (simp add: started_def list_all_iff)
  then have "sum_list (map (phase_bit fd) ps) = 0" for fd using b by (simp add: sum_list_eq_0_iff)
  moreover have "\<forall>t < length ps. \<not> seeking (ps ! t)" using b \<open>\<forall>p \<in> set ps. begins p\<close> by (meson nth_mem)
  ultimately show ?thesis using assms(2) w ps by (auto simp: accounted_def open_bit_def chosen_bit_def)
qed

lemma finished_holds_nothing:
  assumes "\<And>t. t < length ps \<Longrightarrow> \<not> unfinished (ps ! t)"
  shows "sum_list (map (phase_bit fd) ps) = 0"
proof -
  have "phase_bit fd p = 0" if "\<not> unfinished p" for p using that by (cases p) (simp_all add: unfinished_def)
  then show ?thesis using assms by (auto simp: sum_list_eq_0_iff in_set_conv_nth)
qed

text \<open>
  C31. Of the reads of one file open over HTTP at most one is asking the backend how it serves
  the file; and once all calls have returned and the handle has been closed, even while a
  first read was under way, no staged copy is left open.
\<close>

theorem http_handle_leaves_nothing:
  assumes "started b node w0 ps k s0" and "closed_gates w0 \<subseteq> {..<next_gate w0}" and "tidy_disk (disk w0)"
    and "reachable b k (entry_backend node) s0 s"
  shows "length (filter prober (phases s)) \<le> 1 \<and>
    (Closing \<in> set ps \<and> list_all (\<lambda>p. \<not> unfinished p) (phases s) \<longrightarrow>
       dom (handles (disk (rd_world s))) = dom (handles (disk w0)))"
proof -
  note g0 = gates_ok_started [OF assms(1,2)]
  note g = gates_ok_reachable [OF assms(4) g0]
  have count: "probers qs = length (filter prober qs)" for qs by (induction qs) (simp_all add: probers_def)
  obtain f where f: "open_files (rd_world s) k = Some f" using g by (auto simp: gates_ok_def)
  have one: "length (filter prober (phases s)) \<le> 1" using gates_okD(1) [OF g f] count by simp
  have "handles (disk (rd_world s)) fd = None \<longleftrightarrow> handles (disk w0) fd = None"
    if c: "Closing \<in> set ps" and fin: "list_all (\<lambda>p. \<not> unfinished p) (phases s)" for fd
  proof -
    obtain t where t: "t < length ps" "ps ! t = Closing" using c by (auto simp: in_set_conv_nth)
    have "closers_ok k t s0" using t assms(1) by (simp add: closers_ok_def started_def closer_def)
    then have "closers_ok k t s" by (rule closers_reachable [OF assms(4) _ g0])
    moreover have "phases s ! t \<noteq> Closing" if "t < length (phases s)"
      using fin that by (auto simp: list_all_length unfinished_def)
    ultimately have "of_closed f" using f by (auto simp: closers_ok_def)
    then have "chosen_bit fd f = 0" using gates_okD(5) [OF g f] by (simp add: chosen_bit_def)
    moreover have "sum_list (map (phase_bit fd) (phases s)) = 0"
      by (rule finished_holds_nothing) (use fin in \<open>simp add: list_all_length\<close>)
    ultimately have "open_bit fd (rd_world s) = (if handles (disk w0) fd = None then 0 else 1)"
      using accounted_reachable [OF assms(4) accounted_started [OF assms(1,3)] g0] f by (auto simp: accounted_def)
    then show ?thesis by (auto simp: open_bit_def split: if_splits)
  qed
  then show ?thesis using one by (auto simp: dom_def)
qed

section \<open>A run\<close>

text \<open>
  A server without ranges, and a handle that is closed after two reads at once: the second waits
  at the gate, and is then served from the copy the first one made.
\<close>

definition sample_web :: "nat web" where
  "sample_web = \<lparr>web_do = (\<lambda>rq n. (Some \<lparr>ws_status = 200, ws_headers = [], ws_length = 2, ws_body = ''ab'', ws_end = Complete\<rparr>, Suc n)),
     media_type = (\<lambda>_. None), decode_entries = (\<lambda>_. None)\<rparr>"

definition sample_http :: "nat http_fs" where
  "sample_http = \<lparr>hf_web = sample_web, hf_staging = [''tmp''], hf_ctx = \<lparr>ctx_stamp = None\<rparr>\<rparr>"

definition sample_web_file :: node where
  "sample_web_file = Entry (no_attrs\<lparr>File := ''f'', Backend := ''http://h/f''\<rparr>) []"

definition sample_world0 :: "nat http_world" where
  "sample_world0 = \<lparr>disk = sample_disk, net = 0, staged_writers = Map.empty, open_files = Map.empty, next_open = 0,
     range_sizes = (\<lambda>_. 0), next_range = 0, next_gate = 0, closed_gates = {}\<rparr>"

definition sample_phases :: "phase list" where "sample_phases = [Asking 2 0, Closing, Asking 1 1]"

definition sample_reads :: "nat reads" where
  "sample_reads = \<lparr>rd_world = snd (http_open sample_http sample_web_file sample_world0), phases = sample_phases\<rparr>"

definition sample_end :: "nat reads" where
  "sample_end = schedule sample_http 0 (entry_backend sample_web_file) [0, 2, 0, 0, 0, 0, 0, 2, 2, 2, 1, 1] sample_reads"

lemma sample_started: "started sample_http sample_web_file sample_world0 sample_phases 0 sample_reads"
  by (auto simp: started_def sample_reads_def sample_phases_def begins_def http_open_def sample_world0_def
      sample_web_file_def http_permits_def no_attrs_def Let_def)

lemma sample_gates: "closed_gates sample_world0 \<subseteq> {..<next_gate sample_world0}"
  by (simp add: sample_world0_def)

lemma sample_tidy: "tidy_disk (disk sample_world0)"
  by (simp add: sample_world0_def sample_disk_def tidy_disk_def)

lemma sample_reachable: "reachable sample_http 0 (entry_backend sample_web_file) sample_reads sample_end"
  unfolding sample_end_def by (rule schedule_reachable [OF reachable.start])

lemma sample_end_phases: "phases sample_end = [Finished (''ab'', None) 2 0, Released, Finished (''b'', None) 1 1]"
  by code_simp

lemma sample_honest: "honest_web False sample_http url ''ab''"
  by (simp add: honest_web_def honest_response_def sample_http_def sample_web_def)

lemma http_reads_finish_witness:
  "\<exists>t < length (phases sample_reads).
     phase_step sample_http 0 (entry_backend sample_web_file) (phases sample_reads ! t) (rd_world sample_reads) \<noteq> None"
proof -
  have "\<exists>t < length (phases sample_reads). unfinished (phases sample_reads ! t)"
    by (intro exI [of _ 0]) (simp add: sample_reads_def sample_phases_def unfinished_def)
  then show ?thesis
    using http_reads_finish [OF sample_started sample_gates, THEN conjunct1] reachable.start by blast
qed

lemma http_reads_exact_witness: "right_answer False ''ab'' 1 1 (''b'', None)"
  by (rule http_reads_exact [OF sample_started sample_gates sample_honest _ sample_reachable, of 2])
     (simp_all add: sample_end_phases)

lemma http_handle_leaves_nothing_witness: "dom (handles (disk (rd_world sample_end))) = {}"
proof -
  have "Closing \<in> set sample_phases \<and> list_all (\<lambda>p. \<not> unfinished p) (phases sample_end)"
    by (simp add: sample_end_phases sample_phases_def unfinished_def)
  then show ?thesis
    using http_handle_leaves_nothing [OF sample_started sample_gates sample_tidy sample_reachable]
    by (simp add: sample_world0_def sample_disk_def)
qed

end
