(* ===== verification/S3fs.thy ===== *)
theory S3fs
  imports Staging Headers "HOL-Library.List_Lexorder" "HOL-Library.Char_ord"
begin

text \<open>
  The S3 backend: \<open>server/internal/s3fs/s3fs.go\<close> and \<open>read.go\<close>. It serves nodes named by
  \<open>s3://\<close> URLs, whose host is a bucket and whose path is a key, as files and directories made of
  keys that share a prefix.

  The record \<open>s3_lib\<close> stands for what is not under \<open>src/\<close>: the calls of the SDK on a client,
  which answer or fail, and the discovery of the identity of the host. A client is what it was
  made from. A failure is what the code looks at: the error code of an API error, if it is one,
  and the status of an HTTP response, if there was one. A page of a listing says where the
  paginator goes on, if it does.
\<close>

section \<open>Clients and calls\<close>

datatype s3_identity = Stated string string string | Ambient string

record s3_client =
  cl_region :: string
  cl_identity :: s3_identity
  cl_endpoint :: "string option"
  cl_path_style :: bool

record s3_failure =
  fl_code :: "string option"
  fl_status :: "int option"

record s3_object =
  so_key :: string
  so_size :: int64
  so_modified :: "instant option"

record s3_page =
  pg_prefixes :: "string list"
  pg_objects :: "s3_object list"
  pg_next :: "string option"

record s3_put =
  put_bucket :: string
  put_key :: string
  put_body :: "(bytes \<times> bool) option"
  put_length :: int64
  put_type :: "string option"
  put_metadata :: "(string \<times> string) list"

record 'n s3_lib =
  head_object :: "s3_client \<Rightarrow> string \<Rightarrow> string \<Rightarrow> ('n, s3_failure, int64) op"
  delete_object :: "s3_client \<Rightarrow> string \<Rightarrow> string \<Rightarrow> ('n, s3_failure, unit) op"
  next_page :: "s3_client \<Rightarrow> string \<Rightarrow> string \<Rightarrow> string option \<Rightarrow> ('n, s3_failure, s3_page) op"
  list_some :: "s3_client \<Rightarrow> string \<Rightarrow> string \<Rightarrow> nat \<Rightarrow> ('n, s3_failure, s3_object list) op"
  put_object :: "s3_client \<Rightarrow> s3_put \<Rightarrow> ('n, s3_failure, unit) op"
  copy_object :: "s3_client \<Rightarrow> string \<Rightarrow> string \<Rightarrow> string \<Rightarrow> ('n, s3_failure, unit) op"
  get_object :: "s3_client \<Rightarrow> string \<Rightarrow> string \<Rightarrow> string \<Rightarrow> ('n, s3_failure, bytes \<times> body_end) op"
  ambient_identity :: "string \<Rightarrow> string option"

section \<open>State\<close>

text \<open>The backend: a client for each configured bucket, the staging directory, the stamp.\<close>

record 'n s3_fs =
  s3_library :: "'n s3_lib"
  s3_staging :: host_path
  s3_configured :: "string \<rightharpoonup> s3_client"
  s3_ctx :: request_context

definition s3_upload_content_type :: string where "s3_upload_content_type = ''application/octet-stream''"
definition max_single_request_size :: int64 where "max_single_request_size = 5368709120"
definition max_listing_entries :: nat where "max_listing_entries = 10000"

definition client_endpoint :: "'a s3_access_scheme \<Rightarrow> string option" where
  "client_endpoint a = (if Endpoint a \<noteq> [] then Some (Endpoint a) else None)"

definition access_client :: "'a s3_access_scheme \<Rightarrow> s3_client" where
  "access_client a =
     \<lparr>cl_region = Region a, cl_identity = Stated (AccessKeyID a) (SecretAccessKey a) (SessionToken a),
      cl_endpoint = client_endpoint a, cl_path_style = use_path_style a\<rparr>"

definition configured_client :: "'n s3_lib \<Rightarrow> s3_bucket \<Rightarrow> s3_client option" where
  "configured_client lib bucket =
     (if \<not> UseDefaultCredentials bucket then Some (access_client bucket)
      else (case ambient_identity lib (Region bucket) of
              None \<Rightarrow> None
            | Some found \<Rightarrow> Some \<lparr>cl_region = Region bucket, cl_identity = Ambient found,
                cl_endpoint = client_endpoint bucket, cl_path_style = use_path_style bucket\<rparr>))"

fun configure_loop :: "'n s3_lib \<Rightarrow> s3_bucket list \<Rightarrow> (string \<rightharpoonup> s3_client) \<Rightarrow> (string \<rightharpoonup> s3_client) option" where
  "configure_loop lib [] found = Some found"
| "configure_loop lib (bucket # bs) found =
     (case configured_client lib bucket of
        None \<Rightarrow> None
      | Some client \<Rightarrow> configure_loop lib bs (found(Bucket bucket \<mapsto> client)))"

definition s3_new :: "'n s3_lib \<Rightarrow> s3_bucket list option \<Rightarrow> host_path \<Rightarrow> request_context \<Rightarrow> 'n s3_fs option" where
  "s3_new lib backend staging ctx =
     (case backend of
        None \<Rightarrow> None
      | Some buckets \<Rightarrow>
          map_option (\<lambda>found. \<lparr>s3_library = lib, s3_staging = staging, s3_configured = found, s3_ctx = ctx\<rparr>)
            (configure_loop lib buckets Map.empty))"

section \<open>Locations\<close>

record s3_place =
  at_client :: s3_client
  at_bucket :: string
  at_key :: string
  at_methods :: "string list"
  at_access :: "s3_access option"

definition s3_resolve :: "'n s3_fs \<Rightarrow> node \<Rightarrow> verror + s3_place" where
  "s3_resolve b node =
     (case s3_location (entry_backend node) of
        None \<Rightarrow> Inl ErrFailure
      | Some (bucket, key) \<Rightarrow>
          (let place = (\<lambda>client. \<lparr>at_client = client, at_bucket = bucket, at_key = key,
                           at_methods = AllowedMethods (attrs_of node), at_access = S3 (attrs_of node)\<rparr>) in
           case S3 (attrs_of node) of
             Some access \<Rightarrow> if s3_access_validate access \<noteq> None then Inl ErrFailure else Inr (place (access_client access))
           | None \<Rightarrow>
               (case s3_configured b bucket of None \<Rightarrow> Inl ErrPermission | Some client \<Rightarrow> Inr (place client))))"

definition s3_permits :: "string list \<Rightarrow> string \<Rightarrow> bool" where
  "s3_permits methods verb \<longleftrightarrow> methods = [] \<or> verb \<in> set methods"

definition key_prefix :: "string \<Rightarrow> string" where
  "key_prefix key = (if key = [] then [] else key @ ''/'')"

definition s3_child_url :: "s3_place \<Rightarrow> string \<Rightarrow> string" where
  "s3_child_url at name =
     url_string (empty_url\<lparr>u_scheme := s3_scheme, u_host := at_bucket at,
                           u_path := ''/'' @ key_prefix (at_key at) @ name\<rparr>)"

definition sibling :: "s3_place \<Rightarrow> string \<Rightarrow> s3_place" where
  "sibling at key = at\<lparr>at_key := key\<rparr>"

text \<open>Bits of a mode: reading for all, and writing for all.\<close>

definition projected_permissions :: "string list \<Rightarrow> uint32 option" where
  "projected_permissions methods =
     Some (or (if s3_permits methods ''ListObjectsV2'' \<or> s3_permits methods ''GetObject'' then 292 else 0)
              (if s3_permits methods ''PutObject'' \<or> s3_permits methods ''DeleteObject'' \<or> s3_permits methods ''CopyObject''
               then 146 else 0))"

definition child_node :: "s3_place \<Rightarrow> attrs \<Rightarrow> node" where
  "child_node at a =
     Entry (a\<lparr>Backend := s3_child_url at (entry_name (Entry a [])), AllowedMethods := at_methods at,
              Permissions := projected_permissions (at_methods at), S3 := at_access at\<rparr>) []"

section \<open>Outcomes\<close>

definition s3_outcome :: "s3_failure \<Rightarrow> verror" where
  "s3_outcome e =
     (if \<exists>c \<in> set_option (fl_code e). c \<in> {''NoSuchKey'', ''NoSuchBucket'', ''NotFound''} then ErrNotExist
      else if \<exists>c \<in> set_option (fl_code e).
                c \<in> {''AccessDenied'', ''InvalidAccessKeyId'', ''SignatureDoesNotMatch'', ''ExpiredToken'', ''InvalidToken''}
           then ErrPermission
      else if fl_status e = Some 404 then ErrNotExist
      else if fl_status e = Some 401 \<or> fl_status e = Some 403 then ErrPermission
      else ErrFailure)"

text \<open>A call on the network, its failure translated.\<close>

definition s3_call :: "('n, s3_failure, 'a) op \<Rightarrow> (('n, 'z) remote_scheme, verror, 'a) op" where
  "s3_call m w =
     (case on_net m w of (Inl e, w1) \<Rightarrow> (Inl (s3_outcome e), w1) | (Inr x, w1) \<Rightarrow> (Inr x, w1))"

definition s3_head :: "'n s3_fs \<Rightarrow> s3_place \<Rightarrow> (('n, 'z) remote_scheme, verror, int64) op" where
  "s3_head b at = s3_call (head_object (s3_library b) (at_client at) (at_bucket at) (at_key at))"

definition s3_delete :: "'n s3_fs \<Rightarrow> s3_place \<Rightarrow> (('n, 'z) remote_scheme, verror, unit) op" where
  "s3_delete b at = s3_call (delete_object (s3_library b) (at_client at) (at_bucket at) (at_key at))"

section \<open>Listing\<close>

text \<open>The two loops over a page: names not seen before, and children in the order found.\<close>

fun take_prefixes :: "s3_place \<Rightarrow> string list \<Rightarrow> string set \<times> node list \<Rightarrow> string set \<times> node list" where
  "take_prefixes at [] acc = acc"
| "take_prefixes at (common # cs) (seen, children) =
     (let name = trim_suffix ''/'' (trim_prefix (key_prefix (at_key at)) common) in
      if name \<in> seen \<or> \<not> valid_name name then take_prefixes at cs (seen, children)
      else take_prefixes at cs (insert name seen, children @ [child_node at (no_attrs\<lparr>Directory := name\<rparr>)]))"

fun take_objects :: "s3_place \<Rightarrow> s3_object list \<Rightarrow> string set \<times> node list \<Rightarrow> string set \<times> node list" where
  "take_objects at [] acc = acc"
| "take_objects at (ob # os) (seen, children) =
     (let name = trim_prefix (key_prefix (at_key at)) (so_key ob) in
      if name \<in> seen \<or> \<not> valid_name name then take_objects at os (seen, children)
      else take_objects at os
             (insert name seen,
              children @ [child_node at (no_attrs\<lparr>File := name, Size := so_size ob, Mtime := so_modified ob\<rparr>)]))"

definition take_page :: "s3_place \<Rightarrow> s3_page \<Rightarrow> string set \<times> node list \<Rightarrow> string set \<times> node list" where
  "take_page at page acc = take_objects at (pg_objects page) (take_prefixes at (pg_prefixes page) acc)"

text \<open>
  The loop over the pages. Nothing in the code ends it but the store: a store that always has
  another page, with nothing in it, is asked for ever. The loop has as much fuel as it is given,
  and without fuel there is no answer.
\<close>

fun list_pages :: "nat \<Rightarrow> 'n s3_fs \<Rightarrow> s3_place \<Rightarrow> string option \<Rightarrow> string set \<times> node list \<Rightarrow>
    ('n, 'z) remote_scheme \<Rightarrow> ((verror + node list) \<times> ('n, 'z) remote_scheme) option" where
  "list_pages 0 b at token acc w = None"
| "list_pages (Suc fuel) b at token acc w =
     (case s3_call (next_page (s3_library b) (at_client at) (at_bucket at) (key_prefix (at_key at)) token) w of
        (Inl e, w1) \<Rightarrow> Some (Inl e, w1)
      | (Inr page, w1) \<Rightarrow>
          (let acc' = take_page at page acc in
           if max_listing_entries < length (snd acc') then Some (Inl ErrFailure, w1)
           else (case pg_next page of
                   None \<Rightarrow> Some (Inr (snd acc'), w1)
                 | Some t \<Rightarrow> list_pages fuel b at (Some t) acc' w1)))"

definition s3_list :: "nat \<Rightarrow> 'n s3_fs \<Rightarrow> node \<Rightarrow> ('n, 'z) remote_scheme \<Rightarrow>
    ((verror + node list) \<times> ('n, 'z) remote_scheme) option" where
  "s3_list fuel b node w =
     (case s3_resolve b node of
        Inl e \<Rightarrow> Some (Inl e, w)
      | Inr at \<Rightarrow>
          if \<not> s3_permits (at_methods at) ''ListObjectsV2'' then Some (Inr [], w)
          else map_option (\<lambda>(r, w1). (map_sum id (sort_key entry_name) r, w1))
                 (list_pages fuel b at None ({}, []) w))"

section \<open>Reading\<close>

definition object_range :: "int64 \<Rightarrow> int64 \<Rightarrow> string" where
  "object_range offset len = ''bytes='' @ show_int (sint offset) @ ''-'' @ show_int (sint (offset + len - 1))"

definition object_read_at :: "'n s3_fs \<Rightarrow> s3_place \<Rightarrow> int64 \<Rightarrow> nat \<Rightarrow> int64 \<Rightarrow> ('n, 'z) remote_scheme \<Rightarrow>
    (bytes \<times> io_error option) \<times> ('n, 'z) remote_scheme" where
  "object_read_at b at whole n offset w =
     (if sint offset < 0 then (([], Some (IOErr ErrFailure)), w)
      else if sint whole \<le> sint offset then (([], Some EOF), w)
      else if n = 0 then (([], None), w)
      else (let len = (if int n \<le> sint (whole - offset) then of_nat n else whole - offset); m = nat (sint len) in
        case s3_call (get_object (s3_library b) (at_client at) (at_bucket at) (at_key at) (object_range offset len)) w of
          (Inl e, w1) \<Rightarrow> (([], Some (IOErr e)), w1)
        | (Inr (body, ending), w1) \<Rightarrow>
            if m \<le> length body then ((take m body, if m < n then Some EOF else None), w1)
            else if ending = Broken then ((body, Some (IOErr ErrFailure)), w1)
            else ((body, Some EOF), w1)))"

definition s3_open :: "'n s3_fs \<Rightarrow> node \<Rightarrow> (('n, 'z) remote_scheme, verror, ('n, 'z) remote_scheme reader) op" where
  "s3_open b node =
     bindE (liftE (s3_resolve b node)) (\<lambda>at.
       if at_key at = [] then failE ErrUnsupported
       else if \<not> s3_permits (at_methods at) ''GetObject'' then failE ErrPermission
       else bindE (s3_head b at) (\<lambda>length_known.
         returnE \<lparr>read_at = object_read_at b at length_known, read_size = returnE length_known, read_close = (\<lambda>w. (None, w))\<rparr>))"

section \<open>Writing\<close>

text \<open>
  What the contents of an upload are handed to. The body is the staging file, read from where it
  stands to its end.
\<close>

definition commit_by_put :: "'n s3_fs \<Rightarrow> s3_place \<Rightarrow> ('n, 'z) commit" where
  "commit_by_put b at f w =
     (case on_disk (os_fstat (staged_fd f)) w of
        (Inl e, w1) \<Rightarrow> (Some ErrFailure, w1)
      | (Inr info, w1) \<Rightarrow>
          if sint max_single_request_size < sint (info_size info) then (Some ErrUnsupported, w1)
          else (case on_disk (os_read_rest (staged_fd f)) w1 of
            ((data, e), w2) \<Rightarrow>
              (case s3_call (put_object (s3_library b) (at_client at)
                       \<lparr>put_bucket = at_bucket at, put_key = at_key at, put_body = Some (data, e \<noteq> None),
                        put_length = info_size info, put_type = Some s3_upload_content_type,
                        put_metadata = headers_from (s3_ctx b)\<rparr>) w2 of
                 (Inl x, w3) \<Rightarrow> (Some x, w3) | (Inr _, w3) \<Rightarrow> (None, w3))))"

definition s3_create :: "'n s3_fs \<Rightarrow> node \<Rightarrow> (('n, 'z) remote_scheme, verror, ('n, 'z) remote_scheme writer) op" where
  "s3_create b node =
     bindE (liftE (s3_resolve b node)) (\<lambda>at.
       if at_key at = [] then failE ErrUnsupported
       else if \<not> s3_permits (at_methods at) ''PutObject'' then failE ErrPermission
       else new_staged_writer (s3_staging b) (commit_by_put b at))"

definition s3_mkdir :: "'n s3_fs \<Rightarrow> node \<Rightarrow> (('n, 'z) remote_scheme, verror, unit) op" where
  "s3_mkdir b node =
     bindE (liftE (s3_resolve b node)) (\<lambda>at.
       if at_key at = [] then failE ErrUnsupported
       else if \<not> s3_permits (at_methods at) ''PutObject'' then failE ErrPermission
       else s3_call (put_object (s3_library b) (at_client at)
              \<lparr>put_bucket = at_bucket at, put_key = key_prefix (at_key at), put_body = None, put_length = 0,
               put_type = None, put_metadata = headers_from (s3_ctx b)\<rparr>))"

definition remove_directory :: "'n s3_fs \<Rightarrow> s3_place \<Rightarrow> (('n, 'z) remote_scheme, verror, unit) op" where
  "remove_directory b at =
     (if \<not> s3_permits (at_methods at) ''ListObjectsV2'' \<or> \<not> s3_permits (at_methods at) ''DeleteObject''
      then failE ErrPermission
      else bindE (s3_call (list_some (s3_library b) (at_client at) (at_bucket at) (key_prefix (at_key at)) 2)) (\<lambda>found.
        if list_ex (\<lambda>ob. so_key ob \<noteq> key_prefix (at_key at)) found then failE ErrFailure
        else s3_delete b (sibling at (key_prefix (at_key at)))))"

definition s3_remove :: "'n s3_fs \<Rightarrow> node \<Rightarrow> (('n, 'z) remote_scheme, verror, unit) op" where
  "s3_remove b node =
     bindE (liftE (s3_resolve b node)) (\<lambda>at.
       if at_key at = [] then failE ErrUnsupported
       else if is_directory node then remove_directory b at
       else if \<not> s3_permits (at_methods at) ''DeleteObject'' then failE ErrPermission
       else bindE (s3_head b at) (\<lambda>_. s3_delete b at))"

definition copy_source :: "string \<Rightarrow> string \<Rightarrow> string" where
  "copy_source bucket key = escaped_path (empty_url\<lparr>u_path := ''/'' @ bucket @ ''/'' @ key\<rparr>)"

definition rename_target :: "string \<Rightarrow> string \<Rightarrow> string" where
  "rename_target key name = (if path_dir key \<noteq> ''.'' then path_dir key @ ''/'' @ name else name)"

text \<open>The question whether the destination is there, which has to be answered with no.\<close>

definition must_be_free :: "'n s3_fs \<Rightarrow> s3_place \<Rightarrow> (('n, 'z) remote_scheme, verror, unit) op" where
  "must_be_free b at w =
     (case s3_head b at w of
        (Inr _, w1) \<Rightarrow> (Inl ErrExist, w1)
      | (Inl e, w1) \<Rightarrow> if e \<noteq> ErrNotExist then (Inl e, w1) else (Inr (), w1))"

definition s3_rename :: "'n s3_fs \<Rightarrow> node \<Rightarrow> string \<Rightarrow> string \<Rightarrow> (('n, 'z) remote_scheme, verror, unit) op" where
  "s3_rename b node from to =
     (if path_dir from \<noteq> path_dir to then failE ErrUnsupported
      else if \<not> valid_name (path_base to) then failE ErrFailure
      else bindE (liftE (s3_resolve b node)) (\<lambda>at.
        if is_directory node \<or> at_key at = [] then failE ErrUnsupported
        else if \<not> s3_permits (at_methods at) ''CopyObject'' \<or> \<not> s3_permits (at_methods at) ''DeleteObject''
        then failE ErrPermission
        else bindE (s3_head b at) (\<lambda>length_known.
          if sint max_single_request_size < sint length_known then failE ErrUnsupported
          else bindE (must_be_free b (sibling at (rename_target (at_key at) (path_base to)))) (\<lambda>_.
            bindE (s3_call (copy_object (s3_library b) (at_client at) (at_bucket at)
                     (rename_target (at_key at) (path_base to)) (copy_source (at_bucket at) (at_key at)))) (\<lambda>_.
              s3_delete b at)))))"

definition s3_child :: "'n s3_fs \<Rightarrow> node \<Rightarrow> string \<Rightarrow> verror + node" where
  "s3_child b node name =
     (case s3_resolve b node of
        Inl e \<Rightarrow> Inl e
      | Inr at \<Rightarrow> Inr (child_node at (no_attrs\<lparr>File := name, MaxUploadSize := MaxUploadSize (attrs_of node)\<rparr>)))"

text \<open>The backend, its listings given enough fuel for the pages a store has.\<close>

definition s3_backend :: "nat \<Rightarrow> 'n s3_fs \<Rightarrow> ('n, 'z) remote_scheme backend" where
  "s3_backend fuel b =
     \<lparr>backend_list = (\<lambda>node w. case s3_list fuel b node w of None \<Rightarrow> (Inl (ErrOther ''no end of pages''), w) | Some r \<Rightarrow> r),
      backend_open = s3_open b, backend_create = s3_create b, backend_mkdir = s3_mkdir b,
      backend_remove = s3_remove b, backend_rename = s3_rename b, backend_child = s3_child b\<rparr>"

end
