(* ===== verification/S3fs_Facts.thy ===== *)
theory S3fs_Facts
  imports S3fs
begin

text \<open>
  Where a node of the S3 backend is. A name below a key is escaped into a URL that resolves to
  that key, the same bucket, the same client, the same mask: the subtree of an entry never leaves
  the bucket it path, nor the credentials it states.
\<close>

section \<open>Buckets and keys\<close>

lemma valid_bucket_plain: "valid_bucket_name bucket \<Longrightarrow> plain_host bucket"
  unfolding plain_host_def
proof
  fix c
  assume v: "valid_bucket_name bucket" and "c \<in> set bucket"
  then obtain i where "i < length bucket" "c = bucket ! i" by (metis in_set_conv_nth)
  with v have "if is_lower c \<or> is_digit c then True else if c \<noteq> CHR ''-'' \<and> c \<noteq> CHR ''.'' then False else True"
    unfolding valid_bucket_name_def Let_def by (metis (no_types, lifting))
  then show "is_lower c \<or> is_digit c \<or> c = CHR ''.'' \<or> c = CHR ''-''" by (auto split: if_splits)
qed

lemma s3_scheme_plain: "plain_scheme s3_scheme"
  by (simp add: plain_scheme_def s3_scheme_def byte_defs)

lemma valid_name_no_slash: "valid_name n \<Longrightarrow> n \<noteq> [] \<and> slash \<notin> set n"
  unfolding valid_name_def by blast

text \<open>A key is the names on the way to it; none, for the bucket itself.\<close>

definition key_names :: "string \<Rightarrow> string list \<Rightarrow> bool" where
  "key_names key path \<longleftrightarrow> list_all valid_name path \<and> key = join_with slash path"

lemma key_names_no_slash: "list_all valid_name path \<Longrightarrow> \<forall>n \<in> set path. slash \<notin> set n"
  unfolding list_all_iff using valid_name_no_slash by blast

lemma key_names_Nil: "key_names key path \<Longrightarrow> key = [] \<longleftrightarrow> path = []"
  using valid_name_no_slash [of "[]"] by (auto simp: key_names_def join_with_eq_Nil)

lemma key_names_child:
  assumes "key_names key path" and "valid_name n"
  shows "key_names (key_prefix key @ n) (path @ [n])"
proof (cases "path = []")
  case True
  then have "key = []" using assms(1) by (simp add: key_names_def)
  then show ?thesis using True assms(2) by (simp add: key_prefix_def key_names_def)
next
  case False
  then have "key \<noteq> []" using key_names_Nil [OF assms(1)] by simp
  moreover have "join_with slash (path @ [n]) = join_with slash path @ slash # n"
    using join_with_append [OF False, of "[n]"] by simp
  ultimately show ?thesis using assms by (simp add: key_prefix_def key_names_def)
qed

lemma s3_location_names:
  assumes "s3_location raw = Some (bucket, key)"
  shows "valid_bucket_name bucket \<and> (\<exists>path. key_names key path)"
proof -
  obtain u where u: "url_parse raw = Some u" using assms by (auto simp: s3_location_def split: option.splits)
  let ?segs = "split_on slash (trim_all slash (u_path u))"
  have b: "valid_bucket_name bucket" and
    k: "(if length ?segs = 1 \<and> hd ?segs = [] then key = [] else list_all valid_name ?segs \<and> key = join_with slash ?segs)"
    using assms u by (auto simp: s3_location_def Let_def split: if_splits)
  have "\<exists>path. key_names key path"
  proof (cases "length ?segs = 1 \<and> hd ?segs = []")
    case True
    then have "key_names key []" using k by (simp add: key_names_def)
    then show ?thesis by blast
  next
    case False
    then have "key_names key ?segs" using k unfolding key_names_def by meson
    then show ?thesis by blast
  qed
  then show ?thesis using b by blast
qed

lemma trim_all_key:
  assumes "list_all valid_name path"
  shows "trim_all slash (slash # join_with slash path) = join_with slash path"
proof (cases path)
  case Nil
  then show ?thesis by (simp add: trim_all_def)
next
  case (Cons n ns)
  let ?k = "join_with slash path"
  have n: "n \<noteq> []" "slash \<notin> set n" using assms Cons valid_name_no_slash by auto
  have "hd ?k = hd n" "?k \<noteq> []" using n(1) Cons by (cases ns; simp)+
  moreover have "hd n \<noteq> slash" using n by (metis hd_in_set)
  ultimately have h: "?k \<noteq> []" "hd ?k \<noteq> slash" by simp_all
  obtain l where l: "path = butlast path @ [l]" "valid_name l"
    using assms Cons by (metis append_butlast_last_id last_in_set list.distinct(1) list_all_iff)
  have ln: "l \<noteq> []" "slash \<notin> set l" using valid_name_no_slash [OF l(2)] by blast+
  have "last ?k = last l"
  proof (cases "butlast path = []")
    case True
    then show ?thesis using l by (metis append_Nil join_with.simps(2))
  next
    case False
    then have "?k = join_with slash (butlast path) @ slash # l"
      using join_with_append [OF False, of "[l]" slash] l(1) by simp
    then show ?thesis using ln(1) by simp
  qed
  then have t: "last ?k \<noteq> slash" using ln by (metis last_in_set)
  obtain c cs where c: "?k = c # cs" "c \<noteq> slash" using h by (cases ?k) auto
  obtain d ds where d: "rev ?k = d # ds" "d \<noteq> slash" using t h(1) by (cases "rev ?k") (auto simp: last_rev hd_rev)
  have "dropWhile (\<lambda>x. x = slash) (slash # ?k) = ?k" using c by simp
  moreover have "dropWhile (\<lambda>x. x = slash) (rev ?k) = rev ?k" using d by simp
  ultimately show ?thesis by (simp only: trim_all_def rev_rev_ident)
qed

text \<open>The URL of a key leads back to it.\<close>

definition key_url :: "string \<Rightarrow> string \<Rightarrow> string" where
  "key_url bucket key = url_string (empty_url\<lparr>u_scheme := s3_scheme, u_host := bucket, u_path := ''/'' @ key\<rparr>)"

lemma s3_location_parsed:
  assumes u: "url_parse raw = Some u" "u_scheme u = s3_scheme" "\<not> carries_more u" "valid_bucket_name (u_host u)"
    and k: "trim_all slash (u_path u) = key" "key_names key path"
  shows "s3_location raw = Some (u_host u, key)"
proof (cases "path = []")
  case True
  then have "key = []" using key_names_Nil [OF k(2)] by simp
  then show ?thesis using u k(1) by (simp add: s3_location_def)
next
  case False
  have names: "list_all valid_name path" "join_with slash path = key" using k(2) by (simp_all add: key_names_def)
  have "valid_name (hd path)" using names(1) hd_in_set [OF False] unfolding list_all_iff by blast
  then have "\<not> (length path = 1 \<and> hd path = [])" using valid_name_no_slash by blast
  moreover note names
  moreover have "split_on slash key = path"
    using split_join [OF False key_names_no_slash [OF names(1)]] names(2) by simp
  ultimately show ?thesis
    unfolding s3_location_def u(1) option.case Let_def k(1) by (auto simp: u(2-4))
qed

lemma key_url_parsed:
  assumes "valid_bucket_name bucket"
  shows "url_parse (key_url bucket key) = Some (empty_url\<lparr>u_scheme := s3_scheme, u_host := bucket, u_path := ''/'' @ key\<rparr>)"
proof -
  have h: "plain_host bucket" using assms(1) by (rule valid_bucket_plain)
  have p: "prefix [slash] (''/'' @ key)" by simp
  have "key_url bucket key = s3_scheme @ ''://'' @ bucket @ escape EncodePath (''/'' @ key)"
    unfolding key_url_def by (rule url_string_plain [OF _ h p]) (simp add: s3_scheme_def)
  then show ?thesis using url_parse_plain [OF s3_scheme_plain h p] by simp
qed

lemma s3_location_key_url:
  assumes "valid_bucket_name bucket" and "key_names key path"
  shows "s3_location (key_url bucket key) = Some (bucket, key)"
proof -
  define u where "u = empty_url\<lparr>u_scheme := s3_scheme, u_host := bucket, u_path := ''/'' @ key\<rparr>"
  have parsed: "url_parse (key_url bucket key) = Some u"
    unfolding u_def using assms(1) by (rule key_url_parsed)
  have u: "u_scheme u = s3_scheme" "u_host u = bucket" "u_path u = slash # key" "\<not> carries_more u"
    by (simp_all add: u_def empty_url_def carries_more_def)
  have t: "trim_all slash (slash # key) = key"
    using assms(2) trim_all_key by (simp add: key_names_def)
  from s3_location_parsed [OF parsed u(1,4) _ _ assms(2)] show ?thesis using u t assms(1) by simp
qed

section \<open>Children\<close>

lemma child_url_key: "s3_child_url at name = key_url (at_bucket at) (key_prefix (at_key at) @ name)"
  by (simp add: s3_child_url_def key_url_def)

lemma s3_resolve_fields:
  assumes "s3_resolve b node = Inr at"
  shows "valid_bucket_name (at_bucket at)" "\<exists>path. key_names (at_key at) path"
    "at_methods at = AllowedMethods (attrs_of node)" "at_access at = S3 (attrs_of node)"
  using assms s3_location_names
  by (auto simp: s3_resolve_def Let_def split: option.splits prod.splits if_splits)

lemma s3_resolve_elsewhere:
  assumes "s3_resolve b node = Inr at" and "s3_location (entry_backend other) = Some (at_bucket at, key)"
    and "AllowedMethods (attrs_of other) = at_methods at" and "S3 (attrs_of other) = at_access at"
  shows "s3_resolve b other = Inr (sibling at key)"
  using assms
  by (auto simp: s3_resolve_def Let_def sibling_def split: option.splits prod.splits if_splits)

lemma child_node_fields [simp]:
  "attrs_of (child_node at a) = a\<lparr>Backend := s3_child_url at (entry_name (Entry a [])), AllowedMethods := at_methods at,
     Permissions := projected_permissions (at_methods at), S3 := at_access at\<rparr>"
  "entry_name (child_node at a) = entry_name (Entry a [])" "is_directory (child_node at a) \<longleftrightarrow> Directory a \<noteq> []"
  "Children (child_node at a) = []"
  by (simp_all add: child_node_def entry_name_def is_directory_def)

lemma child_resolves:
  assumes "s3_resolve b node = Inr at" and "valid_name (entry_name (Entry a []))"
  shows "s3_resolve b (child_node at a) = Inr (sibling at (key_prefix (at_key at) @ entry_name (Entry a [])))"
proof -
  obtain path where "key_names (at_key at) path" using s3_resolve_fields(2) [OF assms(1)] by blast
  from key_names_child [OF this assms(2)] s3_resolve_fields(1) [OF assms(1)]
  have "s3_location (entry_backend (child_node at a)) = Some (at_bucket at, key_prefix (at_key at) @ entry_name (Entry a []))"
    by (simp add: s3_location_key_url child_url_key)
  then show ?thesis using s3_resolve_elsewhere [OF assms(1)] by simp
qed

end
