(* ===== verification/S3fs_Listing.thy ===== *)
theory S3fs_Listing
  imports S3fs_Facts
begin

text \<open>
  What a listing of the S3 backend says: the names of the prefixes and the keys of all the pages
  the store has, each once, in order, those a client cannot ask for left out.
\<close>

section \<open>The pages of the store\<close>

text \<open>The pages there are from a token on, each of them asked for and answered.\<close>

inductive pages_read :: "'n s3_fs \<Rightarrow> s3_place \<Rightarrow> string option \<Rightarrow> ('n, 'z) remote_scheme \<Rightarrow> s3_page list \<Rightarrow>
    ('n, 'z) remote_scheme \<Rightarrow> bool" for b at where
  last_page: "s3_call (next_page (s3_library b) (at_client at) (at_bucket at) (key_prefix (at_key at)) token) w = (Inr page, w') \<Longrightarrow>
     pg_next page = None \<Longrightarrow> pages_read b at token w [page] w'"
| more_pages: "s3_call (next_page (s3_library b) (at_client at) (at_bucket at) (key_prefix (at_key at)) token) w = (Inr page, w1) \<Longrightarrow>
     pg_next page = Some t \<Longrightarrow> pages_read b at (Some t) w1 pages w' \<Longrightarrow> pages_read b at token w (page # pages) w'"

definition prefix_name :: "s3_place \<Rightarrow> string \<Rightarrow> string" where
  "prefix_name at common = trim_suffix ''/'' (trim_prefix (key_prefix (at_key at)) common)"

definition object_name :: "s3_place \<Rightarrow> s3_object \<Rightarrow> string" where
  "object_name at ob = trim_prefix (key_prefix (at_key at)) (so_key ob)"

definition page_directories :: "s3_place \<Rightarrow> s3_page \<Rightarrow> string set" where
  "page_directories at page = {n \<in> prefix_name at ` set (pg_prefixes page). valid_name n}"

definition page_names :: "s3_place \<Rightarrow> s3_page \<Rightarrow> string set" where
  "page_names at page = page_directories at page \<union> {n \<in> object_name at ` set (pg_objects page). valid_name n}"

text \<open>The page a name is first on decides whether it is a directory.\<close>

fun directory_first :: "s3_place \<Rightarrow> s3_page list \<Rightarrow> string \<Rightarrow> bool" where
  "directory_first at [] n = False"
| "directory_first at (page # pages) n =
     (if n \<in> page_names at page then n \<in> page_directories at page else directory_first at pages n)"

text \<open>A node that stands for a prefix or an object of a page.\<close>

definition listed_from :: "s3_place \<Rightarrow> s3_page \<Rightarrow> node \<Rightarrow> bool" where
  "listed_from at page c \<longleftrightarrow> valid_name (entry_name c) \<and>
     ((\<exists>common \<in> set (pg_prefixes page). c = child_node at (no_attrs\<lparr>Directory := prefix_name at common\<rparr>)) \<or>
      (\<exists>ob \<in> set (pg_objects page).
         c = child_node at (no_attrs\<lparr>File := object_name at ob, Size := so_size ob, Mtime := so_modified ob\<rparr>)))"

section \<open>The loops\<close>

definition tidy :: "string set \<times> node list \<Rightarrow> bool" where
  "tidy acc \<longleftrightarrow> fst acc = entry_name ` set (snd acc) \<and> distinct (map entry_name (snd acc))"

lemma tidy_length: "tidy acc \<Longrightarrow> length (snd acc) = card (fst acc)"
  unfolding tidy_def by (metis distinct_card length_map set_map)

lemma tidy_more: "tidy (seen, cs) \<Longrightarrow> entry_name c \<notin> seen \<Longrightarrow> tidy (insert (entry_name c) seen, cs @ [c])"
  by (auto simp: tidy_def)

text \<open>What a loop adds: new names, each with the node made for it.\<close>

definition adds :: "string set \<times> node list \<Rightarrow> string set \<Rightarrow> (node \<Rightarrow> bool) \<Rightarrow> string set \<times> node list \<Rightarrow> bool" where
  "adds acc ns P acc' \<longleftrightarrow> fst acc' = fst acc \<union> ns \<and> tidy acc' \<and>
     (\<exists>new. snd acc' = snd acc @ new \<and> (\<forall>c \<in> set new. P c \<and> entry_name c \<in> ns - fst acc))"

lemma adds_none: "tidy acc \<Longrightarrow> ns \<subseteq> fst acc \<Longrightarrow> adds acc ns P acc"
  by (auto simp: adds_def)

lemma adds_one: "tidy (seen, cs) \<Longrightarrow> entry_name c \<notin> seen \<Longrightarrow> P c \<Longrightarrow>
    adds (seen, cs) {entry_name c} P (insert (entry_name c) seen, cs @ [c])"
  using tidy_more [of seen cs c] by (auto simp: adds_def)

lemma adds_trans:
  assumes "adds acc ns P acc1" and "adds acc1 ms Q acc2"
  shows "adds acc (ns \<union> ms) (\<lambda>c. P c \<and> entry_name c \<in> ns \<or> Q c \<and> entry_name c \<in> ms - ns) acc2"
proof -
  obtain new where new: "snd acc1 = snd acc @ new" "\<forall>c \<in> set new. P c \<and> entry_name c \<in> ns - fst acc"
      "fst acc1 = fst acc \<union> ns"
    using assms(1) unfolding adds_def by blast
  obtain more where more: "snd acc2 = snd acc1 @ more" "\<forall>c \<in> set more. Q c \<and> entry_name c \<in> ms - fst acc1"
      "fst acc2 = fst acc1 \<union> ms" "tidy acc2"
    using assms(2) unfolding adds_def by blast
  have "\<forall>c \<in> set (new @ more). (P c \<and> entry_name c \<in> ns \<or> Q c \<and> entry_name c \<in> ms - ns) \<and> entry_name c \<in> (ns \<union> ms) - fst acc"
    using new(2,3) more(2) by auto
  then show ?thesis unfolding adds_def using new(1,3) more(1,3,4) by (metis Un_assoc append.assoc)
qed

lemma adds_weaken:
  "adds acc ns P acc' \<Longrightarrow> ns = ms \<Longrightarrow> (\<And>c. P c \<Longrightarrow> entry_name c \<in> ns \<Longrightarrow> Q c) \<Longrightarrow> adds acc ms Q acc'"
  unfolding adds_def by (metis DiffD1)

lemma adds_tidy: "adds acc ns P acc' \<Longrightarrow> tidy acc'"
  by (simp add: adds_def)

lemma directory_child:
  "valid_name n \<Longrightarrow> entry_name (child_node at (no_attrs\<lparr>Directory := n\<rparr>)) = n \<and>
     is_directory (child_node at (no_attrs\<lparr>Directory := n\<rparr>))"
  using valid_name_no_slash by (auto simp: entry_name_def no_attrs_def)

lemma file_child:
  "entry_name (child_node at (no_attrs\<lparr>File := n, Size := s, Mtime := m\<rparr>)) = n \<and>
     \<not> is_directory (child_node at (no_attrs\<lparr>File := n, Size := s, Mtime := m\<rparr>))"
  by (auto simp: entry_name_def no_attrs_def)

text \<open>Each loop runs over its list, taking the node it makes for an element unless the name is no good.\<close>

definition directory_of :: "s3_place \<Rightarrow> string \<Rightarrow> node" where
  "directory_of at common = child_node at (no_attrs\<lparr>Directory := prefix_name at common\<rparr>)"

definition file_of :: "s3_place \<Rightarrow> s3_object \<Rightarrow> node" where
  "file_of at ob = child_node at (no_attrs\<lparr>File := object_name at ob, Size := so_size ob, Mtime := so_modified ob\<rparr>)"

lemma directory_of_name: "valid_name (prefix_name at common) \<Longrightarrow> entry_name (directory_of at common) = prefix_name at common"
  using directory_child by (simp add: directory_of_def)

lemma directory_of_directory: "valid_name (prefix_name at common) \<Longrightarrow> is_directory (directory_of at common)"
  using directory_child by (simp add: directory_of_def)

lemma file_of_name: "entry_name (file_of at ob) = object_name at ob" "\<not> is_directory (file_of at ob)"
  using file_child by (simp_all add: file_of_def)

lemma taking_adds:
  assumes "tidy (seen, cs)" and "name = entry_name c \<or> \<not> valid_name name"
    and rest: "\<And>seen cs. tidy (seen, cs) \<Longrightarrow> adds (seen, cs) ns P (go (seen, cs))"
  shows "adds (seen, cs) ({n \<in> {name}. valid_name n} \<union> ns) (\<lambda>d. d = c \<and> valid_name name \<or> P d)
    (if name \<in> seen \<or> \<not> valid_name name then go (seen, cs) else go (insert name seen, cs @ [c]))"
proof (cases "name \<in> seen \<or> \<not> valid_name name")
  case True
  then have "adds (seen, cs) {n \<in> {name}. valid_name n} (\<lambda>d. d = c \<and> valid_name name) (seen, cs)"
    using assms(1) by (intro adds_none) auto
  from adds_trans [OF this rest [OF assms(1)]] True show ?thesis by (auto intro: adds_weaken)
next
  case False
  then have c: "name = entry_name c" and v: "valid_name name" "name \<notin> seen" using assms(2) by blast+
  have one: "adds (seen, cs) {entry_name c} (\<lambda>d. d = c \<and> valid_name name) (insert (entry_name c) seen, cs @ [c])"
    by (rule adds_one) (use assms(1) c v in auto)
  have "adds (insert name seen, cs @ [c]) ns P (go (insert name seen, cs @ [c]))"
    using rest tidy_more assms(1) c v by simp
  from adds_trans [OF one this [unfolded c]] False c show ?thesis by (auto intro: adds_weaken)
qed

lemma take_prefixes_adds:
  "tidy (seen, cs) \<Longrightarrow> adds (seen, cs) {n \<in> prefix_name at ` set commons. valid_name n}
     (\<lambda>c. \<exists>common \<in> set commons. c = directory_of at common \<and> valid_name (prefix_name at common))
     (take_prefixes at commons (seen, cs))"
proof (induction commons arbitrary: seen cs)
  case Nil
  then show ?case by (simp add: adds_none)
next
  case (Cons common commons)
  have name: "prefix_name at common = entry_name (directory_of at common) \<or> \<not> valid_name (prefix_name at common)"
    using directory_of_name by metis
  have step: "take_prefixes at (common # commons) (seen, cs) =
      (if prefix_name at common \<in> seen \<or> \<not> valid_name (prefix_name at common) then take_prefixes at commons (seen, cs)
       else take_prefixes at commons (insert (prefix_name at common) seen, cs @ [directory_of at common]))"
    by (simp add: directory_of_def prefix_name_def Let_def)
  show ?case unfolding step
    by (rule adds_weaken [OF taking_adds [OF Cons.prems name Cons.IH]]) auto
qed

lemma take_objects_adds:
  "tidy (seen, cs) \<Longrightarrow> adds (seen, cs) {n \<in> object_name at ` set obs. valid_name n}
     (\<lambda>c. \<exists>ob \<in> set obs. c = file_of at ob \<and> valid_name (object_name at ob)) (take_objects at obs (seen, cs))"
proof (induction obs arbitrary: seen cs)
  case Nil
  then show ?case by (simp add: adds_none)
next
  case (Cons ob obs)
  have name: "object_name at ob = entry_name (file_of at ob) \<or> \<not> valid_name (object_name at ob)"
    using file_of_name(1) by metis
  have step: "take_objects at (ob # obs) (seen, cs) =
      (if object_name at ob \<in> seen \<or> \<not> valid_name (object_name at ob) then take_objects at obs (seen, cs)
       else take_objects at obs (insert (object_name at ob) seen, cs @ [file_of at ob]))"
    by (simp add: file_of_def object_name_def Let_def)
  show ?case unfolding step
    by (rule adds_weaken [OF taking_adds [OF Cons.prems name Cons.IH]]) auto
qed

text \<open>A page adds its names, the directories first.\<close>

definition page_child :: "s3_place \<Rightarrow> s3_page \<Rightarrow> node \<Rightarrow> bool" where
  "page_child at page c \<longleftrightarrow> listed_from at page c \<and> (is_directory c \<longleftrightarrow> entry_name c \<in> page_directories at page)"

lemma page_child_directory:
  assumes "common \<in> set (pg_prefixes page)" and "valid_name (prefix_name at common)"
  shows "page_child at page (directory_of at common)"
proof -
  have "prefix_name at common \<in> page_directories at page" using assms by (auto simp: page_directories_def)
  moreover have "listed_from at page (directory_of at common)"
    unfolding listed_from_def directory_of_name [OF assms(2)]
    using assms directory_of_def by blast
  ultimately show ?thesis
    using assms(2) directory_of_name directory_of_directory by (simp only: page_child_def)
qed

lemma page_child_file:
  assumes "ob \<in> set (pg_objects page)" and "valid_name (object_name at ob)"
    and "object_name at ob \<notin> page_directories at page"
  shows "page_child at page (file_of at ob)"
proof -
  have "listed_from at page (file_of at ob)"
    unfolding listed_from_def file_of_name using assms file_of_def by blast
  then show ?thesis using assms(3) by (simp only: page_child_def file_of_name)
qed

lemma take_page_adds:
  assumes "tidy acc"
  shows "adds acc (page_names at page) (page_child at page) (take_page at page acc)"
proof -
  obtain seen cs where acc: "acc = (seen, cs)" by (cases acc)
  let ?mid = "take_prefixes at (pg_prefixes page) (seen, cs)"
  note one = take_prefixes_adds [OF assms [unfolded acc], of at "pg_prefixes page"]
  obtain seen' cs' where mid: "?mid = (seen', cs')" by (cases ?mid)
  have "tidy (seen', cs')" using adds_tidy [OF one] mid by simp
  note two = take_objects_adds [OF this, of at "pg_objects page"]
  have "adds (seen, cs) (page_names at page) (page_child at page) (take_objects at (pg_objects page) (seen', cs'))"
  proof (rule adds_weaken [OF adds_trans [OF one [unfolded mid] two]], goal_cases)
    case 1
    show ?case by (simp only: page_names_def page_directories_def)
  next
    case (2 c)
    then consider common where "common \<in> set (pg_prefixes page)" "c = directory_of at common" "valid_name (prefix_name at common)"
      | ob where "ob \<in> set (pg_objects page)" "c = file_of at ob" "valid_name (object_name at ob)"
          "entry_name c \<notin> page_directories at page"
      unfolding page_directories_def by blast
    then show ?case
    proof cases
      case 1
      then show ?thesis using page_child_directory by blast
    next
      case (2 ob)
      then show ?thesis using page_child_file [OF 2(1,3)] file_of_name(1) by metis
    qed
  qed
  then show ?thesis using mid by (simp add: take_page_def acc)
qed

section \<open>All the pages\<close>

definition all_names :: "s3_place \<Rightarrow> s3_page list \<Rightarrow> string set" where
  "all_names at pages = (\<Union>page \<in> set pages. page_names at page)"

definition pages_child :: "s3_place \<Rightarrow> s3_page list \<Rightarrow> node \<Rightarrow> bool" where
  "pages_child at pages c \<longleftrightarrow> (\<exists>page \<in> set pages. listed_from at page c) \<and>
     (is_directory c \<longleftrightarrow> directory_first at pages (entry_name c))"

lemma finite_page_names [simp]: "finite (page_names at page)"
  by (simp add: page_names_def page_directories_def)

lemma page_then_pages:
  assumes "adds acc (page_names at page) (page_child at page) acc1"
    and "adds acc1 (all_names at pages) (pages_child at pages) acc2"
  shows "adds acc (all_names at (page # pages)) (pages_child at (page # pages)) acc2"
  by (rule adds_weaken [OF adds_trans [OF assms]])
    (auto simp: all_names_def page_child_def pages_child_def)

lemma tidy_finite: "tidy acc \<Longrightarrow> finite (fst acc)"
  by (simp add: tidy_def)

lemma too_many:
  assumes "adds acc ns P acc'" and "max_listing_entries < length (snd acc')" and "fst acc' \<subseteq> N" and "finite N"
  shows "max_listing_entries < card N"
  using assms tidy_length [OF adds_tidy [OF assms(1)]] card_mono [OF assms(4,3)] by simp

text \<open>
  With as much fuel as there are pages, the loop takes all of them, or gives up when there are too
  many names.
\<close>

lemma list_pages_all:
  assumes "pages_read b at token w pages w'" and "tidy acc" and "length pages \<le> fuel"
  shows "if card (fst acc \<union> all_names at pages) \<le> max_listing_entries
    then \<exists>acc'. list_pages fuel b at token acc w = Some (Inr (snd acc'), w') \<and>
                adds acc (all_names at pages) (pages_child at pages) acc'
    else \<exists>w''. list_pages fuel b at token acc w = Some (Inl ErrFailure, w'')"
  using assms
proof (induction arbitrary: acc fuel rule: pages_read.induct)
  case (last_page token w page w')
  obtain n where fuel: "fuel = Suc n" using last_page.prems(2) by (cases fuel) auto
  note page = take_page_adds [OF last_page.prems(1), of at page]
  have none: "adds (take_page at page acc) (all_names at []) (pages_child at []) (take_page at page acc)"
    using adds_none [OF adds_tidy [OF page]] by (simp add: all_names_def)
  note all = page_then_pages [OF page none]
  have "length (snd (take_page at page acc)) = card (fst acc \<union> all_names at [page])"
    using all tidy_length [OF adds_tidy [OF page]] by (simp add: adds_def)
  then have "list_pages fuel b at token acc w =
      Some (if card (fst acc \<union> all_names at [page]) \<le> max_listing_entries then Inr (snd (take_page at page acc)) else Inl ErrFailure, w')"
    using last_page.hyps by (simp add: fuel Let_def)
  then show ?case
    by (cases "card (fst acc \<union> all_names at [page]) \<le> max_listing_entries") (simp_all only: if_True if_False, use all in blast, blast)
next
  case (more_pages token w page w1 t pages w')
  obtain n where fuel: "fuel = Suc n" "length pages \<le> n" using more_pages.prems(2) by (cases fuel) auto
  let ?acc1 = "take_page at page acc"
  note page = take_page_adds [OF more_pages.prems(1), of at page]
  have names: "fst ?acc1 \<union> all_names at pages = fst acc \<union> all_names at (page # pages)"
    using page by (auto simp: adds_def all_names_def)
  have fin: "finite (fst acc \<union> all_names at (page # pages))"
    using tidy_finite [OF more_pages.prems(1)] by (simp add: all_names_def)
  note rest = more_pages.IH [OF adds_tidy [OF page] fuel(2), unfolded names]
  show ?case
  proof (cases "max_listing_entries < length (snd ?acc1)")
    case True
    have "max_listing_entries < card (fst acc \<union> all_names at (page # pages))"
      by (rule too_many [OF page True _ fin]) (use names in blast)
    then show ?thesis using more_pages.hyps True by (simp add: fuel Let_def)
  next
    case False
    then have "list_pages fuel b at token acc w = list_pages n b at (Some t) ?acc1 w1"
      using more_pages.hyps by (simp add: fuel Let_def)
    then show ?thesis using rest page_then_pages [OF page]
      by (cases "card (fst acc \<union> all_names at (page # pages)) \<le> max_listing_entries") (simp_all only: if_True if_False, blast)
  qed
qed

text \<open>More fuel gives the same answer.\<close>

lemma list_pages_more:
  "list_pages fuel b at token acc w = Some r \<Longrightarrow> fuel \<le> k \<Longrightarrow> list_pages k b at token acc w = Some r"
proof (induction fuel arbitrary: k token acc w)
  case (Suc fuel)
  obtain n where n: "k = Suc n" "fuel \<le> n" using Suc.prems(2) by (cases k) auto
  show ?case
    using Suc.prems(1) by (auto simp: n(1) Let_def split: prod.splits sum.splits option.splits if_splits intro: Suc.IH [OF _ n(2)])
qed simp

section \<open>Listings\<close>

lemma sort_by_name:
  assumes "distinct (map entry_name cs)"
  shows "sorted_wrt (<) (map entry_name (sort_key entry_name cs))"
proof -
  have "distinct (map entry_name (sort_key entry_name cs))" using assms by (simp add: distinct_map)
  then show ?thesis by (simp add: strict_sorted_iff)
qed

lemma listed_resolves:
  assumes "s3_resolve b node = Inr at" and "listed_from at page c"
  shows "s3_resolve b c = Inr (sibling at (key_prefix (at_key at) @ entry_name c))"
proof -
  obtain a where c: "c = child_node at a" using assms(2) by (auto simp: listed_from_def)
  have "valid_name (entry_name (Entry a []))" using assms(2) c by (simp add: listed_from_def)
  from child_resolves [OF assms(1) this] show ?thesis using c by simp
qed

definition listing_of :: "'n s3_fs \<Rightarrow> s3_place \<Rightarrow> s3_page list \<Rightarrow> node list \<Rightarrow> bool" where
  "listing_of b at pages cs \<longleftrightarrow> sorted_wrt (<) (map entry_name cs) \<and> entry_name ` set cs = all_names at pages \<and>
     (\<forall>c \<in> set cs. pages_child at pages c \<and>
        s3_resolve b c = Inr (sibling at (key_prefix (at_key at) @ entry_name c)))"

text \<open>
  C32. A listing is what the pages of the store say. Given the pages there are, and fuel for
  as many, the listing has exactly the names of their prefixes and keys that a client can ask
  for, each once and in strictly rising order; each is the node of a prefix or a key of one of
  them, a directory when the first page with that name has it as a prefix; and each leads back
  to that name below the place listed, with the same client, bucket and mask. With more names
  than a listing may have it fails, although docs/s3-backend.md has it return the first of
  them.
\<close>

theorem s3_list_exact:
  assumes "s3_resolve b node = Inr at" and "s3_permits (at_methods at) ''ListObjectsV2''"
    and "pages_read b at None w pages w'" and "length pages \<le> fuel"
  shows "if card (all_names at pages) \<le> max_listing_entries
    then \<exists>cs. s3_list fuel b node w = Some (Inr cs, w') \<and> listing_of b at pages cs
    else \<exists>w''. s3_list fuel b node w = Some (Inl ErrFailure, w'')"
proof -
  have "tidy ({}, [])" by (simp add: tidy_def)
  note all = list_pages_all [OF assms(3) this assms(4), unfolded fst_conv Un_empty_left]
  have list: "s3_list fuel b node w =
      map_option (\<lambda>(r, w1). (map_sum id (sort_key entry_name) r, w1)) (list_pages fuel b at None ({}, []) w)"
    using assms(1,2) by (simp add: s3_list_def)
  show ?thesis
  proof (cases "card (all_names at pages) \<le> max_listing_entries")
    case True
    then obtain acc where run: "list_pages fuel b at None ({}, []) w = Some (Inr (snd acc), w')"
      and acc: "adds ({}, []) (all_names at pages) (pages_child at pages) acc"
      using all by auto
    have "listing_of b at pages (sort_key entry_name (snd acc))"
      unfolding listing_of_def set_sort
      using sort_by_name acc listed_resolves [OF assms(1)] by (auto simp: adds_def tidy_def pages_child_def)
    then show ?thesis using True list run by simp
  next
    case False
    then show ?thesis using all list by auto
  qed
qed

text \<open>
  A name that is a key on one page, and the start of others on a later page, is listed as a file:
  within a page directories are taken first, but the pages are taken one by one.
\<close>

lemma key_before_prefix_is_a_file:
  assumes "n \<in> page_names at page" and "n \<notin> page_directories at page" and "n \<in> page_directories at later"
  shows "\<not> directory_first at [page, later] n"
  using assms by simp

end
