(* ===== verification/S3fs_Masked.thy ===== *)
theory S3fs_Masked
  imports S3fs_Listing Staging_Properties Vfs_Facts
begin

text \<open>
  What the S3 backend may ask of a store on behalf of a node: only what the mask of the node
  permits, of the bucket it names, with the client that serves it, and about its own key, the
  prefix below it, or a name beside it. Every object it stores carries the stamp of the user.
\<close>

section \<open>Calls\<close>

definition beside :: "string \<Rightarrow> string set" where
  "beside key = {rename_target key name | name. valid_name name}"

definition permitted_calls_keep :: "('n \<Rightarrow> bool) \<Rightarrow> 'n s3_fs \<Rightarrow> s3_place \<Rightarrow> bool" where
  "permitted_calls_keep I b at \<longleftrightarrow>
     (let lib = s3_library b; c = at_client at; bucket = at_bucket at; key = at_key at;
          may = s3_permits (at_methods at) in
      (\<forall>k \<in> {key} \<union> beside key. keeps I (head_object lib c bucket k)) \<and>
      (may ''ListObjectsV2'' \<longrightarrow> (\<forall>token. keeps I (next_page lib c bucket (key_prefix key) token)) \<and>
         keeps I (list_some lib c bucket (key_prefix key) 2)) \<and>
      (may ''GetObject'' \<longrightarrow> (\<forall>span. keeps I (get_object lib c bucket key span))) \<and>
      (may ''PutObject'' \<longrightarrow> (\<forall>put. put_bucket put = bucket \<and> put_key put \<in> {key, key_prefix key} \<and>
         put_metadata put = headers_from (s3_ctx b) \<longrightarrow> keeps I (put_object lib c put))) \<and>
      (may ''DeleteObject'' \<longrightarrow> (\<forall>k \<in> {key, key_prefix key}. keeps I (delete_object lib c bucket k))) \<and>
      (may ''CopyObject'' \<longrightarrow> (\<forall>k \<in> beside key. keeps I (copy_object lib c bucket k (copy_source bucket key)))))"

text \<open>The invariant is one of the network: nothing is asked of the disk.\<close>

abbreviation on_network :: "('n \<Rightarrow> bool) \<Rightarrow> ('n, 'z) remote_scheme \<Rightarrow> bool" where
  "on_network I w \<equiv> I (net w)"

lemma keeps_disk [keeps_rules]: "keeps (on_network I) (on_disk m)"
  by (simp add: keeps_def)

lemma keeps_call: "keeps I m \<Longrightarrow> keeps (on_network I) (s3_call m)"
  by (auto simp: keeps_def s3_call_def on_net_def split: prod.splits sum.splits)

lemma keeps_guard: "(c \<Longrightarrow> keeps P a) \<Longrightarrow> (\<not> c \<Longrightarrow> keeps P b) \<Longrightarrow> keeps P (if c then a else b)"
  by simp

lemma keeps_writers: "keeps (on_network I) (\<lambda>w. (r, w\<lparr>staged_writers := f w\<rparr>))"
  by (simp add: keeps_def)

section \<open>Staged writers\<close>

lemma keeps_new_staged: "keeps (on_network I) (new_staged_writer dir commit)"
  by (auto simp: keeps_def new_staged_writer_def on_disk_iff split: prod.splits sum.splits)

lemma closing_staged_net [simp]: "net (snd (closing_staged f rw)) = net (snd rw)"
  by (simp add: closing_staged_def split: prod.splits)

lemma keeps_staged_close:
  fixes commit :: "('n, 'z) commit"
  assumes "\<And>f. keeps (on_network I) (commit f)"
  shows "keeps (on_network I) (staged_writer_close commit fd)"
proof (rule keepsI)
  fix w :: "('n, 'z) remote_scheme"
  assume w: "on_network I w"
  have c: "on_network I (snd (commit f v))" if "net v = net w" for f v
    using keepsD [OF assms] w that by simp
  show "on_network I (snd (staged_writer_close commit fd w))"
    using w by (auto simp: staged_writer_close_def on_disk_iff intro: c split: option.splits prod.splits sum.splits)
qed

lemma staged_handle_keeps:
  fixes commit :: "('n, 'z) commit"
  assumes "\<And>f. keeps (on_network I) (commit f)"
  shows "keeps_writer (on_network I) (staged_handle commit fd)"
proof -
  have "on_network I (snd (staged_write_at fd d off w))" if "on_network I w" for d off and w :: "('n, 'z) remote_scheme"
    using that staged_write_net by (metis surj_pair snd_conv)
  moreover have "on_network I (snd (staged_writer_abort fd w))" if "on_network I w" for w :: "('n, 'z) remote_scheme"
    using that by (simp add: staged_writer_abort_def split: option.splits)
  ultimately show ?thesis
    using keepsD [OF keeps_staged_close [OF assms]] by (simp add: keeps_writer_def staged_handle_def)
qed

section \<open>Operations\<close>

lemma permitted_keep:
  assumes "permitted_calls_keep I b at"
  shows "keeps I (head_object (s3_library b) (at_client at) (at_bucket at) (at_key at))"
    and "k \<in> beside (at_key at) \<Longrightarrow> keeps I (head_object (s3_library b) (at_client at) (at_bucket at) k)"
    and "s3_permits (at_methods at) ''ListObjectsV2'' \<Longrightarrow>
      keeps I (next_page (s3_library b) (at_client at) (at_bucket at) (key_prefix (at_key at)) token)"
    and "s3_permits (at_methods at) ''ListObjectsV2'' \<Longrightarrow>
      keeps I (list_some (s3_library b) (at_client at) (at_bucket at) (key_prefix (at_key at)) 2)"
    and "s3_permits (at_methods at) ''GetObject'' \<Longrightarrow>
      keeps I (get_object (s3_library b) (at_client at) (at_bucket at) (at_key at) span)"
    and "s3_permits (at_methods at) ''PutObject'' \<Longrightarrow> put_bucket put = at_bucket at \<Longrightarrow>
      put_key put = at_key at \<or> put_key put = key_prefix (at_key at) \<Longrightarrow>
      put_metadata put = headers_from (s3_ctx b) \<Longrightarrow> keeps I (put_object (s3_library b) (at_client at) put)"
    and "s3_permits (at_methods at) ''DeleteObject'' \<Longrightarrow> k = at_key at \<or> k = key_prefix (at_key at) \<Longrightarrow>
      keeps I (delete_object (s3_library b) (at_client at) (at_bucket at) k)"
    and "s3_permits (at_methods at) ''CopyObject'' \<Longrightarrow> k \<in> beside (at_key at) \<Longrightarrow>
      keeps I (copy_object (s3_library b) (at_client at) (at_bucket at) k (copy_source (at_bucket at) (at_key at)))"
  using assms unfolding permitted_calls_keep_def Let_def by blast+

lemma head_keeps: "permitted_calls_keep I b at \<Longrightarrow> keeps (on_network I) (s3_head b at)"
  unfolding s3_head_def by (rule keeps_call) (rule permitted_keep(1))

lemma sibling_fields [simp]: "at_client (sibling at k) = at_client at" "at_bucket (sibling at k) = at_bucket at"
    "at_key (sibling at k) = k" "at_methods (sibling at k) = at_methods at" "at_access (sibling at k) = at_access at"
  by (simp_all add: sibling_def)

lemma delete_keeps:
  "permitted_calls_keep I b at \<Longrightarrow> s3_permits (at_methods at) ''DeleteObject'' \<Longrightarrow> keeps (on_network I) (s3_delete b at)"
  "permitted_calls_keep I b at \<Longrightarrow> s3_permits (at_methods at) ''DeleteObject'' \<Longrightarrow>
     keeps (on_network I) (s3_delete b (sibling at (key_prefix (at_key at))))"
  unfolding s3_delete_def by (auto intro!: keeps_call permitted_keep(7))

lemma commit_keeps:
  assumes "permitted_calls_keep I b at" and "s3_permits (at_methods at) ''PutObject''"
  shows "keeps (on_network I) (commit_by_put b at f)"
proof (rule keepsI)
  fix w :: "('a, 'b) remote_scheme"
  assume w: "on_network I w"
  have c: "on_network I (snd (s3_call (put_object (s3_library b) (at_client at) put) v))"
    if "net v = net w" "put_bucket put = at_bucket at" "put_key put = at_key at" "put_metadata put = headers_from (s3_ctx b)"
    for put and v :: "('a, 'b) remote_scheme"
  proof -
    have "keeps I (put_object (s3_library b) (at_client at) put)"
      by (rule permitted_keep(6) [OF assms that(2) _ that(4)]) (simp add: that(3))
    moreover have "on_network I v" using that(1) w by (simp only:)
    ultimately show ?thesis by (rule keepsD [OF keeps_call])
  qed
  obtain r v where r: "on_disk (os_fstat (staged_fd f)) w = (r, v)" "net v = net w"
    by (metis on_disk_fields(1) snd_conv surj_pair)
  show "on_network I (snd (commit_by_put b at f w))"
  proof (cases r)
    case (Inl e)
    then show ?thesis using r w by (simp add: commit_by_put_def)
  next
    case (Inr info)
    obtain data e v' where d: "on_disk (os_read_rest (staged_fd f)) v = ((data, e), v')" "net v' = net w"
      using r(2) by (metis on_disk_fields(1) snd_conv surj_pair)
    define put where "put = \<lparr>put_bucket = at_bucket at, put_key = at_key at, put_body = Some (data, e \<noteq> None),
      put_length = info_size info, put_type = Some s3_upload_content_type, put_metadata = headers_from (s3_ctx b)\<rparr>"
    obtain x u where x: "s3_call (put_object (s3_library b) (at_client at) put) v' = (x, u)" by (metis surj_pair)
    have "on_network I u" using c [OF d(2), of put] x by (simp add: put_def)
    then show ?thesis
      using r w d(1) x by (cases x) (simp_all add: commit_by_put_def Inr put_def)
  qed
qed

lemma keeps_fuelled:
  "(\<And>w r w'. I w \<Longrightarrow> m w = Some (r, w') \<Longrightarrow> I w') \<Longrightarrow> keeps I (\<lambda>w. case m w of None \<Rightarrow> (d, w) | Some r \<Rightarrow> r)"
  by (auto simp: keeps_def split: option.splits)

lemma list_pages_keeps:
  assumes "permitted_calls_keep I b at" and "s3_permits (at_methods at) ''ListObjectsV2''"
    and "on_network I w" and "list_pages fuel b at token acc w = Some (r, w')"
  shows "on_network I w'"
  using assms(3,4)
proof (induction fuel arbitrary: token acc w)
  case (Suc fuel)
  obtain x v where x: "s3_call (next_page (s3_library b) (at_client at) (at_bucket at) (key_prefix (at_key at)) token) w = (x, v)"
    by (metis surj_pair)
  then have "on_network I v"
    using keepsD' [OF keeps_call [OF permitted_keep(3) [OF assms(1,2)]] Suc.prems(1)] by blast
  then show ?case
    using Suc.prems(2) x by (auto simp: Let_def split: sum.splits if_splits option.splits intro: Suc.IH)
qed simp

lemma s3_list_keeps:
  assumes "\<And>at. s3_resolve b node = Inr at \<Longrightarrow> permitted_calls_keep I b at"
  shows "keeps (on_network I) (backend_list (s3_backend fuel b) node)"
  unfolding s3_backend_def backend.simps
  by (rule keeps_fuelled)
    (auto simp: s3_list_def intro: list_pages_keeps [OF assms] split: sum.splits if_splits)

lemma s3_remove_keeps:
  assumes "\<And>at. s3_resolve b node = Inr at \<Longrightarrow> permitted_calls_keep I b at"
  shows "keeps (on_network I) (s3_remove b node)"
  unfolding s3_remove_def remove_directory_def
  by (auto intro!: keeps_bind_lift keeps_guard keeps_bindE keeps_failE keeps_call permitted_keep(4) delete_keeps head_keeps
      dest: assms)

lemma free_keeps:
  assumes "permitted_calls_keep I b at" and "k \<in> beside (at_key at)"
  shows "keeps (on_network I) (must_be_free b (sibling at k))"
proof -
  have "keeps (on_network I) (s3_head b (sibling at k))"
    unfolding s3_head_def by (rule keeps_call) (use permitted_keep(2) [OF assms] in simp)
  then show ?thesis by (auto simp: keeps_def must_be_free_def split: prod.splits sum.splits)
qed

lemma s3_rename_keeps:
  assumes "\<And>at. s3_resolve b node = Inr at \<Longrightarrow> permitted_calls_keep I b at"
  shows "keeps (on_network I) (s3_rename b node from to)"
proof -
  have beside: "rename_target (at_key at) (path_base to) \<in> beside (at_key at)" if "valid_name (path_base to)" for at
    using that by (auto simp: beside_def)
  show ?thesis
    unfolding s3_rename_def
    by (auto intro!: keeps_bind_lift keeps_guard keeps_bindE keeps_failE keeps_call permitted_keep(8) delete_keeps head_keeps free_keeps beside dest: assms)
qed


text \<open>Readers ask for the object they were opened for.\<close>

lemma reader_keeps:
  assumes "permitted_calls_keep I b at" and "s3_permits (at_methods at) ''GetObject''"
  shows "keeps (on_network I) (object_read_at b at whole n off)"
proof (rule keepsI)
  fix w :: "('a, 'b) remote_scheme"
  assume "on_network I w"
  then have "on_network I (snd (s3_call (get_object (s3_library b) (at_client at) (at_bucket at) (at_key at) span) w))" for span
    using keepsD [OF keeps_call [OF permitted_keep(5) [OF assms]]] by blast
  then show "on_network I (snd (object_read_at b at whole n off w))"
    using \<open>on_network I w\<close>
    by (auto simp: object_read_at_def Let_def split: prod.splits sum.splits) (metis snd_conv)+
qed

lemma s3_open_keeps:
  assumes "\<And>at. s3_resolve b node = Inr at \<Longrightarrow> permitted_calls_keep I b at"
  shows "keeps (on_network I) (s3_open b node)"
  unfolding s3_open_def
  by (auto intro!: keeps_bind_lift keeps_guard keeps_bindE keeps_failE keeps_returnE head_keeps dest: assms)

lemma opened_keeps:
  assumes "\<And>at. s3_resolve b node = Inr at \<Longrightarrow> permitted_calls_keep I b at" and "s3_open b node w = (Inr rd, w')"
  shows "keeps_reader (on_network I) rd"
proof -
  obtain at whole where at: "s3_resolve b node = Inr at" "s3_permits (at_methods at) ''GetObject''"
    and rd: "rd = \<lparr>read_at = object_read_at b at whole, read_size = returnE whole, read_close = (\<lambda>w. (None, w))\<rparr>"
    using assms(2) by (auto simp: s3_open_def bindE_Inr_iff split: if_splits)
  show ?thesis
    by (simp add: keeps_reader_def rd keepsD [OF reader_keeps [OF assms(1) [OF at(1)] at(2)]])
qed

lemma s3_create_keeps:
  assumes "\<And>at. s3_resolve b node = Inr at \<Longrightarrow> permitted_calls_keep I b at"
  shows "keeps (on_network I) (s3_create b node)"
  unfolding s3_create_def
  by (auto intro!: keeps_bind_lift keeps_guard keeps_failE keeps_new_staged)

lemma created_keeps:
  assumes "\<And>at. s3_resolve b node = Inr at \<Longrightarrow> permitted_calls_keep I b at" and "s3_create b node w = (Inr wr, w')"
  shows "keeps_writer (on_network I) wr"
proof -
  obtain at where at: "s3_resolve b node = Inr at" "s3_permits (at_methods at) ''PutObject''"
    and wr: "new_staged_writer (s3_staging b) (commit_by_put b at) w = (Inr wr, w')"
    using assms(2) by (auto simp: s3_create_def bindE_Inr_iff split: if_splits)
  obtain fd where "wr = staged_handle (commit_by_put b at) fd" using new_staged_writer_whole [OF wr] by blast
  then show ?thesis using staged_handle_keeps commit_keeps [OF assms(1) [OF at(1)] at(2)] by metis
qed

lemma s3_mkdir_keeps:
  assumes "\<And>at. s3_resolve b node = Inr at \<Longrightarrow> permitted_calls_keep I b at"
  shows "keeps (on_network I) (s3_mkdir b node)"
  unfolding s3_mkdir_def
  by (auto intro!: keeps_bind_lift keeps_guard keeps_failE keeps_call permitted_keep(6) dest: assms)

text \<open>
  C33. Whatever is done with a node, and with the readers and writers opened for it, the store
  is asked nothing but what the node's mask permits, in its bucket, by its client, about its
  own key, the prefix below it and names beside it, each object put carrying the stamp: an
  invariant of the network that those calls keep is kept. A node that resolves to no place
  asks nothing.
\<close>

theorem s3_mask_respected:
  assumes "\<And>at. s3_resolve b node = Inr at \<Longrightarrow> permitted_calls_keep I b at"
  shows "let B = s3_backend fuel b; J = on_network I in
    keeps J (backend_list B node) \<and> keeps J (backend_open B node) \<and> keeps J (backend_create B node) \<and>
    keeps J (backend_mkdir B node) \<and> keeps J (backend_remove B node) \<and>
    (\<forall>from to. keeps J (backend_rename B node from to)) \<and>
    (\<forall>w rd w'. backend_open B node w = (Inr rd, w') \<longrightarrow> keeps_reader J rd) \<and>
    (\<forall>w wr w'. backend_create B node w = (Inr wr, w') \<longrightarrow> keeps_writer J wr)"
  unfolding s3_backend_def Let_def backend.simps
proof (intro conjI allI impI)
  show "keeps (on_network I) (\<lambda>w. case s3_list fuel b node w of None \<Rightarrow> (Inl (ErrOther ''no end of pages''), w) | Some r \<Rightarrow> r)"
    using s3_list_keeps [OF assms, of node fuel] by (simp add: s3_backend_def)
next
  fix w rd w'
  assume "s3_open b node w = (Inr rd, w')"
  then show "keeps_reader (on_network I) rd" by (rule opened_keeps [rotated]) (fact assms)
next
  fix w wr w'
  assume "s3_create b node w = (Inr wr, w')"
  then show "keeps_writer (on_network I) wr" by (rule created_keeps [rotated]) (fact assms)
qed (rule s3_open_keeps s3_create_keeps s3_mkdir_keeps s3_remove_keeps s3_rename_keeps; fact assms)+

end
