(* ===== verification/S3fs_Store.thy ===== *)
theory S3fs_Store
  imports S3fs_Masked
begin

text \<open>
  What the operations of the S3 backend do to the objects a store holds, when the store does what
  its documentation says. What a client can reach is seen as a map from a bucket and a key to bytes; a
  call that changes it and fails may have been carried out or not.
\<close>

section \<open>Stores\<close>

type_synonym objects = "string \<times> string \<rightharpoonup> bytes"

definition answers_heads :: "('n \<Rightarrow> objects) \<Rightarrow> s3_client \<Rightarrow> 'n s3_lib \<Rightarrow> bool" where
  "answers_heads view c lib \<longleftrightarrow> (\<forall>bucket key n r n'. head_object lib c bucket key n = (r, n') \<longrightarrow> view n' = view n \<and>
     (case r of Inr len \<Rightarrow> (\<exists>data. view n (bucket, key) = Some data \<and> len = word_of_nat (length data))
      | Inl e \<Rightarrow> s3_outcome e = ErrNotExist \<longrightarrow> view n (bucket, key) = None))"

definition deletes :: "('n \<Rightarrow> objects) \<Rightarrow> s3_client \<Rightarrow> 'n s3_lib \<Rightarrow> bool" where
  "deletes view c lib \<longleftrightarrow> (\<forall>bucket key n r n'. delete_object lib c bucket key n = (r, n') \<longrightarrow>
     view n' = (view n)((bucket, key) := None) \<or> isl r \<and> view n' = view n)"

text \<open>A body that breaks off is not stored.\<close>

definition puts :: "('n \<Rightarrow> objects) \<Rightarrow> s3_client \<Rightarrow> 'n s3_lib \<Rightarrow> bool" where
  "puts view c lib \<longleftrightarrow> (\<forall>put n r n'. put_object lib c put n = (r, n') \<longrightarrow>
     (case put_body put of
        Some (data, True) \<Rightarrow> isl r \<and> view n' = view n
      | Some (data, False) \<Rightarrow> view n' = (view n)((put_bucket put, put_key put) \<mapsto> data) \<or> isl r \<and> view n' = view n
      | None \<Rightarrow> view n' = (view n)((put_bucket put, put_key put) \<mapsto> []) \<or> isl r \<and> view n' = view n))"

text \<open>The source of a copy is an escaped path, the bucket its first part.\<close>

definition copies :: "('n \<Rightarrow> objects) \<Rightarrow> s3_client \<Rightarrow> 'n s3_lib \<Rightarrow> bool" where
  "copies view c lib \<longleftrightarrow> (\<forall>bucket key source from_bucket from_key n r n'.
     unescape EncodePath source = Some (''/'' @ from_bucket @ ''/'' @ from_key) \<longrightarrow> slash \<notin> set from_bucket \<longrightarrow>
     copy_object lib c bucket key source n = (r, n') \<longrightarrow>
     (\<exists>data. view n (from_bucket, from_key) = Some data \<and> view n' = (view n)((bucket, key) \<mapsto> data)) \<or>
     isl r \<and> view n' = view n)"

text \<open>Asked for some keys, a store names that many of those with the prefix, or all.\<close>

definition names_some :: "('n \<Rightarrow> objects) \<Rightarrow> s3_client \<Rightarrow> 'n s3_lib \<Rightarrow> bool" where
  "names_some view c lib \<longleftrightarrow> (\<forall>bucket start k n r n'. list_some lib c bucket start k n = (r, n') \<longrightarrow> view n' = view n \<and>
     (\<forall>obs. r = Inr obs \<longrightarrow> distinct (map so_key obs) \<and>
        (length obs < k \<longrightarrow> {key. prefix start key \<and> view n (bucket, key) \<noteq> None} \<subseteq> so_key ` set obs)))"

definition honest_store :: "('n \<Rightarrow> objects) \<Rightarrow> s3_client \<Rightarrow> 'n s3_lib \<Rightarrow> bool" where
  "honest_store view c lib \<longleftrightarrow> answers_heads view c lib \<and> deletes view c lib \<and> puts view c lib \<and> copies view c lib \<and> names_some view c lib"

section \<open>The calls\<close>

definition object_of :: "s3_place \<Rightarrow> string \<times> string" where
  "object_of at = (at_bucket at, at_key at)"

lemma s3_call_iff:
  "s3_call m w = (r, w') \<longleftrightarrow> (\<exists>x n. m (net w) = (x, n) \<and> w' = w\<lparr>net := n\<rparr> \<and> r = map_sum s3_outcome id x)"
  by (auto simp: s3_call_def on_net_def split: prod.splits sum.splits)

lemma head_honest:
  assumes "answers_heads view (at_client at) (s3_library b)" and "s3_head b at w = (r, w')"
  shows "view (net w') = view (net w)"
    and "r = Inr len \<Longrightarrow> \<exists>data. view (net w) (object_of at) = Some data \<and> len = word_of_nat (length data)"
    and "r = Inl ErrNotExist \<Longrightarrow> view (net w) (object_of at) = None"
proof -
  obtain x n where x: "head_object (s3_library b) (at_client at) (at_bucket at) (at_key at) (net w) = (x, n)"
      "w' = w\<lparr>net := n\<rparr>" "r = map_sum s3_outcome id x"
    using assms(2) by (auto simp: s3_head_def s3_call_iff)
  note honest = assms(1) [unfolded answers_heads_def, rule_format, OF x(1)]
  show "view (net w') = view (net w)" using honest x(2) by simp
  show "\<exists>data. view (net w) (object_of at) = Some data \<and> len = word_of_nat (length data)" if "r = Inr len"
    using honest that x(3) by (cases x) (auto simp: object_of_def)
  show "view (net w) (object_of at) = None" if "r = Inl ErrNotExist"
    using honest that x(3) by (cases x) (auto simp: object_of_def)
qed

lemma delete_honest:
  assumes "deletes view (at_client at) (s3_library b)" and "s3_delete b at w = (r, w')"
  shows "view (net w') = (view (net w))(object_of at := None) \<or> isl r \<and> view (net w') = view (net w)"
proof -
  obtain x n where x: "delete_object (s3_library b) (at_client at) (at_bucket at) (at_key at) (net w) = (x, n)"
      "w' = w\<lparr>net := n\<rparr>" "r = map_sum s3_outcome id x"
    using assms(2) by (auto simp: s3_delete_def s3_call_iff)
  from assms(1) [unfolded deletes_def, rule_format, OF x(1)] x(2,3)
  show ?thesis by (cases x) (auto simp: object_of_def)
qed

lemma copy_source_unescapes: "unescape EncodePath (copy_source bucket key) = Some (''/'' @ bucket @ ''/'' @ key)"
  by (simp add: copy_source_def escaped_path_def empty_url_def)

lemma bucket_no_slash: "s3_resolve b node = Inr at \<Longrightarrow> slash \<notin> set (at_bucket at)"
  using s3_resolve_fields(1) valid_bucket_plain plain_host_not_in(4) by blast

lemma copy_honest:
  assumes "copies view (at_client at) (s3_library b)" and "slash \<notin> set (at_bucket at)"
    and "s3_call (copy_object (s3_library b) (at_client at) (at_bucket at) key (copy_source (at_bucket at) (at_key at))) w = (r, w')"
  shows "(\<exists>data. view (net w) (object_of at) = Some data \<and>
            view (net w') = (view (net w))(object_of (sibling at key) \<mapsto> data)) \<or>
         isl r \<and> view (net w') = view (net w)"
proof -
  obtain x n where x: "copy_object (s3_library b) (at_client at) (at_bucket at) key (copy_source (at_bucket at) (at_key at)) (net w) = (x, n)"
      "w' = w\<lparr>net := n\<rparr>" "r = map_sum s3_outcome id x"
    using assms(3) by (auto simp: s3_call_iff)
  from assms(1) [unfolded copies_def, rule_format, OF copy_source_unescapes assms(2) x(1)] x(2,3)
  show ?thesis by (cases x) (auto simp: object_of_def)
qed


lemma put_honest:
  assumes "puts view (at_client at) (s3_library b)" and "s3_call (put_object (s3_library b) (at_client at) put) w = (r, w')"
    and "put_bucket put = at_bucket at"
  shows "case put_body put of
      Some (data, True) \<Rightarrow> isl r \<and> view (net w') = view (net w)
    | Some (data, False) \<Rightarrow> view (net w') = (view (net w))(object_of (sibling at (put_key put)) \<mapsto> data) \<or>
        isl r \<and> view (net w') = view (net w)
    | None \<Rightarrow> view (net w') = (view (net w))(object_of (sibling at (put_key put)) \<mapsto> []) \<or>
        isl r \<and> view (net w') = view (net w)"
proof -
  obtain x n where x: "put_object (s3_library b) (at_client at) put (net w) = (x, n)"
      "w' = w\<lparr>net := n\<rparr>" "r = map_sum s3_outcome id x"
    using assms(2) by (auto simp: s3_call_iff)
  from assms(1) [unfolded puts_def, rule_format, OF x(1)] x(2,3) assms(3)
  show ?thesis by (cases x) (auto simp: object_of_def split: option.splits prod.splits bool.splits)
qed

section \<open>Removing, making and renaming\<close>

text \<open>What an operation may do: carry out a change, or, if it fails, perhaps nothing.\<close>

definition carried_out :: "(objects \<Rightarrow> objects) \<Rightarrow> objects \<Rightarrow> verror + 'a \<Rightarrow> objects \<Rightarrow> bool" where
  "carried_out change s r s' \<longleftrightarrow> s' = change s \<or> isl r \<and> s' = s"

definition without :: "s3_place \<Rightarrow> objects \<Rightarrow> objects" where
  "without at s = s(object_of at := None)"

definition moved_to :: "s3_place \<Rightarrow> string \<Rightarrow> objects \<Rightarrow> objects" where
  "moved_to at key s = (s(object_of (sibling at key) := s (object_of at)))(object_of at := None)"

definition copied_to :: "s3_place \<Rightarrow> string \<Rightarrow> objects \<Rightarrow> objects" where
  "copied_to at key s = s(object_of (sibling at key) := s (object_of at))"

lemma remove_file_store:
  assumes "s3_resolve b node = Inr at" and "\<not> is_directory node" and "honest_store view (at_client at) (s3_library b)"
    and "s3_remove b node w = (r, w')"
  shows "carried_out (without at) (view (net w)) r (view (net w')) \<and>
    (view (net w) (object_of at) = None \<longrightarrow> isl r)"
proof (cases "at_key at = [] \<or> \<not> s3_permits (at_methods at) ''DeleteObject''")
  case True
  then show ?thesis using assms(1,2,4) by (auto simp: s3_remove_def carried_out_def split: if_splits)
next
  case False
  obtain x w1 where x: "s3_head b at w = (x, w1)" by (metis surj_pair)
  have h: "answers_heads view (at_client at) (s3_library b)" and d: "deletes view (at_client at) (s3_library b)"
    using assms(3) by (simp_all add: honest_store_def)
  note head = head_honest [OF h x]
  show ?thesis
  proof (cases x)
    case (Inl e)
    then show ?thesis using False assms(1,2,4) x head(1) by (auto simp: s3_remove_def carried_out_def)
  next
    case (Inr len)
    then have "s3_delete b at w1 = (r, w')" using False assms(1,2,4) x by (simp add: s3_remove_def)
    from delete_honest [OF d this] show ?thesis using head(1) head(2) [OF Inr] by (auto simp: carried_out_def without_def)
  qed
qed

lemma only_marker:
  assumes "distinct (map so_key obs)" and "\<not> list_ex (\<lambda>ob. so_key ob \<noteq> k) obs"
  shows "length obs < 2 \<and> so_key ` set obs \<subseteq> {k}"
proof -
  have "\<forall>ob \<in> set obs. so_key ob = k" using assms(2) by (auto simp: list_ex_iff)
  then have s: "so_key ` set obs \<subseteq> {k}" by blast
  then have "card (set (map so_key obs)) \<le> 1" by (metis card.empty card_insert_disjoint card_mono empty_iff finite.emptyI finite.insertI list.set_map One_nat_def)
  then show ?thesis using s distinct_card [OF assms(1)] by simp
qed

lemma remove_directory_store:
  assumes "s3_resolve b node = Inr at" and "is_directory node" and "honest_store view (at_client at) (s3_library b)"
    and "s3_remove b node w = (r, w')"
  shows "carried_out (without (sibling at (key_prefix (at_key at)))) (view (net w)) r (view (net w')) \<and>
    (\<not> isl r \<longrightarrow> (\<forall>key. strict_prefix (key_prefix (at_key at)) key \<longrightarrow> view (net w) (object_of (sibling at key)) = None))"
proof (cases "at_key at = [] \<or> \<not> s3_permits (at_methods at) ''ListObjectsV2'' \<or> \<not> s3_permits (at_methods at) ''DeleteObject''")
  case True
  then show ?thesis using assms(1,2,4) by (auto simp: s3_remove_def remove_directory_def carried_out_def split: if_splits)
next
  case False
  let ?p = "key_prefix (at_key at)"
  have n: "names_some view (at_client at) (s3_library b)" and d: "deletes view (at_client at) (s3_library b)"
    using assms(3) by (simp_all add: honest_store_def)
  obtain x w1 where x: "s3_call (list_some (s3_library b) (at_client at) (at_bucket at) ?p 2) w = (x, w1)" by (metis surj_pair)
  then obtain y m where y: "list_some (s3_library b) (at_client at) (at_bucket at) ?p 2 (net w) = (y, m)"
      "w1 = w\<lparr>net := m\<rparr>" "x = map_sum s3_outcome id y"
    by (auto simp: s3_call_iff)
  note listed = n [unfolded names_some_def, rule_format, OF y(1)]
  have run: "s3_remove b node w = bindE (\<lambda>w. (x, w1)) (\<lambda>found.
      if list_ex (\<lambda>ob. so_key ob \<noteq> ?p) found then failE ErrFailure else s3_delete b (sibling at ?p)) w"
    using False assms(1,2) x by (simp add: s3_remove_def remove_directory_def bindE_def)
  show ?thesis
  proof (cases "\<exists>obs. y = Inr obs \<and> \<not> list_ex (\<lambda>ob. so_key ob \<noteq> ?p) obs")
    case False
    then show ?thesis using assms(4) run y listed by (cases y) (auto simp: carried_out_def)
  next
    case True
    then obtain obs where obs: "y = Inr obs" "\<not> list_ex (\<lambda>ob. so_key ob \<noteq> ?p) obs" by blast
    then have del: "s3_delete b (sibling at ?p) w1 = (r, w')" using assms(4) run y(3) by simp
    have "deletes view (at_client (sibling at ?p)) (s3_library b)" using d by simp
    from delete_honest [OF this del] have c: "carried_out (without (sibling at ?p)) (view (net w)) r (view (net w'))"
      using y(2) listed by (simp add: carried_out_def without_def)
    have "length obs < 2" "so_key ` set obs \<subseteq> {?p}" using only_marker listed obs by blast+
    then have "{key. prefix ?p key \<and> view (net w) (at_bucket at, key) \<noteq> None} \<subseteq> {?p}"
      using listed obs(1) by blast
    then show ?thesis using c by (auto simp: object_of_def strict_prefix_def)
  qed
qed

lemma mkdir_store:
  assumes "s3_resolve b node = Inr at" and "honest_store view (at_client at) (s3_library b)" and "s3_mkdir b node w = (r, w')"
  shows "carried_out (\<lambda>s. s(object_of (sibling at (key_prefix (at_key at))) \<mapsto> [])) (view (net w)) r (view (net w'))"
proof (cases "at_key at = [] \<or> \<not> s3_permits (at_methods at) ''PutObject''")
  case True
  then show ?thesis using assms(1,3) by (auto simp: s3_mkdir_def carried_out_def split: if_splits)
next
  case False
  have p: "puts view (at_client at) (s3_library b)" using assms(2) by (simp add: honest_store_def)
  from False assms(1,3) have "s3_call (put_object (s3_library b) (at_client at)
      \<lparr>put_bucket = at_bucket at, put_key = key_prefix (at_key at), put_body = None, put_length = 0,
       put_type = None, put_metadata = headers_from (s3_ctx b)\<rparr>) w = (r, w')"
    by (simp add: s3_mkdir_def)
  from put_honest [OF p this] show ?thesis by (simp add: carried_out_def)
qed

definition renamed :: "s3_place \<Rightarrow> string \<Rightarrow> objects \<Rightarrow> verror + unit \<Rightarrow> objects \<Rightarrow> bool" where
  "renamed at key s r s' \<longleftrightarrow>
     (let possible = s (object_of at) \<noteq> None \<and> s (object_of (sibling at key)) = None in
      possible \<and> s' = moved_to at key s \<or> isl r \<and> (s' = s \<or> possible \<and> s' = copied_to at key s))"

lemma must_be_free_honest:
  assumes "answers_heads view (at_client at) (s3_library b)" and "must_be_free b at w = (r, w')"
  shows "view (net w') = view (net w)" and "r = Inr () \<Longrightarrow> view (net w) (object_of at) = None"
proof -
  obtain x w1 where x: "s3_head b at w = (x, w1)" by (metis surj_pair)
  note head = head_honest [OF assms(1) x]
  show "view (net w') = view (net w)"
    using assms(2) x head(1) by (auto simp: must_be_free_def split: sum.splits if_splits)
  show "view (net w) (object_of at) = None" if "r = Inr ()"
    using assms(2) x that head(3) by (auto simp: must_be_free_def split: sum.splits if_splits)
qed

lemma copy_then_delete:
  assumes "copies view (at_client at) (s3_library b)" and "deletes view (at_client at) (s3_library b)" and "slash \<notin> set (at_bucket at)"
    and "view (net w) (object_of at) \<noteq> None" and "view (net w) (object_of (sibling at key)) = None"
    and "bindE (s3_call (copy_object (s3_library b) (at_client at) (at_bucket at) key (copy_source (at_bucket at) (at_key at))))
           (\<lambda>_. s3_delete b at) w = (r, w')"
  shows "renamed at key (view (net w)) r (view (net w'))"
proof -
  obtain x w1 where x: "s3_call (copy_object (s3_library b) (at_client at) (at_bucket at) key
      (copy_source (at_bucket at) (at_key at))) w = (x, w1)" by (metis surj_pair)
  note copy = copy_honest [OF assms(1,3) x]
  show ?thesis
  proof (cases x)
    case (Inl e)
    then show ?thesis using assms(4-6) x copy by (auto simp: renamed_def Let_def copied_to_def)
  next
    case (Inr u)
    then have d: "s3_delete b at w1 = (r, w')" using assms(6) x by simp
    have "view (net w1) = copied_to at key (view (net w))" using copy Inr by (auto simp: copied_to_def)
    then show ?thesis
      using delete_honest [OF assms(2) d] assms(4,5) by (auto simp: renamed_def Let_def copied_to_def moved_to_def)
  qed
qed

lemma rename_store:
  assumes "s3_resolve b node = Inr at" and "honest_store view (at_client at) (s3_library b)" and "s3_rename b node from to w = (r, w')"
  shows "renamed at (rename_target (at_key at) (path_base to)) (view (net w)) r (view (net w'))"
proof (cases "path_dir from \<noteq> path_dir to \<or> \<not> valid_name (path_base to) \<or> is_directory node \<or> at_key at = [] \<or>
    \<not> s3_permits (at_methods at) ''CopyObject'' \<or> \<not> s3_permits (at_methods at) ''DeleteObject''")
  case True
  then have "isl r \<and> w' = w" using assms(1,3) by (auto simp: s3_rename_def split: if_splits)
  then show ?thesis by (simp add: renamed_def Let_def)
next
  case False
  let ?k = "rename_target (at_key at) (path_base to)"
  have honest: "answers_heads view (at_client at) (s3_library b)" "copies view (at_client at) (s3_library b)" "deletes view (at_client at) (s3_library b)"
    using assms(2) by (simp_all add: honest_store_def)
  obtain x w1 where x: "s3_head b at w = (x, w1)" by (metis surj_pair)
  obtain y w2 where y: "must_be_free b (sibling at ?k) w1 = (y, w2)" by (metis surj_pair)
  have "answers_heads view (at_client (sibling at ?k)) (s3_library b)" using honest(1) by simp
  note head = head_honest [OF honest(1) x] and free = must_be_free_honest [OF this y]
  have same: "view (net w2) = view (net w)" "view (net w1) = view (net w)" using head(1) free(1) by simp_all
  have run: "s3_rename b node from to w = (case x of Inl e \<Rightarrow> (Inl e, w1) | Inr len \<Rightarrow>
      if sint max_single_request_size < sint len then (Inl ErrUnsupported, w1)
      else (case y of Inl e \<Rightarrow> (Inl e, w2) | Inr _ \<Rightarrow>
        bindE (s3_call (copy_object (s3_library b) (at_client at) (at_bucket at) ?k (copy_source (at_bucket at) (at_key at))))
           (\<lambda>_. s3_delete b at) w2))"
    using False assms(1) x y by (simp add: s3_rename_def bindE_def split: sum.splits)
  show ?thesis
  proof (cases "\<exists>len. x = Inr len \<and> sint len \<le> sint max_single_request_size \<and> y = Inr ()")
    case False
    then have "isl r \<and> (w' = w1 \<or> w' = w2)" using assms(3) run by (auto split: sum.splits if_splits)
    then show ?thesis using same by (auto simp: renamed_def Let_def)
  next
    case True
    then obtain len where len: "x = Inr len" "sint len \<le> sint max_single_request_size" "y = Inr ()" by blast
    then have "bindE (s3_call (copy_object (s3_library b) (at_client at) (at_bucket at) ?k (copy_source (at_bucket at) (at_key at))))
           (\<lambda>_. s3_delete b at) w2 = (r, w')" using assms(3) run by simp
    from copy_then_delete [OF honest(2,3) bucket_no_slash [OF assms(1)] _ _ this]
    show ?thesis using head(2) [OF len(1)] free(2) [OF len(3)] same by auto
  qed
qed

text \<open>
  C34. On a store that keeps its word, making a directory, removing and renaming do to the
  objects what they say and nothing else. A directory made is its empty marker. A removal
  takes away one key: of a file, which was there; of a directory, only when no key lies below
  its prefix. A rename moves the contents to a name that was free. An operation that fails has
  changed nothing or been carried out, but for a rename, which may have left the contents
  under both names.
\<close>

theorem s3_changes_objects:
  assumes "s3_resolve b node = Inr at" and "honest_store view (at_client at) (s3_library b)"
  shows "let s = view (net w); key = at_key at; target = (if is_directory node then sibling at (key_prefix key) else at) in
    (\<forall>r w'. s3_mkdir b node w = (r, w') \<longrightarrow>
       carried_out (\<lambda>s. s(object_of (sibling at (key_prefix key)) \<mapsto> [])) s r (view (net w'))) \<and>
    (\<forall>r w'. s3_remove b node w = (r, w') \<longrightarrow> carried_out (without target) s r (view (net w')) \<and>
       (\<not> isl r \<longrightarrow> (if is_directory node then \<forall>k. strict_prefix (key_prefix key) k \<longrightarrow> s (object_of (sibling at k)) = None
                   else s (object_of at) \<noteq> None))) \<and>
    (\<forall>from to r w'. s3_rename b node from to w = (r, w') \<longrightarrow>
       renamed at (rename_target key (path_base to)) s r (view (net w')))"
  using mkdir_store [OF assms, of w] remove_file_store [OF assms(1) _ assms(2), of w]
    remove_directory_store [OF assms(1) _ assms(2), of w] rename_store [OF assms, of _ _ w]
  unfolding Let_def by (cases "is_directory node") (simp_all, blast+)

end
