(* ===== verification/S3fs_Upload.thy ===== *)
theory S3fs_Upload
  imports S3fs_Store
begin

text \<open>
  An upload to the S3 backend: what the store holds once it is closed.
\<close>

section \<open>Handing the staging file over\<close>

lemma os_fstat_same: "os_fstat fd h = (r, h') \<Longrightarrow> handles h' = handles h \<and> inodes h' = inodes h \<and> positions h' = positions h"
  by (auto simp: os_fstat_def os_call_def Let_def split: option.splits handle.splits)

lemma os_read_rest_whole:
  assumes "os_read_rest fd h = ((data, e), h')" and "handles h fd = Some (WriteHandle i)"
    and "map_option contents (inodes h i) = Some whole" and "positions h fd = 0" and "e = None"
  shows "data = whole"
  using assms by (auto simp: os_read_rest_def inode_of_def Let_def split: option.splits prod.splits)

lemma commit_stores:
  assumes "puts view (at_client at) (s3_library b)" and "commit_by_put b at f w = (r, w')"
    and "staged_contents w (staged_fd f) = Some whole" and "positions (disk w) (staged_fd f) = 0"
  shows "view (net w') = (view (net w))(object_of at \<mapsto> whole) \<or> r \<noteq> None \<and> view (net w') = view (net w)"
proof -
  let ?fd = "staged_fd f"
  obtain i where i: "handles (disk w) ?fd = Some (WriteHandle i)" "map_option contents (inodes (disk w) i) = Some whole"
    using assms(3) by (auto simp: staged_contents_def split: option.splits handle.splits)
  obtain x h where x: "os_fstat ?fd (disk w) = (x, h)" by (metis surj_pair)
  obtain data e h2 where d: "os_read_rest ?fd h = ((data, e), h2)" by (metis surj_pair)
  have whole: "e = None \<Longrightarrow> data = whole"
    by (rule os_read_rest_whole [OF d]) (use os_fstat_same [OF x] i assms(4) in simp_all)
  show ?thesis
  proof (cases "\<exists>info. x = Inr info \<and> sint (info_size info) \<le> sint max_single_request_size")
    case False
    then have "r \<noteq> None \<and> w' = w\<lparr>disk := h\<rparr>"
      using assms(2) x by (cases x) (auto simp: commit_by_put_def on_disk_def)
    then show ?thesis by simp
  next
    case True
    then obtain info where info: "x = Inr info" "sint (info_size info) \<le> sint max_single_request_size" by blast
    define put where "put = \<lparr>put_bucket = at_bucket at, put_key = at_key at, put_body = Some (data, e \<noteq> None),
      put_length = info_size info, put_type = Some s3_upload_content_type, put_metadata = headers_from (s3_ctx b)\<rparr>"
    obtain y w3 where y: "s3_call (put_object (s3_library b) (at_client at) put) (w\<lparr>disk := h2\<rparr>) = (y, w3)" by (metis surj_pair)
    have "\<not> sint max_single_request_size < sint (info_size info)" using info(2) by simp
    then have "commit_by_put b at f w = (case y of Inl x \<Rightarrow> (Some x, w3) | Inr _ \<Rightarrow> (None, w3))"
      using x d y unfolding commit_by_put_def on_disk_def info(1) by (simp flip: put_def del: not_None_eq)
    then have "r \<noteq> None \<longleftrightarrow> isl y" "w' = w3" using assms(2) by (cases y; simp)+
    moreover have "case put_body put of Some (d, brk) \<Rightarrow>
        (if brk then isl y \<and> view (net w3) = view (net w)
         else view (net w3) = (view (net w))(object_of (sibling at (at_key at)) \<mapsto> d) \<or> isl y \<and> view (net w3) = view (net w))
      | None \<Rightarrow> True"
      using put_honest [OF assms(1) y] by (auto simp: put_def split: option.splits bool.splits)
    moreover have "sibling at (at_key at) = at" by (simp add: sibling_def)
    ultimately show ?thesis using whole by (cases e) (auto simp: put_def)
  qed
qed

lemma s3_call_writers: "s3_call m w = (r, w') \<Longrightarrow> staged_writers w' = staged_writers w"
  by (auto simp: s3_call_iff)

lemma commit_leaves_writers: "leaves_writers (commit_by_put b at)"
  unfolding leaves_writers_def commit_by_put_def
  by (auto simp: on_disk_iff dest!: s3_call_writers split: prod.splits sum.splits)

section \<open>Uploads\<close>

definition stored :: "s3_place \<Rightarrow> staged_event list \<Rightarrow> objects \<Rightarrow> objects" where
  "stored at es s = s(object_of at \<mapsto> foldl apply_write [] (map written es))"

text \<open>
  C35. An upload is stored when it is closed and as a whole: a close that succeeds has put
  exactly the bytes of the writes, all of which were accepted, under the key, and nothing else
  has changed. A close that fails has done that or nothing; after a write that failed, an
  abort or an earlier close it fails and nothing is stored, whatever happens on the disk in
  between.
\<close>

theorem s3_upload_stored:
  assumes "s3_resolve b node = Inr at" and "puts view (at_client at) (s3_library b)" and "s3_create b node w = (Inr wr, w0)"
  shows "\<exists>fd i. wr = staged_handle (commit_by_put b at) fd \<and>
    (\<forall>es w1 r w2. staged_history (commit_by_put b at) fd i w0 es w1 \<longrightarrow> write_close wr w1 = (r, w2) \<longrightarrow>
       (r = None \<longrightarrow> list_all accepted es \<and> view (net w2) = stored at es (view (net w1))) \<and>
       (r \<noteq> None \<longrightarrow> view (net w2) = view (net w1) \<or> list_all accepted es \<and> view (net w2) = stored at es (view (net w1))))"
proof -
  let ?c = "commit_by_put b at"
  have "new_staged_writer (s3_staging b) ?c w = (Inr wr, w0)"
    using assms(1,3) by (auto simp: s3_create_def split: if_splits)
  then obtain fd i where fd: "wr = staged_handle ?c fd" "staged_state fd i [] w0" using new_staged_writer_whole by blast
  have "(r = None \<longrightarrow> list_all accepted es \<and> view (net w2) = stored at es (view (net w1))) \<and>
      (r \<noteq> None \<longrightarrow> view (net w2) = view (net w1) \<or> list_all accepted es \<and> view (net w2) = stored at es (view (net w1)))"
    if h: "staged_history ?c fd i w0 es w1" and c: "write_close wr w1 = (r, w2)" for es w1 r w2
  proof -
    have c: "staged_writer_close ?c fd w1 = (r, w2)" using c fd(1) by (simp add: staged_handle_def)
    consider "handed_over ?c fd es w1 r w2" | "held_back es w1 r w2"
      using staged_close_verdict [OF commit_leaves_writers fd(2) h c] by blast
    then show ?thesis
    proof cases
      case 1
      then obtain f wc wd where f: "list_all accepted es" "?c f wc = (r, wd)" "w2 = snd (on_disk (staging_close f) wd)"
          "staged_fd f = fd" "net wc = net w1" "positions (disk wc) fd = 0"
          "staged_contents wc fd = Some (foldl apply_write [] (map written es))"
        unfolding handed_over_def by blast
      from commit_stores [OF assms(2) f(2)] f show ?thesis by (auto simp: stored_def)
    next
      case 2
      then show ?thesis by (simp add: held_back_def)
    qed
  qed
  then show ?thesis using fd(1) by blast
qed

end
