(* ===== verification/S3fs_Properties.thy ===== *)
theory S3fs_Properties
  imports S3fs_Upload
begin

text \<open>
  The nodes the S3 backend makes are entries a configuration could state, but for the mode they
  display; and samples of a store, on which the properties of the backend hold.
\<close>

section \<open>The nodes it makes\<close>

definition not_displayed :: "node \<Rightarrow> node" where
  "not_displayed c = Entry ((attrs_of c)\<lparr>Permissions := None\<rparr>) (Children c)"

text \<open>What is read and what is written is displayed for all, or for none.\<close>

definition displayed_modes :: "uint32 set" where "displayed_modes = {0, 292, 146, 438}"

definition well_formed :: "s3_place \<Rightarrow> node \<Rightarrow> bool" where
  "well_formed at c \<longleftrightarrow> entry_validate (not_displayed c) = None \<and>
     AllowedMethods (attrs_of c) = at_methods at \<and> S3 (attrs_of c) = at_access at \<and>
     (\<exists>mode \<in> displayed_modes. Permissions (attrs_of c) = Some mode)"

lemma projected_displayed: "\<exists>mode \<in> displayed_modes. projected_permissions methods = Some mode"
  by (simp add: projected_permissions_def displayed_modes_def)

lemma not_a_file_url: "url_parse raw = Some u \<Longrightarrow> u_scheme u = s3_scheme \<Longrightarrow> local_path raw = None"
  by (simp add: local_path_def s3_scheme_def file_scheme_def)

lemma s3_location_scheme: "s3_location raw \<noteq> None \<Longrightarrow> \<exists>u. url_parse raw = Some u \<and> u_scheme u = s3_scheme"
  by (auto simp: s3_location_def split: option.splits if_splits)

lemma backend_not_empty: "s3_location raw \<noteq> None \<Longrightarrow> raw \<noteq> []"
proof
  assume "s3_location raw \<noteq> None" "raw = []"
  moreover have "s3_location [] = None" by code_simp
  ultimately show False by simp
qed

lemma methods_of_s3:
  "s3_location raw \<noteq> None \<Longrightarrow>
     validate_methods methods raw = (if methods = [] then None else method_loop s3_methods [] methods)"
  using s3_location_scheme [of raw] not_a_file_url [of raw] backend_not_empty [of raw] by (auto simp: validate_methods_def)

lemma access_checked:
  assumes "s3_resolve b node = Inr at"
  shows "case at_access at of None \<Rightarrow> True | Some a \<Rightarrow> s3_access_validate a = None"
  using assms by (auto simp: s3_resolve_def Let_def split: option.splits prod.splits if_splits)

lemma resolved_location: "s3_resolve b node = Inr at \<Longrightarrow> s3_location (entry_backend node) \<noteq> None"
  by (auto simp: s3_resolve_def split: option.splits)

lemma child_well_formed:
  assumes at: "s3_resolve b node = Inr at" and methods: "validate_methods (at_methods at) (entry_backend node) = None"
    and name: "valid_name (entry_name (Entry a []))" and one: "(Directory a = []) \<noteq> (File a = [])"
    and sizes: "0 \<le> sint (Size a)" "0 \<le> sint (MaxUploadSize a)"
  shows "well_formed at (child_node at a)"
proof -
  let ?url = "s3_child_url at (entry_name (Entry a []))"
  obtain path where "key_names (at_key at) path" using s3_resolve_fields(2) [OF at] by blast
  from s3_location_key_url [OF s3_resolve_fields(1) [OF at] key_names_child [OF this name]]
  have loc: "s3_location ?url \<noteq> None" by (simp add: child_url_key)
  have parsed: "url_parse ?url = Some (empty_url\<lparr>u_scheme := s3_scheme, u_host := at_bucket at,
      u_path := ''/'' @ key_prefix (at_key at) @ entry_name (Entry a [])\<rparr>)"
    unfolding child_url_key using s3_resolve_fields(1) [OF at] by (rule key_url_parsed)
  have url: "validate_backend_url ?url = None"
    using parsed loc by (auto simp: validate_backend_url_def empty_url_def s3_scheme_def file_scheme_def check_None)
  have "validate_methods (at_methods at) ?url = None"
    using methods methods_of_s3 [OF loc, of "at_methods at"] methods_of_s3 [OF resolved_location [OF at], of "at_methods at"]
    by simp
  moreover have "validate_access (at_access at) ?url = None"
    using access_checked [OF at] loc by (simp add: validate_access_def split: option.splits)
  ultimately have "entry_validate (not_displayed (child_node at a)) = None"
    using name one sizes url backend_not_empty [OF loc]
    by (auto simp: not_displayed_def child_node_def first_error_None check_None validate_permissions_def entry_name_def Let_def)
  then show ?thesis
    using projected_displayed by (auto simp: well_formed_def)
qed

text \<open>Every listing is made of pages the store gave.\<close>

definition counted_pages :: "'n s3_lib \<Rightarrow> bool" where
  "counted_pages lib \<longleftrightarrow> (\<forall>c bucket start token n page n'. next_page lib c bucket start token n = (Inr page, n') \<longrightarrow>
     (\<forall>ob \<in> set (pg_objects page). 0 \<le> sint (so_size ob)))"

definition from_counted :: "s3_place \<Rightarrow> node \<Rightarrow> bool" where
  "from_counted at c \<longleftrightarrow> (\<exists>page. listed_from at page c \<and> (\<forall>ob \<in> set (pg_objects page). 0 \<le> sint (so_size ob)))"

lemma list_pages_counted:
  assumes "counted_pages (s3_library b)" and "tidy acc" and "\<forall>c \<in> set (snd acc). from_counted at c"
    and "list_pages fuel b at token acc w = Some (Inr cs, w')"
  shows "\<forall>c \<in> set cs. from_counted at c"
  using assms(2-4)
proof (induction fuel arbitrary: token acc w)
  case (Suc fuel)
  obtain page w1 where call: "s3_call (next_page (s3_library b) (at_client at) (at_bucket at) (key_prefix (at_key at)) token) w = (Inr page, w1)"
    using Suc.prems(3) by (auto split: prod.splits sum.splits)
  let ?acc1 = "take_page at page acc"
  have counted: "\<forall>ob \<in> set (pg_objects page). 0 \<le> sint (so_size ob)"
  proof -
    obtain x n where x: "next_page (s3_library b) (at_client at) (at_bucket at) (key_prefix (at_key at)) token (net w) = (x, n)"
        "Inr page = map_sum s3_outcome id x"
      using call by (auto simp: s3_call_iff)
    then have "x = Inr page" by (cases x) simp_all
    then show ?thesis using x(1) assms(1) unfolding counted_pages_def by blast
  qed
  note adds = take_page_adds [OF Suc.prems(1), of at page]
  have "\<forall>c \<in> set (snd ?acc1). from_counted at c"
    using adds Suc.prems(2) counted by (auto simp: adds_def page_child_def from_counted_def)
  from Suc.IH [OF adds_tidy [OF adds] this] this show ?case
    using Suc.prems(3) call by (auto simp: Let_def split: if_splits option.splits)
qed simp

lemma from_counted_well_formed:
  assumes at: "s3_resolve b node = Inr at" and methods: "validate_methods (at_methods at) (entry_backend node) = None"
    and c: "from_counted at c"
  shows "well_formed at c"
proof -
  obtain page where page: "listed_from at page c" "\<forall>ob \<in> set (pg_objects page). 0 \<le> sint (so_size ob)"
    using c by (auto simp: from_counted_def)
  then have name: "valid_name (entry_name c)" by (simp add: listed_from_def)
  from page(1) consider common where "c = child_node at (no_attrs\<lparr>Directory := prefix_name at common\<rparr>)"
    | ob where "ob \<in> set (pg_objects page)" "c = child_node at (no_attrs\<lparr>File := object_name at ob, Size := so_size ob, Mtime := so_modified ob\<rparr>)"
    by (auto simp: listed_from_def)
  then show ?thesis
  proof cases
    case 1
    show ?thesis unfolding 1
      by (rule child_well_formed [OF at methods])
        (use name valid_name_no_slash in \<open>auto simp: 1 no_attrs_def entry_name_def split: if_splits\<close>)
  next
    case (2 ob)
    show ?thesis unfolding 2(2)
      by (rule child_well_formed [OF at methods])
        (use name valid_name_no_slash page(2) 2(1) in \<open>auto simp: 2(2) no_attrs_def entry_name_def split: if_splits\<close>)
  qed
qed

text \<open>
  C36. Every node the backend makes of a listing, and of a name for a new file, is an entry a
  configuration may state, but for the mode it displays: it is one of a file and a directory,
  under a valid name, with an S3 URL, methods of S3, credentials that pass and no negative
  size; the mask and the credentials are those of the node it was found under, and the mode
  displayed is for all to read, to write, both or neither.
\<close>

theorem s3_nodes_well_formed:
  assumes "s3_resolve b node = Inr at" and "validate_methods (at_methods at) (entry_backend node) = None"
    and "counted_pages (s3_library b)" and "0 \<le> sint (MaxUploadSize (attrs_of node))"
  shows "(\<forall>fuel w cs w'. s3_list fuel b node w = Some (Inr cs, w') \<longrightarrow> list_all (well_formed at) cs) \<and>
    (\<forall>name c. valid_name name \<longrightarrow> s3_child b node name = Inr c \<longrightarrow> well_formed at c)"
proof (intro conjI allI impI)
  fix fuel w cs w'
  assume list: "s3_list fuel b node w = Some (Inr cs, w')"
  show "list_all (well_formed at) cs"
  proof (cases "s3_permits (at_methods at) ''ListObjectsV2''")
    case True
    then obtain x where x: "list_pages fuel b at None ({}, []) w = Some (x, w')" "map_sum id (sort_key entry_name) x = Inr cs"
      using list assms(1) by (auto simp: s3_list_def)
    then obtain found where found: "list_pages fuel b at None ({}, []) w = Some (Inr found, w')" "cs = sort_key entry_name found"
      by (cases x) auto
    have "\<forall>c \<in> set found. from_counted at c"
      by (rule list_pages_counted [OF assms(3) _ _ found(1)]) (simp_all add: tidy_def)
    then show ?thesis
      unfolding list_all_iff found(2) set_sort using from_counted_well_formed [OF assms(1,2)] by blast
  next
    case False
    then show ?thesis using list assms(1) by (auto simp: s3_list_def)
  qed
next
  fix name c
  assume name: "valid_name name" and child: "s3_child b node name = Inr c"
  have c: "c = child_node at (no_attrs\<lparr>File := name, MaxUploadSize := MaxUploadSize (attrs_of node)\<rparr>)"
    using child assms(1) by (simp add: s3_child_def)
  show "well_formed at c" unfolding c
    by (rule child_well_formed [OF assms(1,2)])
      (use name valid_name_no_slash assms(4) in \<open>auto simp: no_attrs_def entry_name_def\<close>)
qed

section \<open>Samples\<close>

text \<open>A store that holds its objects in a list, and lists them in one page.\<close>

type_synonym held = "((string \<times> string) \<times> bytes) list"

definition no_such_key :: s3_failure where "no_such_key = \<lparr>fl_code = None, fl_status = Some 404\<rparr>"

definition hold :: "string \<times> string \<Rightarrow> bytes \<Rightarrow> held \<Rightarrow> held" where
  "hold k data n = (k, data) # filter (\<lambda>e. fst e \<noteq> k) n"

definition keys_below :: "string \<Rightarrow> string \<Rightarrow> held \<Rightarrow> string list" where
  "keys_below bucket start n = remdups (map (snd \<circ> fst) (filter (\<lambda>e. fst (fst e) = bucket \<and> prefix start (snd (fst e))) n))"

definition held_object :: "string \<Rightarrow> s3_object" where
  "held_object key = \<lparr>so_key = key, so_size = 0, so_modified = None\<rparr>"

definition held_page :: "string \<Rightarrow> string \<Rightarrow> held \<Rightarrow> s3_page" where
  "held_page bucket start n =
     (let rests = map (drop (length start)) (keys_below bucket start n) in
      \<lparr>pg_prefixes = remdups (map (\<lambda>r. start @ takeWhile (\<lambda>c. c \<noteq> slash) r @ ''/'') (filter (\<lambda>r. slash \<in> set r) rests)),
       pg_objects = map (\<lambda>r. held_object (start @ r)) (filter (\<lambda>r. slash \<notin> set r) rests), pg_next = None\<rparr>)"

definition sample_store :: "held s3_lib" where
  "sample_store =
     \<lparr>head_object = (\<lambda>c b k n. (case map_of n (b, k) of None \<Rightarrow> (Inl no_such_key, n) | Some d \<Rightarrow> (Inr (word_of_nat (length d)), n))),
      delete_object = (\<lambda>c b k n. (Inr (), filter (\<lambda>e. fst e \<noteq> (b, k)) n)),
      next_page = (\<lambda>c b start token n. (Inr (held_page b start n), n)),
      list_some = (\<lambda>c b start k n. (Inr (map held_object (take k (keys_below b start n))), n)),
      put_object = (\<lambda>c put n. (case put_body put of
         Some (d, True) \<Rightarrow> (Inl no_such_key, n)
       | Some (d, False) \<Rightarrow> (Inr (), hold (put_bucket put, put_key put) d n)
       | None \<Rightarrow> (Inr (), hold (put_bucket put, put_key put) [] n))),
      copy_object = (\<lambda>c b k source n. (case unescape EncodePath source of
         None \<Rightarrow> (Inl no_such_key, n)
       | Some path \<Rightarrow> (case cut slash (drop 1 path) of (from_bucket, from_key, _) \<Rightarrow>
           (case map_of n (from_bucket, from_key) of None \<Rightarrow> (Inl no_such_key, n) | Some d \<Rightarrow> (Inr (), hold (b, k) d n))))),
      get_object = (\<lambda>c b k span n. (case map_of n (b, k) of None \<Rightarrow> (Inl no_such_key, n) | Some d \<Rightarrow> (Inr (d, Complete), n))),
      ambient_identity = (\<lambda>_. None)\<rparr>"

definition held_view :: "held \<Rightarrow> objects" where "held_view n = map_of n"

lemma map_of_others: "map_of (filter (\<lambda>e. fst e \<noteq> k) n) = (map_of n)(k := None)"
  by (induction n) auto

lemma map_of_hold: "map_of (hold k d n) = (map_of n)(k \<mapsto> d)"
  by (simp add: hold_def map_of_others)

lemma keys_below_all: "{key. prefix start key \<and> map_of n (bucket, key) \<noteq> None} \<subseteq> set (keys_below bucket start n)"
proof
  fix key
  assume "key \<in> {key. prefix start key \<and> map_of n (bucket, key) \<noteq> None}"
  then have p: "prefix start key" and "(bucket, key) \<in> fst ` set n" by (auto simp: map_of_eq_None_iff)
  then obtain d where "((bucket, key), d) \<in> set n" by auto
  with p have "((bucket, key), d) \<in> set (filter (\<lambda>e. fst (fst e) = bucket \<and> prefix start (snd (fst e))) n)" by simp
  then have "(snd \<circ> fst) ((bucket, key), d) \<in> (snd \<circ> fst) ` set (filter (\<lambda>e. fst (fst e) = bucket \<and> prefix start (snd (fst e))) n)"
    by (rule imageI)
  then show "key \<in> set (keys_below bucket start n)" by (simp add: keys_below_def)
qed

lemma held_keys: "so_key \<circ> held_object = id"
  by (simp add: held_object_def fun_eq_iff)

lemma sample_store_honest: "honest_store held_view c sample_store"
  unfolding honest_store_def
proof (intro conjI)
  show "answers_heads held_view c sample_store"
    by (auto simp: answers_heads_def sample_store_def held_view_def split: option.splits)
  show "deletes held_view c sample_store"
    by (simp add: deletes_def sample_store_def held_view_def map_of_others)
  show "puts held_view c sample_store"
    by (auto simp: puts_def sample_store_def held_view_def map_of_hold split: option.splits bool.splits)
  show "copies held_view c sample_store"
    by (auto simp: copies_def sample_store_def held_view_def map_of_hold split: option.splits)
  show "names_some held_view c sample_store"
    unfolding names_some_def
  proof (intro allI impI, goal_cases)
    case (1 bucket start k n r n')
    then have r: "r = Inr (map held_object (take k (keys_below bucket start n)))" "n' = n" by (auto simp: sample_store_def)
    have "distinct (take k (keys_below bucket start n))" by (simp add: keys_below_def)
    then show ?case
      using r keys_below_all [of start n bucket] by (auto simp: held_keys held_view_def image_image held_object_def)
  qed
qed

definition sample_s3_client :: s3_client where
  "sample_s3_client = \<lparr>cl_region = ''r'', cl_identity = Ambient ''host'', cl_endpoint = None, cl_path_style = False\<rparr>"

definition sample_s3 :: "held s3_fs" where
  "sample_s3 = \<lparr>s3_library = sample_store, s3_staging = [''tmp''], s3_configured = [''bkt'' \<mapsto> sample_s3_client],
     s3_ctx = \<lparr>ctx_stamp = None\<rparr>\<rparr>"

definition sample_held :: held where
  "sample_held = [((''bkt'', ''d/b''), ''12''), ((''bkt'', ''d/a/x''), ''3''), ((''bkt'', ''e''), ''4'')]"

definition sample_s3_world :: "held remote" where
  "sample_s3_world = \<lparr>disk = sample_disk, net = sample_held, staged_writers = Map.empty\<rparr>"

definition s3_dir :: node where "s3_dir = Entry (no_attrs\<lparr>Directory := ''d'', Backend := ''s3://bkt/d''\<rparr>) []"
definition s3_file :: node where "s3_file = Entry (no_attrs\<lparr>File := ''b'', Backend := ''s3://bkt/d/b''\<rparr>) []"

definition s3_dir_place :: s3_place where
  "s3_dir_place = \<lparr>at_client = sample_s3_client, at_bucket = ''bkt'', at_key = ''d'', at_methods = [], at_access = None\<rparr>"

lemma s3_dir_resolves: "s3_resolve sample_s3 s3_dir = Inr s3_dir_place"
  by code_simp

lemma s3_file_resolves: "s3_resolve sample_s3 s3_file = Inr (sibling s3_dir_place ''d/b'')"
  by code_simp

section \<open>The properties on the samples\<close>

lemma sample_pages:
  "pages_read sample_s3 s3_dir_place None sample_s3_world [held_page ''bkt'' ''d/'' sample_held] sample_s3_world"
proof (rule pages_read.last_page)
  show "pg_next (held_page ''bkt'' ''d/'' sample_held) = None" by code_simp
  show "s3_call (next_page (s3_library sample_s3) (at_client s3_dir_place) (at_bucket s3_dir_place)
      (key_prefix (at_key s3_dir_place)) None) sample_s3_world = (Inr (held_page ''bkt'' ''d/'' sample_held), sample_s3_world)"
    by (simp add: s3_call_def on_net_def sample_s3_def sample_store_def s3_dir_place_def sample_s3_world_def key_prefix_def)
qed

lemma sample_names: "all_names s3_dir_place [held_page ''bkt'' ''d/'' sample_held] = {''a'', ''b''}"
  by code_simp

lemma s3_list_exact_witness:
  "\<exists>cs. s3_list 1 sample_s3 s3_dir sample_s3_world = Some (Inr cs, sample_s3_world) \<and>
     entry_name ` set cs = {''a'', ''b''} \<and> sorted_wrt (<) (map entry_name cs)"
proof -
  have p: "s3_permits (at_methods s3_dir_place) ''ListObjectsV2''" by code_simp
  have c: "card (all_names s3_dir_place [held_page ''bkt'' ''d/'' sample_held]) \<le> max_listing_entries"
    unfolding sample_names by (simp add: max_listing_entries_def)
  have l: "length [held_page ''bkt'' ''d/'' sample_held] \<le> 1" by simp
  from s3_list_exact [OF s3_dir_resolves p sample_pages l] c show ?thesis
    unfolding listing_of_def sample_names by auto
qed

definition s3_read_only :: node where
  "s3_read_only = Entry (no_attrs\<lparr>File := ''b'', Backend := ''s3://bkt/d/b'', AllowedMethods := [''GetObject'']\<rparr>) []"

definition s3_read_only_place :: s3_place where
  "s3_read_only_place = \<lparr>at_client = sample_s3_client, at_bucket = ''bkt'', at_key = ''d/b'', at_methods = [''GetObject''], at_access = None\<rparr>"

lemma s3_read_only_resolves: "s3_resolve sample_s3 s3_read_only = Inr s3_read_only_place"
  by code_simp

lemma read_only_calls: "permitted_calls_keep (\<lambda>n. n = sample_held) sample_s3 s3_read_only_place"
  by (auto simp: permitted_calls_keep_def Let_def keeps_def s3_read_only_place_def s3_permits_def sample_s3_def sample_store_def
      split: option.splits)

lemma s3_mask_respected_witness:
  "net (snd (backend_remove (s3_backend 1 sample_s3) s3_read_only sample_s3_world)) = sample_held \<and>
   net (snd (backend_rename (s3_backend 1 sample_s3) s3_read_only ''/d/b'' ''/d/c'' sample_s3_world)) = sample_held"
proof -
  have calls: "permitted_calls_keep (\<lambda>n. n = sample_held) sample_s3 at" if "s3_resolve sample_s3 s3_read_only = Inr at" for at
    using that s3_read_only_resolves read_only_calls by simp
  have "net sample_s3_world = sample_held" by (simp add: sample_s3_world_def)
  then show ?thesis
    using s3_mask_respected [of sample_s3 s3_read_only "\<lambda>n. n = sample_held" 1, where ?'b = unit, OF calls] unfolding Let_def keeps_def by blast
qed

lemma s3_changes_objects_witness:
  "\<exists>w'. s3_rename sample_s3 s3_file ''/d/b'' ''/d/c'' sample_s3_world = (Inr (), w') \<and>
     held_view (net w') (''bkt'', ''d/c'') = Some ''12'' \<and> held_view (net w') (''bkt'', ''d/b'') = None"
proof -
  let ?at = "sibling s3_dir_place ''d/b''"
  have "fst (s3_rename sample_s3 s3_file ''/d/b'' ''/d/c'' sample_s3_world) = Inr ()" by code_simp
  then obtain w' where run: "s3_rename sample_s3 s3_file ''/d/b'' ''/d/c'' sample_s3_world = (Inr (), w')"
    by (metis prod.collapse)
  have honest: "honest_store held_view (at_client ?at) (s3_library sample_s3)"
    using sample_store_honest by (simp add: sample_s3_def)
  have k: "rename_target (at_key ?at) (path_base ''/d/c'') = ''d/c''" by code_simp
  have "renamed ?at ''d/c'' (held_view (net sample_s3_world)) (Inr ()) (held_view (net w'))"
    using s3_changes_objects [OF s3_file_resolves honest, of sample_s3_world, unfolded Let_def, THEN conjunct2, THEN conjunct2,
        rule_format, OF run] unfolding k .
  moreover have "held_view (net sample_s3_world) (''bkt'', ''d/b'') = Some ''12''" by code_simp
  moreover have "object_of ?at = (''bkt'', ''d/b'')" "object_of (sibling ?at ''d/c'') = (''bkt'', ''d/c'')" by code_simp+
  ultimately show ?thesis using run by (auto simp: renamed_def moved_to_def Let_def)
qed

lemma s3_nodes_well_formed_witness: "\<exists>c. s3_child sample_s3 s3_dir ''n'' = Inr c \<and> well_formed s3_dir_place c"
proof -
  have m: "validate_methods (at_methods s3_dir_place) (entry_backend s3_dir) = None" by code_simp
  have c: "counted_pages (s3_library sample_s3)"
    by (auto simp: counted_pages_def sample_s3_def sample_store_def held_page_def held_object_def Let_def)
  have z: "0 \<le> sint (MaxUploadSize (attrs_of s3_dir))" by code_simp
  obtain c where "s3_child sample_s3 s3_dir ''n'' = Inr c" using s3_dir_resolves by (simp add: s3_child_def)
  moreover have "valid_name ''n''" by code_simp
  ultimately show ?thesis using s3_nodes_well_formed [OF s3_dir_resolves m c z] by blast
qed

text \<open>An upload: made, written at, closed.\<close>

definition sample_s3_upload :: "(nat \<times> verror option \<times> verror option) option" where
  "sample_s3_upload =
     (case s3_create sample_s3 s3_file sample_s3_world of
        (Inl _, w) \<Rightarrow> None
      | (Inr wr, w0) \<Rightarrow> (case write_at wr ''xyz'' 1 w0 of ((n, e), w1) \<Rightarrow>
          (case write_close wr w1 of (r, w2) \<Rightarrow> Some (n, e, r))))"

lemma sample_s3_upload_runs: "sample_s3_upload = Some (3, None, None)"
  by code_simp

lemma s3_upload_stored_witness:
  "\<exists>wr w0 w1 w2. s3_create sample_s3 s3_file sample_s3_world = (Inr wr, w0) \<and> write_at wr ''xyz'' 1 w0 = ((3, None), w1) \<and>
     write_close wr w1 = (None, w2) \<and> held_view (net w2) (''bkt'', ''d/b'') = Some (CHR 0x00 # ''xyz'')"
proof -
  let ?at = "sibling s3_dir_place ''d/b''"
  obtain wr w0 w1 w2 where run: "s3_create sample_s3 s3_file sample_s3_world = (Inr wr, w0)"
      "write_at wr ''xyz'' 1 w0 = ((3, None), w1)" "write_close wr w1 = (None, w2)"
    using sample_s3_upload_runs by (auto simp: sample_s3_upload_def split: prod.splits sum.splits)
  have puts: "puts held_view (at_client ?at) (s3_library sample_s3)"
    using sample_store_honest by (simp add: sample_s3_def honest_store_def)
  obtain fd i where fd: "wr = staged_handle (commit_by_put sample_s3 ?at) fd"
    and stored: "\<forall>es w1 r w2. staged_history (commit_by_put sample_s3 ?at) fd i w0 es w1 \<longrightarrow> write_close wr w1 = (r, w2) \<longrightarrow>
       (r = None \<longrightarrow> list_all accepted es \<and> held_view (net w2) = stored ?at es (held_view (net w1))) \<and>
       (r \<noteq> None \<longrightarrow> held_view (net w2) = held_view (net w1) \<or>
          list_all accepted es \<and> held_view (net w2) = stored ?at es (held_view (net w1)))"
    using s3_upload_stored [OF s3_file_resolves puts run(1)] by blast
  have "staged_write_at fd ''xyz'' 1 w0 = ((3, None), w1)" using run(2) fd by (simp add: staged_handle_def)
  from staged_history.wrote [OF staged_history.made this]
  have "staged_history (commit_by_put sample_s3 ?at) fd i w0 [Wrote ''xyz'' 1 None] w1" by simp
  then have "held_view (net w2) = stored ?at [Wrote ''xyz'' 1 None] (held_view (net w1))" using stored run(3) by blast
  moreover have "object_of ?at = (''bkt'', ''d/b'')" by code_simp
  moreover have "foldl apply_write [] (map written [Wrote ''xyz'' 1 None]) = CHR 0x00 # ''xyz''" by code_simp
  ultimately show ?thesis using run unfolding stored_def by (metis fun_upd_same)
qed

end
