(* ===== verification/Server.thy ===== *)
theory Server
  imports Headers Sftp Scp S3fs Localfs "HOL-Library.AList"
begin

text \<open>
  The server: \<open>server/internal/server/server.go\<close>, and who its users are stamped as, the method
  \<open>RequestHeaders\<close> of \<open>server/internal/config/config.go\<close>. Listening, the life of a connection and
  of a session channel, and the probes that find out whether a client is still there.

  What comes from outside is an argument: which addresses the host lets it listen on, what the SSH
  library hands over, which replies can be sent, when probes are answered. Logging and spans are
  not modelled. The goroutine of a connection, those of its channels and the one that probes share
  nothing but the filesystem, the upload limiter and the channel that says the connection is done.
\<close>

section \<open>Stamps\<close>

text \<open>\<open>strings.Map\<close> over the code points of a name.\<close>

definition stampable :: "string \<Rightarrow> string" where
  "stampable name =
     (if name = [] then ''unknown''
      else runes_string (map (\<lambda>r. if r < 33 \<or> 126 < r then 63 else r) (runes_of name)))"

definition default_user_agent :: string where "default_user_agent = ''sftp-proxy''"
definition header_user_agent :: string where "header_user_agent = ''user-agent''"
definition header_user_agent_id :: string where "header_user_agent_id = ''user-agent-id''"

text \<open>A map is an association list; writing under a name replaces what is there.\<close>

definition stamp_with :: "string \<times> string \<Rightarrow> (string \<times> string) list \<Rightarrow> (string \<times> string) list" where
  "stamp_with nv stamp = AList.update (to_lower (fst nv)) (snd nv) stamp"

definition user_stamp :: "user \<Rightarrow> (string \<times> string) list" where
  "user_stamp u =
     (case Headers u of
        None \<Rightarrow> [(header_user_agent, default_user_agent), (header_user_agent_id, stampable (Username u))]
      | Some hs \<Rightarrow> fold stamp_with hs [])"

section \<open>Listening\<close>

text \<open>\<open>net.JoinHostPort\<close>.\<close>

definition join_host_port :: "string \<Rightarrow> string \<Rightarrow> string" where
  "join_host_port host port = (if CHR '':'' \<in> set host then ''['' @ host @ '']:'' @ port else host @ '':'' @ port)"

text \<open>
  \<open>IP.To4\<close> finds four bytes in a dotted address, and in an IPv6 address when its groups of sixteen
  bits are five zeros and then all ones.
\<close>

definition hex_value :: "string \<Rightarrow> nat" where
  "hex_value s = foldl (\<lambda>n c. 16 * n + unhex c) 0 s"

definition group_words :: "string \<Rightarrow> nat list" where
  "group_words g =
     (if CHR ''.'' \<in> set g
      then (case map digits_value (split_on (CHR ''.'') g) of
              [a, b, c, d] \<Rightarrow> [256 * a + b, 256 * c + d] | _ \<Rightarrow> [])
      else [hex_value g])"

definition groups_words :: "string \<Rightarrow> nat list" where
  "groups_words part = (if part = [] then [] else concat (map group_words (split_on (CHR '':'') part)))"

fun cut_ellipsis :: "string \<Rightarrow> (string \<times> string) option" where
  "cut_ellipsis (a # b # s) =
     (if a = CHR '':'' \<and> b = CHR '':'' then Some ([], s)
      else map_option (\<lambda>(p, q). (a # p, q)) (cut_ellipsis (b # s)))"
| "cut_ellipsis _ = None"

definition ipv6_words :: "string \<Rightarrow> nat list" where
  "ipv6_words s =
     (case cut_ellipsis s of
        None \<Rightarrow> groups_words s
      | Some (p, q) \<Rightarrow>
          (let front = groups_words p; back = groups_words q in
           front @ replicate (8 - length front - length back) 0 @ back))"

definition to4 :: "string \<Rightarrow> bool" where
  "to4 address \<longleftrightarrow> parse_addr address = Some IPv4 \<or> take 6 (ipv6_words address) = [0, 0, 0, 0, 0, 65535]"

definition listen_addresses :: "config \<Rightarrow> (string \<times> string) list" where
  "listen_addresses cfg =
     (let port = show_int (sint (Port cfg)) in
      if parses_as_ip (BindAddress cfg) then
        [(if to4 (BindAddress cfg) then ''tcp4'' else ''tcp6'', join_host_port (BindAddress cfg) port)]
      else if BindAddress cfg \<noteq> [] then
        [(''tcp4'', join_host_port (BindAddress cfg) port), (''tcp6'', join_host_port (BindAddress cfg) port)]
      else [(''tcp4'', join_host_port ''0.0.0.0'' port), (''tcp6'', join_host_port ''::'' port)])"

text \<open>
  The listeners opened so far are closed when one cannot be opened. The state is the list of the
  addresses that are listened on, which only the host can refuse.
\<close>

definition close_listeners :: "(string \<times> string) list \<Rightarrow> (string \<times> string) list \<Rightarrow> (string \<times> string) list" where
  "close_listeners ls listening = fold remove1 ls listening"

fun listen_loop :: "(string \<times> string \<Rightarrow> bool) \<Rightarrow> (string \<times> string) list \<Rightarrow> (string \<times> string) list \<Rightarrow>
    ((string \<times> string) list, string \<times> string, (string \<times> string) list) op" where
  "listen_loop allowed listeners [] listening = (Inr listeners, listening)"
| "listen_loop allowed listeners (item # items) listening =
     (if allowed item then listen_loop allowed (listeners @ [item]) items (listening @ [item])
      else (Inl item, close_listeners listeners listening))"

definition listen_all :: "(string \<times> string \<Rightarrow> bool) \<Rightarrow> config \<Rightarrow>
    ((string \<times> string) list, string \<times> string, (string \<times> string) list) op" where
  "listen_all allowed cfg = listen_loop allowed [] (listen_addresses cfg)"

text \<open>What accepting a connection comes to, again and again, until the listener is closed.\<close>

datatype 'c accepting = Accepted 'c | ListenerClosed | AcceptFailed

fun serve_listener :: "'c accepting list \<Rightarrow> 'c list" where
  "serve_listener [] = []"
| "serve_listener (Accepted c # as) = c # serve_listener as"
| "serve_listener (ListenerClosed # as) = []"
| "serve_listener (AcceptFailed # as) = serve_listener as"

section \<open>Filesystems\<close>

text \<open>The backends of the process: a configuration opens those it names, or the server does not start.\<close>

definition open_local :: "config \<Rightarrow> (host, config_error, string list option) op" where
  "open_local cfg =
     (case FileBackend cfg of
        None \<Rightarrow> returnE None
      | Some allowed \<Rightarrow> (\<lambda>h. case local_new allowed h of
            (Inl e, h') \<Rightarrow> (Inl (Within ''open file backend'' e), h') | (Inr roots, h') \<Rightarrow> (Inr (Some roots), h')))"

definition open_s3 :: "'n s3_lib \<Rightarrow> config \<Rightarrow> request_context \<Rightarrow> config_error + 'n s3_fs option" where
  "open_s3 lib cfg ctx =
     (case S3Backend cfg of
        None \<Rightarrow> Inr None
      | Some buckets \<Rightarrow>
          (case s3_new lib (Some buckets) (components (UploadStagingDir cfg)) ctx of
             None \<Rightarrow> Inl (Err ''open s3 backend'') | Some b \<Rightarrow> Inr (Some b)))"

definition open_backends :: "'n s3_lib \<Rightarrow> config \<Rightarrow> request_context \<Rightarrow>
    (host, config_error, string list option \<times> 'n s3_fs option) op" where
  "open_backends lib cfg ctx =
     bindE (open_local cfg) (\<lambda>local. bindE (liftE (open_s3 lib cfg ctx)) (\<lambda>s3. returnE (local, s3)))"

text \<open>
  A user's filesystem, and what may serve it: a URL scheme that is not registered cannot be
  reached. The backends are over one world, which they are lifted to.
\<close>

definition user_filesystem :: "'w backend \<Rightarrow> 'w backend option \<Rightarrow> 'w backend option \<Rightarrow> user \<Rightarrow> 'w fs" where
  "user_filesystem over_http local s3 u =
     (let backends = [''http'' \<mapsto> over_http, ''https'' \<mapsto> over_http];
          backends = (case local of None \<Rightarrow> backends | Some b \<Rightarrow> backends(file_scheme \<mapsto> b));
          backends = (case s3 of None \<Rightarrow> backends | Some b \<Rightarrow> backends(s3_scheme \<mapsto> b))
      in \<lparr>fs_root = RootFS u, fs_backends = backends\<rparr>)"

section \<open>Sessions\<close>

text \<open>
  A session channel. \<open>ssh.Unmarshal\<close> of a payload that is one string is an argument, and so is
  whether the reply that accepts a request can be sent.
\<close>

record session_request =
  sr_type :: string
  sr_payload :: bytes

datatype session_run = RunSFTP | RunSCP scp_command

definition asked_for :: "(bytes \<Rightarrow> string option) \<Rightarrow> session_request \<Rightarrow> session_run option" where
  "asked_for unmarshal r =
     (if sr_type r = ''subsystem'' then
        (case unmarshal (sr_payload r) of
           None \<Rightarrow> None
         | Some name \<Rightarrow> if name \<noteq> ''sftp'' then None else Some RunSFTP)
      else if sr_type r = ''exec'' then
        (case unmarshal (sr_payload r) of
           None \<Rightarrow> None
         | Some c \<Rightarrow> map_option RunSCP (parse_scp_command c))
      else None)"

text \<open>The replies sent, and what is run, if anything is.\<close>

fun serve_session :: "(bytes \<Rightarrow> string option) \<Rightarrow> (session_request \<Rightarrow> bool) \<Rightarrow> session_request list \<Rightarrow>
    bool list \<times> session_run option" where
  "serve_session unmarshal sent [] = ([], None)"
| "serve_session unmarshal sent (r # rs) =
     (case asked_for unmarshal r of
        None \<Rightarrow> (case serve_session unmarshal sent rs of (replies, run) \<Rightarrow> (False # replies, run))
      | Some run \<Rightarrow> ([True], if sent r then Some run else None))"

text \<open>The exit status an SCP client is told.\<close>

definition serve_scp :: "'w scp_session \<Rightarrow> 'w scp_state \<Rightarrow> (uint32 \<times> 'w scp_state) option" where
  "serve_scp ss s = map_option (\<lambda>(ok, t). (if ok then 0 else 1, t)) (scp_run ss s)"

section \<open>Probes\<close>

text \<open>
  A round of \<open>clientAlive\<close>: the tick comes or the connection is done first; then, before the
  interval is over, an answer comes, or the connection is found to be gone, or is done, or none of
  these happens.
\<close>

datatype alive_round = DoneWaiting | DoneProbing | Answered | ConnectionGone | Silent

datatype alive_end = Stopped | Disconnected | Watching int64

fun alive_loop :: "int64 \<Rightarrow> int64 \<Rightarrow> alive_round list \<Rightarrow> alive_end" where
  "alive_loop countMax unanswered [] = Watching unanswered"
| "alive_loop countMax unanswered (DoneWaiting # rs) = Stopped"
| "alive_loop countMax unanswered (DoneProbing # rs) = Stopped"
| "alive_loop countMax unanswered (ConnectionGone # rs) = Stopped"
| "alive_loop countMax unanswered (Answered # rs) = alive_loop countMax 0 rs"
| "alive_loop countMax unanswered (Silent # rs) =
     (if sint (unanswered + 1) < sint countMax then alive_loop countMax (unanswered + 1) rs else Disconnected)"

definition watch_client :: "user \<Rightarrow> alive_round list \<Rightarrow> alive_end" where
  "watch_client u rounds =
     (case client_alive u of (interval, countMax) \<Rightarrow>
        if sint interval \<le> 0 \<or> sint countMax \<le> 0 then Stopped else alive_loop countMax 0 rounds)"

section \<open>Connections\<close>

text \<open>
  What a connection meets with: whether its deadlines can be set, what the handshake comes to, the
  session it leaves, the channels opened afterwards and whether each can be accepted.
\<close>

record incoming =
  deadline_set :: bool
  authenticated :: bool
  deadline_cleared :: bool
  in_session :: "user option"
  new_channels :: "(string \<times> bool) list"

datatype channel_fate = ChannelRejected | ChannelLost | ChannelServed

definition channel_outcome :: "string \<times> bool \<Rightarrow> channel_fate" where
  "channel_outcome c =
     (if fst c \<noteq> ''session'' then ChannelRejected else if snd c then ChannelServed else ChannelLost)"

record 'w serving =
  serving_user :: user
  serving_ctx :: request_context
  serving_factory :: "'w handler_factory"
  serving_channels :: "channel_fate list"

text \<open>The deadline the handshake runs under, if any, and what is served after it.\<close>

definition serve_connection :: "config \<Rightarrow> (user \<Rightarrow> 'w fs) \<Rightarrow> request_context \<Rightarrow> incoming \<Rightarrow>
    duration option \<times> 'w serving option" where
  "serve_connection cfg fs_for ctx c =
     (let grace = (if 0 < sint (login_grace cfg) then Some (login_grace cfg) else None) in
      if grace \<noteq> None \<and> \<not> deadline_set c then (None, None)
      else if \<not> authenticated c \<or> \<not> deadline_cleared c then (grace, None)
      else (case in_session c of
              None \<Rightarrow> (grace, None)
            | Some u \<Rightarrow>
                (grace, Some \<lparr>serving_user = u, serving_ctx = headers_with ctx (user_stamp u),
                   serving_factory = new_handler_factory (fs_for u) (sint (upload_concurrency_limit u)),
                   serving_channels = map channel_outcome (new_channels c)\<rparr>)))"

end
