(* ===== verification/Server_Properties.thy ===== *)
theory Server_Properties
  imports Server "HOL-Library.Multiset"
begin

text \<open>
  When a client that does not answer is disconnected, what a session channel runs, which listeners
  are open, and what a user is stamped as.
\<close>

section \<open>Probes\<close>

definition silent_run :: "nat \<Rightarrow> alive_round list \<Rightarrow> bool" where
  "silent_run n rounds \<longleftrightarrow>
     (\<exists>pre post. rounds = pre @ replicate n Silent @ post \<and> set pre \<subseteq> {Answered, Silent})"

lemma run_after:
  assumes eq: "replicate k Silent @ x # rs = pre @ replicate n Silent @ post" and "k < n" and "x \<noteq> Silent"
  shows "\<exists>pre'. pre = replicate k Silent @ x # pre' \<and> rs = pre' @ replicate n Silent @ post"
proof -
  have x: "(pre @ replicate n Silent @ post) ! k = x" using eq by (metis length_replicate nth_append_length)
  have "k < length pre"
  proof (rule ccontr)
    assume "\<not> k < length pre"
    then have "k - length pre < n" "\<not> k < length pre" using assms(2) by simp_all
    then have "(pre @ replicate n Silent @ post) ! k = Silent" by (simp add: nth_append)
    then show False using x assms(3) by simp
  qed
  have "pre = take (length pre) (replicate k Silent @ x # rs)" unfolding eq by simp
  then have "pre = replicate k Silent @ take (length pre - k) (x # rs)" using \<open>k < length pre\<close> by (simp add: min_def)
  then obtain pre' where pre: "pre = replicate k Silent @ x # pre'" using \<open>k < length pre\<close> by (cases "length pre - k") auto
  then have "rs = pre' @ replicate n Silent @ post" using eq by simp
  then show ?thesis using pre by blast
qed

lemma silent_run_after:
  "k < n \<Longrightarrow> x \<noteq> Silent \<Longrightarrow> silent_run n (replicate k Silent @ x # rs) \<longleftrightarrow> x = Answered \<and> silent_run n rs"
proof
  assume k: "k < n" "x \<noteq> Silent" and "silent_run n (replicate k Silent @ x # rs)"
  then obtain pre post where eq: "replicate k Silent @ x # rs = pre @ replicate n Silent @ post" "set pre \<subseteq> {Answered, Silent}"
    by (auto simp: silent_run_def)
  from run_after [OF eq(1) k] obtain pre' where pre: "pre = replicate k Silent @ x # pre'" "rs = pre' @ replicate n Silent @ post"
    by blast
  have "x = Answered" "set pre' \<subseteq> {Answered, Silent}" using eq(2) pre(1) k(2) by auto
  then show "x = Answered \<and> silent_run n rs" using pre(2) unfolding silent_run_def by blast
next
  assume "x = Answered \<and> silent_run n rs"
  then obtain pre post where "x = Answered" "rs = pre @ replicate n Silent @ post" "set pre \<subseteq> {Answered, Silent}"
    by (auto simp: silent_run_def)
  then have "replicate k Silent @ x # rs = (replicate k Silent @ x # pre) @ replicate n Silent @ post"
    "set (replicate k Silent @ x # pre) \<subseteq> {Answered, Silent}" by auto
  then show "silent_run n (replicate k Silent @ x # rs)" unfolding silent_run_def by blast
qed

lemma silent_run_now: "silent_run n (replicate n Silent @ rs)"
  unfolding silent_run_def by (metis append_Nil empty_set empty_subsetI)

lemma silent_run_none: "k < n \<Longrightarrow> \<not> silent_run n (replicate k Silent)"
proof
  assume "k < n" "silent_run n (replicate k Silent)"
  then obtain pre post where "replicate k Silent = pre @ replicate n Silent @ post" by (auto simp: silent_run_def)
  then have "k = length (pre @ replicate n Silent @ post)" by (metis length_replicate)
  then show False using \<open>k < n\<close> by simp
qed

lemma alive_loop_runs:
  assumes "0 \<le> sint u" and "sint u < sint m"
  shows "alive_loop m u rounds = Disconnected \<longleftrightarrow> silent_run (nat (sint m)) (replicate (nat (sint u)) Silent @ rounds)"
  using assms
proof (induction m u rounds rule: alive_loop.induct)
  case (6 m u rs)
  have "sint m \<le> 9223372036854775807" using sint_lt [of m] by simp
  then have next_one: "sint (u + 1) = sint u + 1" using 6(2,3) by (simp add: sint_word_ariths signed_take_bit_int_eq_self)
  have step: "replicate (nat (sint u)) Silent @ Silent # rs = replicate (nat (sint u + 1)) Silent @ rs"
    using Suc_nat_eq_nat_zadd1 [OF 6(2)] by (simp add: add.commute replicate_app_Cons_same flip: replicate_Suc)
  show ?case
  proof (cases "sint (u + 1) < sint m")
    case True
    then have "alive_loop m u (Silent # rs) = alive_loop m (u + 1) rs" by simp
    then show ?thesis unfolding step using 6(1) [OF True] 6(2) True next_one by simp
  next
    case False
    then have m: "sint u + 1 = sint m" using next_one 6(3) by simp
    show ?thesis unfolding step m using False silent_run_now by simp
  qed
next
  case (5 m u rs)
  have "silent_run (nat (sint m)) rs \<longleftrightarrow> alive_loop m 0 rs = Disconnected" using 5 by simp
  then show ?case using 5(2,3) silent_run_after [of "nat (sint u)" "nat (sint m)" Answered rs] by simp
qed (simp_all add: silent_run_none silent_run_after)

text \<open>
  C40. A client is disconnected exactly when as many probes in a row as its policy allows go
  unanswered while the connection lasts: one that answers in time at least once in every so
  many rounds is left alone for ever, one that falls silent is not, and a policy without an
  interval or without a count never disconnects.
\<close>

theorem silent_client_disconnected:
  "watch_client u rounds = Disconnected \<longleftrightarrow>
     0 < sint (fst (client_alive u)) \<and> 0 < sint (snd (client_alive u)) \<and>
     silent_run (nat (sint (snd (client_alive u)))) rounds"
proof -
  obtain interval countMax where c: "client_alive u = (interval, countMax)" by (metis surj_pair)
  show ?thesis
  proof (cases "sint interval \<le> 0 \<or> sint countMax \<le> 0")
    case True
    then show ?thesis by (auto simp: watch_client_def c)
  next
    case False
    then show ?thesis using alive_loop_runs [of 0 countMax rounds] by (simp add: watch_client_def c)
  qed
qed

section \<open>Sessions\<close>

text \<open>
  A session channel runs at most one thing, the first it is asked for that it knows; every request
  before that is refused.
\<close>

lemma serve_session_runs:
  "snd (serve_session unmarshal sent rs) = Some run \<longleftrightarrow>
     (\<exists>pre r post. rs = pre @ r # post \<and> list_all (\<lambda>x. asked_for unmarshal x = None) pre \<and>
        asked_for unmarshal r = Some run \<and> sent r)"
proof (induction rs)
  case (Cons r rs)
  show ?case
  proof (cases "asked_for unmarshal r")
    case None
    then have "snd (serve_session unmarshal sent (r # rs)) = snd (serve_session unmarshal sent rs)"
      by (simp split: prod.splits)
    moreover have "(\<exists>pre x post. r # rs = pre @ x # post \<and> list_all (\<lambda>x. asked_for unmarshal x = None) pre \<and>
        asked_for unmarshal x = Some run \<and> sent x) \<longleftrightarrow>
      (\<exists>pre x post. rs = pre @ x # post \<and> list_all (\<lambda>x. asked_for unmarshal x = None) pre \<and>
        asked_for unmarshal x = Some run \<and> sent x)" (is "?whole \<longleftrightarrow> ?rest")
    proof
      assume ?whole
      then obtain pre x post where w: "r # rs = pre @ x # post" "list_all (\<lambda>x. asked_for unmarshal x = None) pre"
          "asked_for unmarshal x = Some run" "sent x" by blast
      then obtain pre' where "pre = r # pre'" using None by (cases pre) auto
      then show ?rest using w by auto
    next
      assume ?rest
      then obtain pre x post where w: "rs = pre @ x # post" "list_all (\<lambda>x. asked_for unmarshal x = None) pre"
          "asked_for unmarshal x = Some run" "sent x" by blast
      then have "r # rs = (r # pre) @ x # post" "list_all (\<lambda>x. asked_for unmarshal x = None) (r # pre)" using None by simp_all
      then show ?whole using w(3,4) by blast
    qed
    ultimately show ?thesis using Cons.IH by simp
  next
    case (Some ran)
    show ?thesis
    proof
      assume "snd (serve_session unmarshal sent (r # rs)) = Some run"
      then have "asked_for unmarshal r = Some run" "sent r" using Some by (simp_all split: if_splits)
      then show "\<exists>pre x post. r # rs = pre @ x # post \<and> list_all (\<lambda>x. asked_for unmarshal x = None) pre \<and>
          asked_for unmarshal x = Some run \<and> sent x"
        by (intro exI [of _ "[]"] exI [of _ r] exI [of _ rs]) simp
    next
      assume "\<exists>pre x post. r # rs = pre @ x # post \<and> list_all (\<lambda>x. asked_for unmarshal x = None) pre \<and>
          asked_for unmarshal x = Some run \<and> sent x"
      then show "snd (serve_session unmarshal sent (r # rs)) = Some run" using Some by (auto simp: Cons_eq_append_conv)
    qed
  qed
qed simp

lemma serve_session_refuses:
  "list_all (\<lambda>x. asked_for unmarshal x = None) rs \<Longrightarrow> serve_session unmarshal sent rs = (replicate (length rs) False, None)"
  by (induction rs) simp_all

section \<open>Listeners\<close>

text \<open>Either every address is listened on, or none more than before.\<close>

lemma close_listeners_mset: "mset (close_listeners ls listening) = mset listening - mset ls"
  unfolding close_listeners_def by (induction ls arbitrary: listening) simp_all

lemma listen_loop_listening:
  assumes "listen_loop allowed listeners items listening = (r, listening')" and "mset listening = mset others + mset listeners"
  shows "case r of Inl item \<Rightarrow> \<not> allowed item \<and> mset listening' = mset others
    | Inr ls \<Rightarrow> list_all allowed items \<and> ls = listeners @ items \<and> mset listening' = mset others + mset ls"
  using assms
proof (induction items arbitrary: listeners listening)
  case (Cons item items)
  show ?case
  proof (cases "allowed item")
    case True
    have "mset (listening @ [item]) = mset others + mset (listeners @ [item])" using Cons.prems(2) by simp
    from Cons.IH [OF _ this] show ?thesis using Cons.prems(1) True by (auto split: sum.splits)
  next
    case False
    then show ?thesis using Cons.prems by (auto simp: close_listeners_mset)
  qed
qed auto

lemma listen_all_or_none:
  assumes "listen_all allowed cfg listening = (r, listening')"
  shows "case r of Inl item \<Rightarrow> \<not> allowed item \<and> mset listening' = mset listening
    | Inr ls \<Rightarrow> ls = listen_addresses cfg \<and> list_all allowed ls \<and> mset listening' = mset listening + mset ls"
  using listen_loop_listening [OF assms [unfolded listen_all_def], of listening] by (auto split: sum.splits)

section \<open>Stamps\<close>

text \<open>What a user is stamped as by default is printable, whatever bytes the name has.\<close>

lemma encode_rune_printable: "set (encode_rune (if r < 33 \<or> 126 < r then 63 else r)) \<subseteq> {c. 33 \<le> ord c \<and> ord c \<le> 126}"
  by (auto simp: encode_rune_def valid_rune_def)

lemma stampable_printable: "c \<in> set (stampable name) \<Longrightarrow> 33 \<le> ord c \<and> ord c \<le> 126"
proof -
  assume c: "c \<in> set (stampable name)"
  show ?thesis
  proof (cases "name = []")
    case True
    then show ?thesis using c by (auto simp: stampable_def)
  next
    case False
    then obtain r where "c \<in> set (encode_rune (if r < 33 \<or> 126 < r then 63 else r))"
      using c by (auto simp: stampable_def runes_string_def)
    then show ?thesis using encode_rune_printable [of r] by blast
  qed
qed

end
