(* ===== verification/Telemetry.thy ===== *)
theory Telemetry
  imports Prelude
begin

text \<open>
  Where traces go: \<open>server/internal/telemetry/telemetry.go\<close>. The exporters, the resource that
  describes the process and the provider of spans are the library's, and arguments here; what the
  code decides is which exporter the environment asks for, what the process is called, that the
  provider is shut down once, and that an HTTP client is instrumented once. Spans themselves, which
  nothing reads, are not modelled.

  The values compared are ASCII, and no other code point that \<open>strings.ToLower\<close> turns into ASCII
  turns into a letter of theirs, so it is enough to lower the ASCII letters.
\<close>

section \<open>Set up\<close>

record ('w, 'e, 'p) otel =
  new_stdout_exporter :: "('w, string, 'e) op"
  new_otlp_exporter :: "('w, string, 'e) op"
  found_resource :: "('w, string, (string \<times> string) list) op"
  merge_resources :: "(string \<times> string) list \<Rightarrow> (string \<times> string) list \<Rightarrow> string + (string \<times> string) list"
  new_provider :: "(string \<times> string) list \<Rightarrow> 'e option \<Rightarrow> 'w \<Rightarrow> 'p \<times> 'w"
  provider_shutdown :: "'p \<Rightarrow> 'w \<Rightarrow> string option \<times> 'w"

text \<open>An environment variable that is not set reads as the empty string.\<close>

type_synonym environment = "string \<Rightarrow> string"

definition instrumentation_name :: string where "instrumentation_name = ''sftp-proxy''"

definition otlp_protocol :: "environment \<Rightarrow> string" where
  "otlp_protocol env =
     (if env ''OTEL_EXPORTER_OTLP_TRACES_PROTOCOL'' \<noteq> [] then to_lower (env ''OTEL_EXPORTER_OTLP_TRACES_PROTOCOL'')
      else to_lower (env ''OTEL_EXPORTER_OTLP_PROTOCOL''))"

definition new_exporter :: "('w, 'e, 'p) otel \<Rightarrow> environment \<Rightarrow> ('w, string, 'e option) op" where
  "new_exporter lib env =
     (let chosen = to_lower (env ''OTEL_TRACES_EXPORTER'') in
      if chosen = [] \<or> chosen = ''console'' then bindE (new_stdout_exporter lib) (\<lambda>e. returnE (Some e))
      else if chosen = ''none'' then returnE None
      else if chosen = ''otlp'' then
        (if otlp_protocol env \<noteq> [] \<and> otlp_protocol env \<noteq> ''http/protobuf''
         then failE ''OTLP trace protocol is not supported''
         else bindE (new_otlp_exporter lib) (\<lambda>e. returnE (Some e)))
      else failE ''OTEL_TRACES_EXPORTER is not supported'')"

definition resource_for :: "('w, 'e, 'p) otel \<Rightarrow> ('w, string, (string \<times> string) list) op" where
  "resource_for lib =
     bindE (found_resource lib) (\<lambda>attributes.
       if list_ex (\<lambda>a. fst a = ''service.name'') attributes then returnE attributes
       else liftE (merge_resources lib attributes [(''service.name'', instrumentation_name)]))"

text \<open>A \<open>Runtime\<close> is its provider, whether the once has been done, and the error it left.\<close>

record 'p runtime =
  rt_provider :: 'p
  rt_shut :: bool
  rt_err :: "string option"

text \<open>The globals of the library are part of the process: how contexts travel, and who makes spans.\<close>

record ('w, 'p) tracing =
  traced_world :: 'w
  propagators :: "string list"
  tracer_provider :: "'p option"

definition on_traced :: "('w \<Rightarrow> 'r \<times> 'w) \<Rightarrow> ('w, 'p) tracing \<Rightarrow> 'r \<times> ('w, 'p) tracing" where
  "on_traced m t = (case m (traced_world t) of (r, w) \<Rightarrow> (r, t\<lparr>traced_world := w\<rparr>))"

definition telemetry_new :: "('w, 'e, 'p) otel \<Rightarrow> environment \<Rightarrow> (('w, 'p) tracing, string, 'p runtime) op" where
  "telemetry_new lib env t =
     (case on_traced (new_exporter lib env) (t\<lparr>propagators := [''tracecontext'', ''baggage'']\<rparr>) of
        (Inl e, t1) \<Rightarrow> (Inl e, t1)
      | (Inr exporter, t1) \<Rightarrow>
          (case on_traced (resource_for lib) t1 of
             (Inl e, t2) \<Rightarrow> (Inl e, t2)
           | (Inr resource, t2) \<Rightarrow>
               (case on_traced (new_provider lib resource exporter) t2 of
                  (p, t3) \<Rightarrow> (Inr \<lparr>rt_provider = p, rt_shut = False, rt_err = None\<rparr>, t3\<lparr>tracer_provider := Some p\<rparr>))))"

section \<open>Shut down\<close>

definition telemetry_shutdown :: "('w, 'e, 'p) otel \<Rightarrow> 'p runtime \<Rightarrow> ('w, 'p) tracing \<Rightarrow>
    (string option \<times> 'p runtime) \<times> ('w, 'p) tracing" where
  "telemetry_shutdown lib r t =
     (if rt_shut r then ((rt_err r, r), t)
      else (case on_traced (provider_shutdown lib (rt_provider r)) t of
              (e, t1) \<Rightarrow> ((e, r\<lparr>rt_shut := True, rt_err := e\<rparr>), t1)))"

section \<open>Clients\<close>

text \<open>A client is its transport, and what else it has: its cookie jar, its timeout.\<close>

datatype 'x transport = NoTransport | Plain 'x | Traced "'x transport"

record ('x, 'j) http_client =
  client_transport :: "'x transport"
  client_rest :: 'j

definition new_http_client :: "('x, 'j) http_client \<Rightarrow> ('x, 'j) http_client option \<Rightarrow> ('x, 'j) http_client" where
  "new_http_client default_client client =
     (let copy = (case client of None \<Rightarrow> default_client | Some c \<Rightarrow> c) in
      case client_transport copy of
        Traced t \<Rightarrow> copy
      | t \<Rightarrow> copy\<lparr>client_transport := Traced t\<rparr>)"

section \<open>Facts\<close>

lemma on_traced_app: "on_traced m t = (fst (m (traced_world t)), t\<lparr>traced_world := snd (m (traced_world t))\<rparr>)"
  by (simp add: on_traced_def case_prod_beta)

text \<open>What \<open>New\<close> returns has not been shut down, and is the provider of the process.\<close>

lemma telemetry_new_fresh:
  "telemetry_new lib env t = (Inr r, t') \<Longrightarrow>
     \<not> rt_shut r \<and> tracer_provider t' = Some (rt_provider r) \<and> propagators t' = [''tracecontext'', ''baggage'']"
  by (auto simp: telemetry_new_def on_traced_app split: sum.splits prod.splits)

text \<open>Traces are set up only as the environment asks for, and never under a protocol not supported.\<close>

lemma telemetry_new_asked:
  assumes "telemetry_new lib env t = (Inr r, t')"
  shows "to_lower (env ''OTEL_TRACES_EXPORTER'') \<in> {[], ''console'', ''none''} \<or>
     to_lower (env ''OTEL_TRACES_EXPORTER'') = ''otlp'' \<and> otlp_protocol env \<in> {[], ''http/protobuf''}"
proof (rule ccontr)
  assume "\<not> ?thesis"
  then have "\<exists>e. new_exporter lib env w = (Inl e, w)" for w
    by (auto simp: new_exporter_def Let_def)
  then obtain e where "new_exporter lib env (traced_world t) = (Inl e, traced_world t)" by blast
  then show False using assms by (simp add: telemetry_new_def on_traced_app)
qed

text \<open>A resource that names the service keeps that name.\<close>

lemma resource_for_named:
  "found_resource lib w = (Inr attributes, w') \<Longrightarrow> \<exists>v. (''service.name'', v) \<in> set attributes \<Longrightarrow>
     resource_for lib w = (Inr attributes, w')"
  by (auto simp: resource_for_def list_ex_iff)

text \<open>The provider is shut down by the first call; every later one answers what that did.\<close>

lemma shutdown_shuts: "rt_shut (snd (fst (telemetry_shutdown lib r t)))"
  by (simp add: telemetry_shutdown_def on_traced_app)

lemma shutdown_once:
  "telemetry_shutdown lib r t = ((e, r'), t') \<Longrightarrow> telemetry_shutdown lib r' u = ((e, r'), u)"
  by (auto simp: telemetry_shutdown_def on_traced_app split: if_splits)

text \<open>A client is instrumented by one layer, however often it is asked for, and keeps what else it has.\<close>

lemma client_traced_once:
  "new_http_client d (Some (new_http_client d c)) = new_http_client d c"
  "client_rest (new_http_client d (Some x)) = client_rest x"
  "\<exists>u. client_transport (new_http_client d c) = Traced u"
  by (auto simp: new_http_client_def Let_def split: transport.splits option.splits)

end
