(* ===== verification/Startup.thy ===== *)
theory Startup
  imports Telemetry Server_Properties Staging
begin

text \<open>
  How the process begins and ends: \<open>New\<close> and \<open>ListenAndServe\<close> of \<open>server/internal/server/server.go\<close>,
  \<open>Load\<close> of \<open>server/internal/config/config.go\<close>, and \<open>server/cmd/sftp-proxy/main.go\<close>, the command
  that puts them together.

  What the flags are parsed to, the decoding of JSON, bcrypt, the parsing of a private key and what
  a terminal answers are arguments; so is what connections do to the host's files while they are
  served, which the theory \<open>Composition\<close> is about. Logging is not modelled.
\<close>

section \<open>Files\<close>

text \<open>\<open>os.ReadFile\<close>, which asks for the length of the file first and does without when it is refused.\<close>

definition os_read_file :: "host_path \<Rightarrow> (host, os_error, bytes) op" where
  "os_read_file p h =
     (case os_open p h of
        (Inl e, h1) \<Rightarrow> (Inl e, h1)
      | (Inr fd, h1) \<Rightarrow>
          (case os_fstat fd h1 of (_, h2) \<Rightarrow>
            (case os_read_rest fd h2 of
               ((data, Some e), h3) \<Rightarrow> (Inl e, snd (os_close fd h3))
             | ((data, None), h3) \<Rightarrow> (Inr data, snd (os_close fd h3)))))"

lemma butlast_shorter: "butlast p \<noteq> [] \<Longrightarrow> length (butlast p) < length p"
  by (cases p) simp_all

text \<open>\<open>os.MkdirAll\<close>. A directory that has come to be there in the meantime will do.\<close>

function os_mkdir_all :: "host_path \<Rightarrow> uint32 \<Rightarrow> (host, os_error, unit) op" where
  "os_mkdir_all p mode h =
     (case os_stat p h of
        (Inr info, h1) \<Rightarrow> (if is_dir info then Inr () else Inl OtherError, h1)
      | (Inl _, h1) \<Rightarrow>
          (case (if butlast p = [] then (Inr (), h1) else os_mkdir_all (butlast p) mode h1) of
             (Inl e, h2) \<Rightarrow> (Inl e, h2)
           | (Inr _, h2) \<Rightarrow>
               (case os_mkdir p mode h2 of
                  (Inr _, h3) \<Rightarrow> (Inr (), h3)
                | (Inl e, h3) \<Rightarrow>
                    (case os_stat p h3 of
                       (Inr info, h4) \<Rightarrow> (if is_dir info then Inr () else Inl e, h4)
                     | (Inl _, h4) \<Rightarrow> (Inl e, h4)))))"
  by pat_completeness auto
termination
  by (relation "measure (\<lambda>(p, _). length p)") (simp_all add: butlast_shorter del: length_butlast)

declare os_mkdir_all.simps [simp del]

section \<open>Loading the configuration\<close>

text \<open>
  A stream of JSON is what is read of the file, and whether reading broke off there. Decoding a
  value that has to be a configuration, no unknown fields in it, leaves the rest of the stream; the
  rest must be at its end.
\<close>

type_synonym json_stream = "bytes \<times> bool"

record json_lib =
  decode_config :: "json_stream \<Rightarrow> (config \<times> json_stream) option"
  json_at_end :: "json_stream \<Rightarrow> bool"

definition load_config :: "crypto \<Rightarrow> json_lib \<Rightarrow> host_path \<Rightarrow> (host, config_error, config) op" where
  "load_config lib json path h =
     (case os_open path h of
        (Inl e, h1) \<Rightarrow> (Inl (Err ''read configuration''), h1)
      | (Inr fd, h1) \<Rightarrow>
          (case os_read_rest fd h1 of ((data, e), h2) \<Rightarrow>
            ((case decode_config json (data, e \<noteq> None) of
                None \<Rightarrow> Inl (Err ''decode configuration'')
              | Some (decoded, rest) \<Rightarrow>
                  if \<not> json_at_end json rest then Inl (Err ''decode configuration: multiple JSON values'')
                  else config_load lib decoded),
             snd (os_close fd h2))))"

section \<open>The server\<close>

record ('n, 'k) server =
  sv_config :: config
  sv_signer :: 'k
  sv_local :: "string list option"
  sv_s3 :: "'n s3_fs option"

definition staging_mode :: uint32 where "staging_mode = 448"

definition server_new :: "crypto \<Rightarrow> (bytes \<Rightarrow> 'k option) \<Rightarrow> 'n s3_lib \<Rightarrow> request_context \<Rightarrow> config \<Rightarrow>
    (host, config_error, ('n, 'k) server) op" where
  "server_new lib parse_key s3lib ctx cfg h =
     (case config_validate lib cfg of
        Some e \<Rightarrow> (Inl (Within ''validate configuration'' e), h)
      | None \<Rightarrow>
          (case os_read_file (components (HostKeyFile cfg)) h of
             (Inl e, h1) \<Rightarrow> (Inl (Err ''read SSH host key''), h1)
           | (Inr data, h1) \<Rightarrow>
               (case parse_key data of
                  None \<Rightarrow> (Inl (Err ''parse SSH host key''), h1)
                | Some signer \<Rightarrow>
                    (case open_backends s3lib cfg ctx h1 of
                       (Inl e, h2) \<Rightarrow> (Inl e, h2)
                     | (Inr (local, s3), h2) \<Rightarrow>
                         (case os_mkdir_all (components (UploadStagingDir cfg)) staging_mode h2 of
                            (Inl e, h3) \<Rightarrow> (Inl (Err ''create upload staging directory''), h3)
                          | (Inr _, h3) \<Rightarrow>
                              (Inr \<lparr>sv_config = cfg, sv_signer = signer, sv_local = local, sv_s3 = s3\<rparr>, h3))))))"

text \<open>
  Serving until the context is done, which closes the listeners: the connections each of them
  accepted, or the address that could not be listened on.
\<close>

definition listen_and_serve :: "(string \<times> string \<Rightarrow> bool) \<Rightarrow> config \<Rightarrow> (string \<times> string \<Rightarrow> 'c accepting list) \<Rightarrow>
    ((string \<times> string) list, string \<times> string, 'c list list) op" where
  "listen_and_serve allowed cfg arrivals listening =
     (case listen_all allowed cfg listening of
        (Inl item, listening1) \<Rightarrow> (Inl item, listening1)
      | (Inr listeners, listening1) \<Rightarrow>
          (Inr (map (\<lambda>l. serve_listener (arrivals l)) listeners), close_listeners listeners listening1))"

section \<open>The command\<close>

definition password_hash_cost :: nat where "password_hash_cost = 12"

record ('w, 'e, 'p, 'n, 'k) surroundings =
  su_crypto :: crypto
  su_json :: json_lib
  su_otel :: "('w, 'e, 'p) otel"
  su_env :: environment
  su_parse_key :: "bytes \<Rightarrow> 'k option"
  su_s3 :: "'n s3_lib"
  su_bcrypt :: "bytes \<Rightarrow> nat \<Rightarrow> string + string"
  su_typed :: "string + bytes"
  su_stdout_works :: bool
  su_allowed :: "string \<times> string \<Rightarrow> bool"

record ('w, 'p) process =
  proc_files :: host
  proc_tracing :: "('w, 'p) tracing"
  proc_listening :: "(string \<times> string) list"
  proc_stdout :: string

definition hash_password :: "(bytes \<Rightarrow> nat \<Rightarrow> string + string) \<Rightarrow> bytes \<Rightarrow> string + string" where
  "hash_password generate password =
     (if password = [] then Inl ''password cannot be empty'' else generate password password_hash_cost)"

text \<open>The prompt and the line after it go to the standard error, which nothing depends on.\<close>

definition print_password_hash :: "('w, 'e, 'p, 'n, 'k) surroundings \<Rightarrow> (('w, 'p) process, string, unit) op" where
  "print_password_hash su p =
     (case su_typed su of
        Inl e \<Rightarrow> (Inl e, p)
      | Inr password \<Rightarrow>
          (case hash_password (su_bcrypt su) password of
             Inl e \<Rightarrow> (Inl e, p)
           | Inr hash \<Rightarrow>
               if su_stdout_works su then (Inr (), p\<lparr>proc_stdout := proc_stdout p @ hash @ ''\<newline>''\<rparr>)
               else (Inl ''write'', p)))"

record flags =
  fl_config :: string
  fl_hash_password :: bool

text \<open>How the process ends: its exit status, the runtime of its traces, and the connections it took.\<close>

record ('p, 'c) ending =
  exit_status :: nat
  end_tracing :: "'p runtime option"
  end_served :: "'c list list"

definition shut_tracing :: "('w, 'e, 'p) otel \<Rightarrow> 'p runtime \<Rightarrow> ('w, 'p) process \<Rightarrow> 'p runtime \<times> ('w, 'p) process" where
  "shut_tracing lib r p =
     (case telemetry_shutdown lib r (proc_tracing p) of ((e, r1), t) \<Rightarrow> (r1, p\<lparr>proc_tracing := t\<rparr>))"

definition serve_until_stopped :: "('w, 'e, 'p, 'n, 'k) surroundings \<Rightarrow> (string \<times> string \<Rightarrow> 'c accepting list) \<Rightarrow>
    (('n, 'k) server \<Rightarrow> 'c list list \<Rightarrow> host \<Rightarrow> host) \<Rightarrow> ('n, 'k) server \<Rightarrow> ('w, 'p) process \<Rightarrow>
    (string \<times> string + 'c list list) \<times> ('w, 'p) process" where
  "serve_until_stopped su arrivals during sv p =
     (case listen_and_serve (su_allowed su) (sv_config sv) arrivals (proc_listening p) of
        (Inl item, ls) \<Rightarrow> (Inl item, p\<lparr>proc_listening := ls\<rparr>)
      | (Inr cs, ls) \<Rightarrow> (Inr cs, p\<lparr>proc_listening := ls, proc_files := during sv cs (proc_files p)\<rparr>))"

definition main :: "('w, 'e, 'p, 'n, 'k) surroundings \<Rightarrow> request_context \<Rightarrow> (string \<times> string \<Rightarrow> 'c accepting list) \<Rightarrow>
    (('n, 'k) server \<Rightarrow> 'c list list \<Rightarrow> host \<Rightarrow> host) \<Rightarrow> flags \<Rightarrow> ('w, 'p) process \<Rightarrow>
    ('p, 'c) ending \<times> ('w, 'p) process" where
  "main su ctx arrivals during fl p =
     (if fl_hash_password fl then
        (case print_password_hash su p of
           (r, p1) \<Rightarrow> (\<lparr>exit_status = (if isl r then 1 else 0), end_tracing = None, end_served = []\<rparr>, p1))
      else
        (case load_config (su_crypto su) (su_json su) (components (fl_config fl)) (proc_files p) of
           (Inl e, h1) \<Rightarrow> (\<lparr>exit_status = 1, end_tracing = None, end_served = []\<rparr>, p\<lparr>proc_files := h1\<rparr>)
         | (Inr cfg, h1) \<Rightarrow>
             (case telemetry_new (su_otel su) (su_env su) (proc_tracing p) of
                (Inl e, t1) \<Rightarrow> (\<lparr>exit_status = 1, end_tracing = None, end_served = []\<rparr>,
                               p\<lparr>proc_files := h1, proc_tracing := t1\<rparr>)
              | (Inr rt, t1) \<Rightarrow>
                  (case server_new (su_crypto su) (su_parse_key su) (su_s3 su) ctx cfg h1 of
                     (Inl e, h2) \<Rightarrow>
                       (case shut_tracing (su_otel su) rt (p\<lparr>proc_files := h2, proc_tracing := t1\<rparr>) of
                          (rt1, p1) \<Rightarrow> (\<lparr>exit_status = 1, end_tracing = Some rt1, end_served = []\<rparr>, p1))
                   | (Inr sv, h2) \<Rightarrow>
                       (case serve_until_stopped su arrivals during sv (p\<lparr>proc_files := h2, proc_tracing := t1\<rparr>) of
                          (r, p1) \<Rightarrow>
                            (case shut_tracing (su_otel su) rt p1 of
                               (rt1, p2) \<Rightarrow>
                                 (\<lparr>exit_status = (if isl r then 1 else 0), end_tracing = Some rt1,
                                   end_served = (case r of Inl _ \<Rightarrow> [] | Inr cs \<Rightarrow> cs)\<rparr>, p2)))))))"

end
