(* ===== verification/Startup_Properties.thy ===== *)
theory Startup_Properties
  imports Startup Config_Facts S3fs_Properties
begin

text \<open>
  What holds of a server that has started, what starting changes on the disk, and how the process
  ends: its exit status, its listeners and its traces.
\<close>

section \<open>Calls that change no file\<close>

definition only_makes :: "host_path \<Rightarrow> host \<Rightarrow> host \<Rightarrow> bool" where
  "only_makes p h h' \<longleftrightarrow> inodes h' = inodes h \<and> next_inode h' = next_inode h \<and>
     (\<forall>q. object_at h' q = object_at h q \<or> object_at h q = None \<and> prefix q p \<and> is_directory_at h' q)"

definition same_files_as :: "host \<Rightarrow> host \<Rightarrow> bool" where
  "same_files_as h h' \<longleftrightarrow> names h' = names h \<and> inodes h' = inodes h \<and> next_inode h' = next_inode h"

lemma only_makes_nothing: "same_files_as h h' \<Longrightarrow> only_makes p h h'"
  by (simp add: only_makes_def same_files_as_def object_at_def)

lemma only_makesD:
  "only_makes p h h' \<Longrightarrow> object_at h' q = object_at h q \<or> object_at h q = None \<and> prefix q p \<and> is_directory_at h' q"
  by (simp add: only_makes_def)

lemma only_makes_dir:
  assumes "only_makes p h h'" and "is_directory_at h q"
  shows "is_directory_at h' q"
proof -
  have "object_at h q \<noteq> None" using assms(2) by (auto simp: is_directory_at_def split: option.splits)
  then have "object_at h' q = object_at h q" using only_makesD [OF assms(1), of q] by auto
  then show ?thesis using assms(2) by (simp add: is_directory_at_def)
qed

lemma only_makes_trans:
  assumes ab: "only_makes p a b" and bc: "only_makes p b c"
  shows "only_makes p a c"
  unfolding only_makes_def
proof (intro conjI allI)
  show "inodes c = inodes a" "next_inode c = next_inode a" using assms by (simp_all add: only_makes_def)
  fix q
  have b: "object_at b q = object_at a q \<or> object_at a q = None \<and> prefix q p \<and> is_directory_at b q"
    using only_makesD [OF ab] .
  have c: "object_at c q = object_at b q \<or> object_at b q = None \<and> prefix q p \<and> is_directory_at c q"
    using only_makesD [OF bc] .
  show "object_at c q = object_at a q \<or> object_at a q = None \<and> prefix q p \<and> is_directory_at c q"
    using b c only_makes_dir [OF bc, of q] by auto
qed

lemma only_makes_above: "only_makes (butlast p) h h' \<Longrightarrow> only_makes p h h'"
  unfolding only_makes_def using prefix_order.trans [OF _ prefixeq_butlast] by blast

definition quiet :: "(host \<Rightarrow> 'r \<times> host) \<Rightarrow> bool" where
  "quiet m \<longleftrightarrow> (\<forall>h. same_files_as h (snd (m h)))"

lemma quiet_result: "quiet m \<Longrightarrow> m h = (r, h') \<Longrightarrow> same_files_as h h'"
  unfolding quiet_def by (metis snd_conv)

lemma same_files_as_trans: "same_files_as a b \<Longrightarrow> same_files_as b c \<Longrightarrow> same_files_as a c"
  by (simp add: same_files_as_def)

lemma quiet_makes: "quiet m \<Longrightarrow> m h = (r, h') \<Longrightarrow> only_makes p h h'"
  by (rule only_makes_nothing) (rule quiet_result)

lemma quiet_os_call: "quiet f \<Longrightarrow> quiet (os_call f)"
  by (auto simp: quiet_def same_files_as_def os_call_def Let_def split: option.splits)

lemma quiet_os_stat: "quiet (os_stat p)"
  unfolding os_stat_def by (rule quiet_os_call) (auto simp: quiet_def same_files_as_def split: option.splits)

lemma quiet_os_fstat: "quiet (os_fstat fd)"
  unfolding os_fstat_def by (rule quiet_os_call) (auto simp: quiet_def same_files_as_def split: option.splits)

lemma quiet_os_open: "quiet (os_open p)"
  unfolding os_open_def
  by (rule quiet_os_call) (auto simp: quiet_def same_files_as_def new_handle_def split: option.splits object.splits)

lemma quiet_open_root: "quiet (open_root p)"
  unfolding open_root_def by (rule quiet_os_call) (auto simp: quiet_def same_files_as_def split: option.splits)

lemma quiet_os_close: "quiet (os_close fd)"
  by (auto simp: quiet_def same_files_as_def os_close_def Let_def split: option.splits)

lemma quiet_os_read_rest: "quiet (os_read_rest fd)"
  by (auto simp: quiet_def same_files_as_def os_read_rest_def Let_def split: option.splits prod.splits)

lemmas quiet_calls = quiet_os_stat quiet_os_fstat quiet_os_open quiet_open_root quiet_os_close quiet_os_read_rest

lemma quiet_read_file: "quiet (os_read_file p)"
proof -
  have "same_files_as h (snd (os_read_file p h))" for h
  proof -
    obtain r h1 where o: "os_open p h = (r, h1)" by (metis surj_pair)
    note 1 = quiet_result [OF quiet_os_open o]
    show ?thesis
    proof (cases r)
      case (Inr fd)
      obtain i h2 where s: "os_fstat fd h1 = (i, h2)" by (metis surj_pair)
      obtain data e h3 where d: "os_read_rest fd h2 = ((data, e), h3)" by (metis surj_pair)
      have "same_files_as h3 (snd (os_close fd h3))" using quiet_os_close unfolding quiet_def by blast
      then have "same_files_as h (snd (os_close fd h3))"
        using same_files_as_trans [OF same_files_as_trans [OF same_files_as_trans [OF 1 quiet_result [OF quiet_os_fstat s]]
            quiet_result [OF quiet_os_read_rest d]]] by simp
      then show ?thesis using o Inr s d by (cases e) (simp_all add: os_read_file_def)
    qed (use o 1 in \<open>simp add: os_read_file_def\<close>)
  qed
  then show ?thesis by (simp add: quiet_def)
qed

text \<open>What is read of a file is all it holds.\<close>

lemma read_file_contents:
  assumes "os_read_file p h = (Inr data, h')"
  shows "\<exists>i held. object_at h p = Some (RegularAt i) \<and> inodes h i = Some held \<and> data = contents held"
proof -
  obtain fd h1 where o: "os_open p h = (Inr fd, h1)"
    using assms by (auto simp: os_read_file_def split: prod.splits sum.splits)
  obtain i h2 where s: "os_fstat fd h1 = (i, h2)" by (metis surj_pair)
  obtain e h3 where d: "os_read_rest fd h2 = ((data, e), h3)" and "e = None"
    using assms o s by (auto simp: os_read_file_def split: prod.splits option.splits)
  have same: "handles h2 = handles h1" "inodes h2 = inodes h1" "positions h2 = positions h1"
    using s by (auto simp: os_fstat_def os_call_def Let_def split: option.splits)
  obtain ob where ob: "object_at h p = Some ob" and h1: "positions h1 fd = 0" "inodes h1 = inodes h"
      "handles h1 fd = Some (case ob of RegularAt i \<Rightarrow> ReadHandle i | DirectoryOf _ _ \<Rightarrow> DirHandle p | Special m \<Rightarrow> SpecialHandle m)"
    using o by (auto simp: os_open_def os_call_def new_handle_def Let_def split: option.splits object.splits)
  obtain k held where "inode_of h2 fd = Some k" "inodes h2 k = Some held"
    using d \<open>e = None\<close> by (auto simp: os_read_rest_def Let_def bind_eq_Some_conv split: option.splits)
  moreover from this have "data = contents held"
    using d \<open>e = None\<close> same h1(1) by (auto simp: os_read_rest_def Let_def split: option.splits)
  ultimately show ?thesis
    using ob h1 same by (cases ob) (auto simp: inode_of_def)
qed

section \<open>Making a directory and those above it\<close>

lemma os_stat_dir: "os_stat p h = (Inr info, h') \<Longrightarrow> is_dir info \<Longrightarrow> is_directory_at h' p"
  by (auto simp: os_stat_def os_call_def Let_def is_directory_at_def object_info_def split: option.splits object.splits)

lemma os_mkdir_makes:
  assumes "os_mkdir p mode h = (r, h')"
  shows "only_makes p h h' \<and> (r = Inr () \<longrightarrow> is_directory_at h' p)"
  using assms
  by (auto simp: os_mkdir_def os_call_def Let_def only_makes_def object_at_def is_directory_at_def map_add_def
      split: option.splits if_splits)

lemma os_mkdir_all_makes:
  "os_mkdir_all p mode h = (r, h') \<Longrightarrow> only_makes p h h' \<and> (r = Inr () \<longrightarrow> is_directory_at h' p)"
proof (induction p mode h arbitrary: r h' rule: os_mkdir_all.induct)
  case (1 p mode h)
  obtain x h1 where s: "os_stat p h = (x, h1)" by (metis surj_pair)
  have m1: "only_makes p h h1" using quiet_makes [OF quiet_os_stat s] .
  show ?case
  proof (cases x)
    case (Inr info)
    then show ?thesis
      using "1.prems" s m1 os_stat_dir [of p h info h1] by (subst (asm) os_mkdir_all.simps) (auto split: if_splits)
  next
    case (Inl e)
    define up where "up = (if butlast p = [] then (Inr (), h1) else os_mkdir_all (butlast p) mode h1)"
    obtain y h2 where u: "up = (y, h2)" by (metis surj_pair)
    have "only_makes (butlast p) h1 h2"
    proof (cases "butlast p = []")
      case False
      have "os_mkdir_all (butlast p) mode h1 = (y, h2)" using u False by (simp add: up_def)
      from "1.IH" [OF s [symmetric] Inl False this] show ?thesis by blast
    qed (use u in \<open>simp add: up_def only_makes_nothing same_files_as_def\<close>)
    then have m2: "only_makes p h h2" using only_makes_trans [OF m1] only_makes_above by blast
    obtain z h3 where k: "os_mkdir p mode h2 = (z, h3)" by (metis surj_pair)
    have m3: "only_makes p h h3" and d3: "z = Inr () \<Longrightarrow> is_directory_at h3 p"
      using only_makes_trans [OF m2] os_mkdir_makes [OF k] by blast+
    obtain v h4 where t: "os_stat p h3 = (v, h4)" by (metis surj_pair)
    have m4: "only_makes p h h4" using only_makes_trans [OF m3] quiet_makes [OF quiet_os_stat t] by blast
    have "(r, h') = (case up of (Inl e, h2) \<Rightarrow> (Inl e, h2)
        | (Inr _, h2) \<Rightarrow> (case os_mkdir p mode h2 of (Inr _, h3) \<Rightarrow> (Inr (), h3)
           | (Inl e, h3) \<Rightarrow> (case os_stat p h3 of
                (Inr info, h4) \<Rightarrow> (if is_dir info then Inr () else Inl e, h4) | (Inl _, h4) \<Rightarrow> (Inl e, h4))))"
      using "1.prems" s Inl by (subst (asm) os_mkdir_all.simps) (simp add: up_def)
    then show ?thesis
      using u k t m2 m3 m4 d3 os_stat_dir [of p h3 _ h4]
      by (cases y; cases z; cases v) (auto split: if_splits)
  qed
qed

section \<open>Opening the allowed prefixes\<close>

lemma open_root_dir: "open_root p h = (Inr u, h') \<Longrightarrow> is_directory_at h' p"
  by (auto simp: open_root_def os_call_def Let_def is_directory_at_def split: option.splits if_splits)

lemma local_new_loop_opens:
  assumes "local_new_loop opened allowed h = (Inr roots, h')" and "list_all (\<lambda>r. is_directory_at h (components r)) opened"
  shows "roots = opened @ map path_clean allowed \<and> same_files_as h h' \<and>
     list_all (\<lambda>r. is_directory_at h' (components r)) roots"
  using assms
proof (induction opened allowed arbitrary: h rule: local_new_loop.induct)
  case (2 opened p ps)
  obtain u h1 where o: "open_root (components (path_clean p)) h = (Inr u, h1)" and abs: "is_abs p"
    using "2.prems"(1) by (auto split: if_splits prod.splits sum.splits)
  note same = quiet_result [OF quiet_open_root o]
  then have dirs: "is_directory_at h1 q = is_directory_at h q" for q
    by (simp add: is_directory_at_def object_at_def same_files_as_def)
  have "list_all (\<lambda>r. is_directory_at h1 (components r)) (opened @ [path_clean p])"
    using "2.prems"(2) open_root_dir [OF o] by (simp add: dirs)
  moreover have "local_new_loop (opened @ [path_clean p]) ps h1 = (Inr roots, h')" using abs "2.prems"(1) o by simp
  ultimately show ?case using "2.IH" [of "Inr u" h1 h u h1] abs o same_files_as_trans [OF same] by auto
qed (simp add: same_files_as_def)

lemma file_prefixes_clean: "prefix_loop earlier ps = None \<Longrightarrow> map path_clean ps = ps"
  by (induction earlier ps rule: prefix_loop.induct) auto

definition allowed_prefixes :: "config \<Rightarrow> string list" where
  "allowed_prefixes cfg = (case FileBackend cfg of None \<Rightarrow> [] | Some allowed \<Rightarrow> allowed)"

lemma open_backends_opens:
  assumes "open_backends lib cfg ctx h = (Inr (local, s3), h')" and "config_validate crypto cfg = None"
  shows "local = FileBackend cfg \<and> (s3 \<noteq> None \<longleftrightarrow> S3Backend cfg \<noteq> None) \<and>
     (\<forall>b. s3 = Some b \<longrightarrow> s3_staging b = components (UploadStagingDir cfg)) \<and>
     same_files_as h h' \<and>
     (\<forall>r \<in> set (allowed_prefixes cfg). is_directory_at h' (components r))"
proof -
  obtain h1 where l: "open_local cfg h = (Inr local, h1)" and s: "open_s3 lib cfg ctx = Inr s3" and h: "h' = h1"
    using assms(1) by (auto simp: open_backends_def bindE_Inr_iff)
  have "local = FileBackend cfg \<and> same_files_as h h1 \<and>
      (\<forall>r \<in> set (allowed_prefixes cfg). is_directory_at h1 (components r))"
  proof (cases "FileBackend cfg")
    case (Some allowed)
    then have v: "file_backend_validate allowed = None" using assms(2) by (simp add: config_validate_def)
    obtain roots where n: "local_new allowed h = (Inr roots, h1)" "local = Some roots"
      using l Some by (auto simp: open_local_def split: prod.splits sum.splits)
    then have "local_new_loop [] allowed h = (Inr roots, h1)" by (simp add: local_new_def split: if_splits)
    from local_new_loop_opens [OF this] file_prefixes_clean [of "[]" allowed] v Some n show ?thesis
      by (auto simp: file_backend_validate_def allowed_prefixes_def list_all_iff split: if_splits)
  qed (use l in \<open>simp add: open_local_def allowed_prefixes_def same_files_as_def\<close>)
  moreover have "(s3 \<noteq> None \<longleftrightarrow> S3Backend cfg \<noteq> None) \<and> (\<forall>b. s3 = Some b \<longrightarrow> s3_staging b = components (UploadStagingDir cfg))"
    using s by (auto simp: open_s3_def s3_new_def split: option.splits)
  ultimately show ?thesis using h by simp
qed

section \<open>A server that starts\<close>

lemma server_new_keeps: "server_new lib parse_key s3lib ctx cfg h = (Inr sv, h') \<Longrightarrow> sv_config sv = cfg"
  by (auto simp: server_new_def split: option.splits prod.splits sum.splits)

text \<open>
  C38. A server that starts has what it needs: a configuration that passes every check, the
  key that the host key file holds, the backends the deployment consented to and no others,
  every allowed prefix an existing directory, and a directory for its staging files. On the
  way nothing on the disk has changed but that the staging directory and those above it were
  made where they were missing.
\<close>

theorem server_new_ready:
  assumes "server_new lib parse_key s3lib ctx cfg h = (Inr sv, h')"
  shows "config_validate lib cfg = None \<and> sv_config sv = cfg \<and>
    (\<exists>i held. object_at h (components (HostKeyFile cfg)) = Some (RegularAt i) \<and> inodes h i = Some held \<and>
       parse_key (contents held) = Some (sv_signer sv)) \<and>
    sv_local sv = FileBackend cfg \<and> (sv_s3 sv \<noteq> None \<longleftrightarrow> S3Backend cfg \<noteq> None) \<and>
    (\<forall>b. sv_s3 sv = Some b \<longrightarrow> s3_staging b = components (UploadStagingDir cfg)) \<and>
    (\<forall>r \<in> set (UploadStagingDir cfg # allowed_prefixes cfg). is_directory_at h' (components r)) \<and>
    only_makes (components (UploadStagingDir cfg)) h h'"
proof -
  have v: "config_validate lib cfg = None"
    using assms by (auto simp: server_new_def split: option.splits)
  obtain data h1 where r: "os_read_file (components (HostKeyFile cfg)) h = (Inr data, h1)"
    using assms v by (auto simp: server_new_def split: prod.splits sum.splits)
  obtain signer where k: "parse_key data = Some signer"
    using assms v r by (auto simp: server_new_def split: option.splits)
  obtain local s3 h2 where b: "open_backends s3lib cfg ctx h1 = (Inr (local, s3), h2)"
    using assms v r k by (auto simp: server_new_def split: prod.splits sum.splits)
  obtain u where m: "os_mkdir_all (components (UploadStagingDir cfg)) staging_mode h2 = (Inr u, h')"
      and sv: "sv = \<lparr>sv_config = cfg, sv_signer = signer, sv_local = local, sv_s3 = s3\<rparr>"
    using assms v r k b by (auto simp: server_new_def split: prod.splits sum.splits)
  note opened = open_backends_opens [OF b v] and made = os_mkdir_all_makes [OF m]
  have 1: "only_makes (components (UploadStagingDir cfg)) h h1" using quiet_makes [OF quiet_read_file r] .
  have 2: "only_makes (components (UploadStagingDir cfg)) h h2"
    using only_makes_trans [OF 1 only_makes_nothing] opened by blast
  have 3: "only_makes (components (UploadStagingDir cfg)) h h'" using only_makes_trans [OF 2] made by blast
  have "\<forall>r \<in> set (UploadStagingDir cfg # allowed_prefixes cfg). is_directory_at h' (components r)"
    using opened made only_makes_dir by auto
  with v sv k opened read_file_contents [OF r] 3 show ?thesis by auto
qed

section \<open>Nothing is written\<close>

definition not_writing :: "host \<Rightarrow> bool" where
  "not_writing h \<longleftrightarrow> (\<forall>fd i. handles h fd \<noteq> Some (WriteHandle i))"

lemma not_writing_calls:
  "keeps not_writing (os_stat p)" "keeps not_writing (os_open p)" "keeps not_writing (os_fstat fd)"
  "keeps not_writing (os_read_rest fd)" "keeps not_writing (os_close fd)" "keeps not_writing (open_root p)"
  "keeps not_writing (os_mkdir p mode)"
  by (auto simp: keeps_def not_writing_def os_stat_def os_open_def os_fstat_def os_read_rest_def os_close_def
      open_root_def os_mkdir_def os_call_def new_handle_def Let_def
      split: option.splits object.splits prod.splits if_splits)

lemma not_writing_read_file: "keeps not_writing (os_read_file p)"
proof (rule keepsI)
  fix h
  assume w: "not_writing h"
  obtain r h1 where o: "os_open p h = (r, h1)" by (metis surj_pair)
  note 1 = keepsD' [OF not_writing_calls(2) w o]
  show "not_writing (snd (os_read_file p h))"
  proof (cases r)
    case (Inr fd)
    obtain i h2 where s: "os_fstat fd h1 = (i, h2)" by (metis surj_pair)
    obtain data e h3 where d: "os_read_rest fd h2 = ((data, e), h3)" by (metis surj_pair)
    have "not_writing h3" using keepsD' [OF not_writing_calls(4) keepsD' [OF not_writing_calls(3) 1 s] d] .
    then show ?thesis using o Inr s d keepsD [OF not_writing_calls(5)] by (cases e) (simp_all add: os_read_file_def)
  qed (use o 1 in \<open>simp add: os_read_file_def\<close>)
qed

lemma not_writing_mkdir_all: "not_writing h \<Longrightarrow> not_writing (snd (os_mkdir_all p mode h))"
proof (induction p mode h rule: os_mkdir_all.induct)
  case (1 p mode h)
  obtain x h1 where s: "os_stat p h = (x, h1)" by (metis surj_pair)
  have w1: "not_writing h1" using keepsD' [OF not_writing_calls(1) "1.prems" s] .
  show ?case
  proof (cases x)
    case (Inr info)
    then show ?thesis using s w1 by (subst os_mkdir_all.simps) simp
  next
    case (Inl e)
    define up where "up = (if butlast p = [] then (Inr (), h1) else os_mkdir_all (butlast p) mode h1)"
    obtain y h2 where u: "up = (y, h2)" by (metis surj_pair)
    have w2: "not_writing h2"
    proof (cases "butlast p = []")
      case False
      have "not_writing (snd (os_mkdir_all (butlast p) mode h1))" using "1.IH" [OF s [symmetric] Inl False w1] .
      then show ?thesis using u False by (simp add: up_def)
    qed (use u w1 in \<open>simp add: up_def\<close>)
    obtain z h3 where k: "os_mkdir p mode h2 = (z, h3)" by (metis surj_pair)
    obtain v h4 where t: "os_stat p h3 = (v, h4)" by (metis surj_pair)
    have w3: "not_writing h3" using keepsD' [OF not_writing_calls(7) w2 k] .
    have w4: "not_writing h4" using keepsD' [OF not_writing_calls(1) w3 t] .
    have "os_mkdir_all p mode h = (case up of (Inl e, h2) \<Rightarrow> (Inl e, h2)
        | (Inr _, h2) \<Rightarrow> (case os_mkdir p mode h2 of (Inr _, h3) \<Rightarrow> (Inr (), h3)
           | (Inl e, h3) \<Rightarrow> (case os_stat p h3 of
                (Inr info, h4) \<Rightarrow> (if is_dir info then Inr () else Inl e, h4) | (Inl _, h4) \<Rightarrow> (Inl e, h4))))"
      using s Inl by (subst os_mkdir_all.simps) (simp add: up_def)
    then show ?thesis using u k t w2 w3 w4 by (cases y; cases z; cases v) simp_all
  qed
qed

lemma not_writing_roots: "keeps not_writing (local_new_loop opened allowed)"
proof (induction opened allowed rule: local_new_loop.induct)
  case (2 opened p ps)
  show ?case
  proof (rule keepsI)
    fix h
    assume w: "not_writing h"
    obtain r h1 where o: "open_root (components (path_clean p)) h = (r, h1)" by (metis surj_pair)
    have w1: "not_writing h1" using keepsD' [OF not_writing_calls(6) w o] .
    show "not_writing (snd (local_new_loop opened (p # ps) h))"
    proof (cases r)
      case (Inr u)
      show ?thesis
      proof (cases "is_abs p")
        case True
        then have "keeps not_writing (local_new_loop (opened @ [path_clean p]) ps)"
          using "2.IH" [OF _ o [symmetric] Inr] by simp
        from keepsD [OF this w1] True o Inr show ?thesis by simp
      qed (use w in simp)
    qed (use o w w1 in simp)
  qed
qed (simp add: keeps_def)

lemma not_writing_backends: "keeps not_writing (open_backends lib cfg ctx)"
proof -
  have "keeps not_writing (local_new allowed)" for allowed
    by (simp add: local_new_def keeps_failE not_writing_roots)
  then have "keeps not_writing (open_local cfg)"
    by (cases "FileBackend cfg") (auto simp: open_local_def keeps_def split: prod.splits sum.splits, (metis snd_conv)+)
  then show ?thesis unfolding open_backends_def by (intro keeps_rules)
qed

lemma server_new_not_writing:
  assumes "server_new lib parse_key s3lib ctx cfg h = (Inr sv, h')" and "not_writing h"
  shows "not_writing h'"
proof -
  obtain data h1 where r: "os_read_file (components (HostKeyFile cfg)) h = (Inr data, h1)"
    using assms(1) by (auto simp: server_new_def split: option.splits prod.splits sum.splits)
  obtain ls h2 where b: "open_backends s3lib cfg ctx h1 = (Inr ls, h2)"
    using assms(1) r by (auto simp: server_new_def split: option.splits prod.splits sum.splits)
  have "h' = snd (os_mkdir_all (components (UploadStagingDir cfg)) staging_mode h2)"
    using assms(1) r b by (auto simp: server_new_def split: option.splits prod.splits sum.splits)
  then show ?thesis
    using not_writing_mkdir_all keepsD' [OF not_writing_backends keepsD' [OF not_writing_read_file assms(2) r] b] by simp
qed

text \<open>A host with a key, the prefixes the sample configuration allows, and no staging directory yet.\<close>

definition bare_host :: host where
  "bare_host = \<lparr>
     names = [([], DirectoryOf 493 0), ([''k''], RegularAt 0), ([''srv''], DirectoryOf 493 0),
              ([''srv'', ''a''], DirectoryOf 493 0), ([''srv'', ''b''], DirectoryOf 493 0)],
     inodes = [0 \<mapsto> \<lparr>contents = ''key'', perm = 384, modified = 0\<rparr>],
     next_inode = 1, handles = Map.empty, next_handle = 3, positions = (\<lambda>_. 0), calls = 0,
     faults = (\<lambda>_. None), clock = (\<lambda>_. 7), entropy = (\<lambda>_. 5), umask = 18\<rparr>"

definition sample_parse_key :: "bytes \<Rightarrow> string option" where
  "sample_parse_key data = (if data = ''key'' then Some ''signer'' else None)"

definition sample_start :: "(config_error + (held, string) server) \<times> host" where
  "sample_start = server_new sample_crypto sample_parse_key sample_store \<lparr>ctx_stamp = None\<rparr> sample_config bare_host"

lemma sample_starts: "\<not> isl (fst sample_start)"
  by code_simp

lemma sample_server_starts: "\<exists>sv h. sample_start = (Inr sv, h)"
proof -
  obtain x h where x: "sample_start = (x, h)" by (metis surj_pair)
  have "\<not> isl x" using sample_starts unfolding x by simp
  then obtain sv where "x = Inr sv" by (cases x) simp_all
  then show ?thesis using x by blast
qed

theorem server_new_ready_witness:
  "\<exists>sv h. sample_start = (Inr sv, h) \<and> sv_signer sv = ''signer'' \<and> sv_local sv = Some [''/srv/a'', ''/srv/b''] \<and>
     is_directory_at h [''s''] \<and> \<not> is_directory_at bare_host [''s'']"
proof -
  obtain sv h where s: "sample_start = (Inr sv, h)" using sample_server_starts by blast
  have c: "components ''s'' = [''s'']" "components ''k'' = [''k'']" by code_simp+
  have k: "object_at bare_host [''k''] = Some (RegularAt 0)" "\<not> is_directory_at bare_host [''s'']" by code_simp+
  note r = server_new_ready [OF s [unfolded sample_start_def]]
  have "sv_local sv = Some [''/srv/a'', ''/srv/b'']" "is_directory_at h [''s'']"
    using r by (simp_all add: sample_config_def c)
  moreover have "sv_signer sv = ''signer''"
    using r k by (auto simp: sample_config_def c bare_host_def sample_parse_key_def split: if_splits)
  ultimately show ?thesis using s k by blast
qed

section \<open>Loading\<close>

text \<open>What is loaded has its defaults and passes every check.\<close>

lemma load_config_valid:
  assumes "load_config lib json path h = (Inr cfg, h')"
  shows "config_validate lib cfg = None \<and> (\<exists>decoded. cfg = config_defaults decoded)"
  using assms
  by (auto simp: load_config_def config_load_def Let_def split: prod.splits sum.splits option.splits if_splits)

section \<open>How the process ends\<close>

lemma listen_loop_refuses:
  "listen_loop allowed listeners items listening = (Inl item, listening') \<Longrightarrow> item \<in> set items"
  by (induction items arbitrary: listeners listening) (auto split: if_splits)

lemma serve_until_stopped_listening:
  assumes "serve_until_stopped su arrivals during sv p = (r, p')"
  shows "mset (proc_listening p') = mset (proc_listening p) \<and>
    (isl r \<longleftrightarrow> \<not> list_all (su_allowed su) (listen_addresses (sv_config sv)))"
proof -
  obtain x ls where l: "listen_all (su_allowed su) (sv_config sv) (proc_listening p) = (x, ls)" by (metis surj_pair)
  note either = listen_all_or_none [OF l]
  show ?thesis
  proof (cases x)
    case (Inl item)
    have "item \<in> set (listen_addresses (sv_config sv))"
      using l Inl listen_loop_refuses unfolding listen_all_def by blast
    then show ?thesis
      using assms l Inl either by (auto simp: serve_until_stopped_def listen_and_serve_def list_all_iff)
  next
    case (Inr listeners)
    then show ?thesis
      using assms l either by (auto simp: serve_until_stopped_def listen_and_serve_def close_listeners_mset)
  qed
qed

text \<open>What has to go well for a run of the command to end with status zero.\<close>

definition password_printed :: "('w, 'e, 'p, 'n, 'k) surroundings \<Rightarrow> bool" where
  "password_printed su \<longleftrightarrow> su_stdout_works su \<and>
     (\<exists>password hash. su_typed su = Inr password \<and> password \<noteq> [] \<and>
        su_bcrypt su password password_hash_cost = Inr hash)"

definition tracing_up :: "('w, 'e, 'p, 'n, 'k) surroundings \<Rightarrow> flags \<Rightarrow> ('w, 'p) process \<Rightarrow> config \<Rightarrow> host \<Rightarrow>
    'p runtime \<Rightarrow> ('w, 'p) tracing \<Rightarrow> bool" where
  "tracing_up su fl p cfg h rt t \<longleftrightarrow> \<not> fl_hash_password fl \<and>
     load_config (su_crypto su) (su_json su) (components (fl_config fl)) (proc_files p) = (Inr cfg, h) \<and>
     telemetry_new (su_otel su) (su_env su) (proc_tracing p) = (Inr rt, t)"

lemma hash_password_printed:
  "print_password_hash su p = (r, p') \<Longrightarrow>
     (\<not> isl r \<longleftrightarrow> password_printed su) \<and> proc_listening p' = proc_listening p \<and> proc_tracing p' = proc_tracing p"
  by (auto simp: print_password_hash_def hash_password_def password_printed_def split: sum.splits if_splits)

lemma main_hashes:
  assumes "fl_hash_password fl"
  shows "main su ctx arrivals during fl p =
    (case print_password_hash su p of
       (r, p1) \<Rightarrow> (\<lparr>exit_status = (if isl r then 1 else 0), end_tracing = None, end_served = []\<rparr>, p1))"
  using assms by (simp add: main_def)

lemma main_never_up:
  assumes "\<not> fl_hash_password fl" and "\<And>cfg h rt t. \<not> tracing_up su fl p cfg h rt t"
    and "main su ctx arrivals during fl p = (e, p')"
  shows "exit_status e = 1 \<and> end_tracing e = None \<and> proc_listening p' = proc_listening p"
proof -
  obtain x h1 where l: "load_config (su_crypto su) (su_json su) (components (fl_config fl)) (proc_files p) = (x, h1)"
    by (metis surj_pair)
  obtain y t1 where t: "telemetry_new (su_otel su) (su_env su) (proc_tracing p) = (y, t1)" by (metis surj_pair)
  have "isl x \<or> isl y" using assms(1,2) l t by (cases x; cases y) (auto simp: tracing_up_def)
  then show ?thesis using assms(1,3) l t by (cases x; cases y) (auto simp: main_def)
qed

text \<open>Once traces are set up they are shut down, with nothing traced in between and before the exit.\<close>

lemma main_up:
  assumes up: "tracing_up su fl p cfg h rt t" and m: "main su ctx arrivals during fl p = (e, p')"
  shows "end_tracing e = Some (snd (fst (telemetry_shutdown (su_otel su) rt t))) \<and>
     proc_tracing p' = snd (telemetry_shutdown (su_otel su) rt t) \<and>
     mset (proc_listening p') = mset (proc_listening p) \<and> exit_status e \<le> 1 \<and>
     (exit_status e = 0 \<longleftrightarrow>
       (\<exists>sv h'. server_new (su_crypto su) (su_parse_key su) (su_s3 su) ctx cfg h = (Inr sv, h') \<and>
          list_all (su_allowed su) (listen_addresses cfg)))"
proof -
  obtain d rt' t' where d: "telemetry_shutdown (su_otel su) rt t = ((d, rt'), t')" by (metis surj_pair)
  obtain x h2 where n: "server_new (su_crypto su) (su_parse_key su) (su_s3 su) ctx cfg h = (x, h2)" by (metis surj_pair)
  note run = up [unfolded tracing_up_def]
  show ?thesis
  proof (cases x)
    case (Inl f)
    then show ?thesis using m run d n by (auto simp: main_def shut_tracing_def)
  next
    case (Inr sv)
    have cfg: "sv_config sv = cfg" using server_new_keeps n Inr by blast
    obtain r p1 where s: "serve_until_stopped su arrivals during sv (p\<lparr>proc_files := h2, proc_tracing := t\<rparr>) = (r, p1)"
      by (metis surj_pair)
    from serve_until_stopped_listening [OF s]
    have listening: "mset (proc_listening p1) = mset (proc_listening p)"
      "isl r \<longleftrightarrow> \<not> list_all (su_allowed su) (listen_addresses cfg)" by (simp_all add: cfg)
    have "proc_tracing p1 = t" using s by (auto simp: serve_until_stopped_def split: prod.splits sum.splits)
    then show ?thesis using m run d n s Inr listening by (auto simp: main_def shut_tracing_def)
  qed
qed


end
