(* ===== verification/Remote_Contained.thy ===== *)
theory Remote_Contained
  imports Httpfs S3fs Localfs_Contained
begin

text \<open>
  Confinement of the HTTP and S3 backends: what they do to the local disk stays within the
  directory of the staging files, whatever the network answers and whichever calls the host
  refuses. The invariant is the one the local backend keeps, with the staging directory among the
  places that may change, and it holds in any world that has a disk, a network and staged writers.
\<close>

section \<open>Staging files\<close>

lemma keeps_os_seek_start [keeps_rules]: "keeps (untouched roots h0) (os_seek_start fd)"
  unfolding os_seek_start_def by (rule keeps_os_call) (auto simp: keeps_def untouched_def object_at_def)

lemma keeps_os_read_rest [keeps_rules]: "keeps (untouched roots h0) (os_read_rest fd)"
  by (auto simp: keeps_def os_read_rest_def untouched_def object_at_def Let_def split: option.splits prod.splits)

lemma untouched_positions [simp]: "untouched roots h0 (h\<lparr>positions := ps\<rparr>) = untouched roots h0 h"
  by (simp add: untouched_def object_at_def)

lemma keeps_os_copy [keeps_rules]: "keeps (untouched roots h0) (os_copy fd data breaks)"
proof (rule keepsI)
  fix h
  assume "untouched roots h0 h"
  then have "untouched roots h0 (snd (os_write_at fd data (word_of_nat (positions h fd)) h))"
    by (rule untouched_write_at)
  then show "untouched roots h0 (snd (os_copy fd data breaks h))"
    by (simp add: os_copy_def case_prod_beta)
qed

lemma keeps_os_write_at [keeps_rules]: "keeps (untouched roots h0) (os_write_at fd data off)"
  using untouched_write_at by (rule keepsI)

lemma keeps_os_read_at [keeps_rules]: "keeps (untouched roots h0) (os_read_at fd n off)"
  using untouched_read_at by (rule keepsI)

lemma keeps_create_temp:
  assumes "inside roots dir"
  shows "keeps (untouched roots h0) (os_create_temp dir pattern)"
proof -
  have step: "keeps (untouched roots h0) (os_create_excl (dir @ [x]) temp_mode)" for x
    using inside_prefix [OF assms] by (intro keeps_os_create_excl) simp
  have "keeps (untouched roots h0) (create_temp_loop n dir pre suf)" for n pre suf
  proof (induction n)
    case (Suc n)
    show ?case
    proof (rule keepsI)
      fix h
      assume u: "untouched roots h0 h"
      obtain digits h1 where r: "random_number h = (digits, h1)" by (metis surj_pair)
      then have "untouched roots h0 h1" using u by (auto simp: random_number_def)
      moreover obtain x h2 where c: "os_create_excl (dir @ [pre @ digits @ suf]) temp_mode h1 = (x, h2)"
        by (metis surj_pair)
      ultimately have "untouched roots h0 h2" using keepsD' [OF step] by blast
      then show "untouched roots h0 (snd (create_temp_loop (Suc n) dir pre suf h))"
        using r c keepsD [OF Suc.IH] by (cases x) simp_all
    qed
  qed (simp add: keeps_def)
  then show ?thesis by (simp add: os_create_temp_def split: prod.splits)
qed

lemma create_temp_loop_below:
  "create_temp_loop n dir pre suf h = (Inr (name, fd), h') \<Longrightarrow> \<exists>x. name = dir @ [x]"
  by (induction n arbitrary: h) (auto split: prod.splits sum.splits if_splits)

definition scratch_inside :: "string list \<Rightarrow> staging_file \<Rightarrow> bool" where
  "scratch_inside roots f \<longleftrightarrow> pred_option (inside roots) (unlinked f)"

lemma keeps_new_staging_file:
  assumes "inside roots dir"
  shows "keeps (untouched roots h0) (new_staging_file dir pattern)"
proof (rule keepsI)
  fix h
  assume u: "untouched roots h0 h"
  obtain r h1 where c: "os_create_temp dir pattern h = (r, h1)" by (metis surj_pair)
  have u1: "untouched roots h0 h1" using keepsD' [OF keeps_create_temp [OF assms] u c] .
  show "untouched roots h0 (snd (new_staging_file dir pattern h))"
  proof (cases r)
    case (Inr nf)
    obtain name fd where nf: "nf = (name, fd)" by (metis surj_pair)
    then have "inside roots name"
      using c Inr create_temp_loop_below inside_prefix [OF assms]
      by (fastforce simp: os_create_temp_def split: prod.splits)
    from keepsD [OF keeps_os_remove [OF this] u1] show ?thesis
      using c Inr nf by (cases "os_remove name h1") (auto simp: new_staging_file_def split: sum.splits)
  qed (use c u1 in \<open>simp add: new_staging_file_def\<close>)
qed

lemma new_staging_file_inside:
  assumes "inside roots dir" and "new_staging_file dir pattern h = (Inr f, h')"
  shows "scratch_inside roots f"
proof -
  obtain r h1 where c: "os_create_temp dir pattern h = (r, h1)" by (metis surj_pair)
  then obtain name fd where nf: "r = Inr (name, fd)" using assms(2)
    by (cases r) (auto simp: new_staging_file_def)
  then have "inside roots name"
    using c create_temp_loop_below inside_prefix [OF assms(1)]
    by (fastforce simp: os_create_temp_def split: prod.splits)
  then show ?thesis
    using assms(2) c nf by (auto simp: new_staging_file_def scratch_inside_def split: prod.splits sum.splits)
qed

lemma keeps_staging_close:
  assumes "scratch_inside roots f"
  shows "keeps (untouched roots h0) (staging_close f)"
proof (rule keepsI)
  fix h
  assume u: "untouched roots h0 h"
  obtain r h1 where c: "os_close (staged_fd f) h = (r, h1)" by (metis surj_pair)
  have u1: "untouched roots h0 h1" using keepsD' [OF keeps_os_close u c] .
  have "untouched roots h0 (snd (os_remove path h1))" if "unlinked f = Some path" for path
    using keepsD [OF keeps_os_remove u1] assms that by (simp add: scratch_inside_def)
  then show "untouched roots h0 (snd (staging_close f h))"
    using c u1 by (simp add: staging_close_def case_prod_beta split: option.splits)
qed

section \<open>The invariant\<close>

definition scratch_kept :: "string list \<Rightarrow> host \<Rightarrow> (('n, 'z) remote_scheme \<Rightarrow> bool) \<Rightarrow> ('n, 'z) remote_scheme \<Rightarrow> bool" where
  "scratch_kept roots h0 P w \<longleftrightarrow>
     untouched roots h0 (disk w) \<and> (\<forall>fd sw. staged_writers w fd = Some sw \<longrightarrow> scratch_inside roots (sw_file sw)) \<and> P w"

text \<open>
  The rest of a world, of which only this is asked: that it says nothing of the disk, the network
  and the staged writers.
\<close>

locale scratch_world =
  fixes roots :: "string list" and h0 :: host and P :: "('n, 'z) remote_scheme \<Rightarrow> bool"
  assumes blind_disk: "P (w\<lparr>disk := h\<rparr>) = P w"
    and blind_net: "P (w\<lparr>net := n\<rparr>) = P w"
    and blind_writers: "P (w\<lparr>staged_writers := sws\<rparr>) = P w"
begin

abbreviation kept :: "('n, 'z) remote_scheme \<Rightarrow> bool" where
  "kept \<equiv> scratch_kept roots h0 P"

lemma on_disk_kept [keeps_rules]: "keeps (untouched roots h0) m \<Longrightarrow> keeps kept (on_disk m)"
  by (auto simp: keeps_def scratch_kept_def on_disk_def blind_disk split: prod.splits)

lemma on_net_kept [keeps_rules]: "keeps kept (on_net m)"
  by (auto simp: keeps_def scratch_kept_def on_net_def blind_net split: prod.splits)

lemma writer_file: "kept w \<Longrightarrow> staged_writers w fd = Some sw \<Longrightarrow> scratch_inside roots (sw_file sw)"
  by (simp add: scratch_kept_def)

lemma remembered: "kept w \<Longrightarrow> scratch_inside roots (sw_file sw) \<Longrightarrow> kept (w\<lparr>staged_writers := (staged_writers w)(fd \<mapsto> sw)\<rparr>)"
  by (simp add: scratch_kept_def blind_writers)

section \<open>Staged writers\<close>

lemma write_at_kept: "keeps kept (staged_write_at fd data off)"
proof (rule keepsI)
  fix w
  assume k: "kept w"
  show "kept (snd (staged_write_at fd data off w))"
  proof (cases "staged_writers w fd")
    case (Some sw)
    obtain n e w1 where d: "on_disk (os_write_at (staged_fd (sw_file sw)) data off) w = ((n, e), w1)"
      by (metis surj_pair)
    have "kept w1" using keepsD' [OF on_disk_kept [OF keeps_os_write_at] k d] .
    then show ?thesis
      using Some k d writer_file [OF k Some] by (auto simp: staged_write_at_def split: option.splits intro!: remembered)
  qed (use k in \<open>simp add: staged_write_at_def\<close>)
qed

lemma abort_kept: "keeps kept (staged_writer_abort fd)"
proof (rule keepsI)
  fix w
  assume k: "kept w"
  show "kept (snd (staged_writer_abort fd w))"
  proof (cases "staged_writers w fd")
    case (Some sw)
    then show ?thesis
      using keepsD [OF on_disk_kept [OF keeps_staging_close] remembered [OF k]] writer_file [OF k Some]
      by (simp add: staged_writer_abort_def)
  qed (use k in \<open>simp add: staged_writer_abort_def\<close>)
qed

definition commit_kept :: "('n, 'z) commit \<Rightarrow> bool" where
  "commit_kept commit \<longleftrightarrow> (\<forall>f. scratch_inside roots f \<longrightarrow> keeps kept (commit f))"

lemma closing_kept: "scratch_inside roots f \<Longrightarrow> kept (snd rw) \<Longrightarrow> kept (snd (closing_staged f rw))"
  using keepsD [OF on_disk_kept [OF keeps_staging_close]] by (simp add: closing_staged_def case_prod_beta)

lemma close_kept:
  assumes "commit_kept commit"
  shows "keeps kept (staged_writer_close commit fd)"
proof (rule keepsI)
  fix w
  assume k: "kept w"
  show "kept (snd (staged_writer_close commit fd w))"
  proof (cases "staged_writers w fd")
    case (Some sw)
    note f = writer_file [OF k Some]
    obtain r w1 where s: "on_disk (os_seek_start (staged_fd (sw_file sw))) w = (r, w1)" by (metis surj_pair)
    have "kept w1" using keepsD' [OF on_disk_kept [OF keeps_os_seek_start] k s] .
    moreover from this have "kept (snd (commit (sw_file sw) w1))"
      using assms f by (simp add: commit_kept_def keepsD)
    ultimately show ?thesis
      using Some s k f by (cases r) (auto simp: staged_writer_close_def split: option.splits intro!: closing_kept)
  qed (use k in \<open>simp add: staged_writer_close_def\<close>)
qed

lemma new_writer_kept:
  assumes "inside roots dir"
  shows "keeps kept (new_staged_writer dir commit)"
proof (rule keepsI)
  fix w
  assume k: "kept w"
  obtain r w1 where n: "on_disk (new_staging_file dir upload_pattern) w = (r, w1)" by (metis surj_pair)
  have "kept w1" using keepsD' [OF on_disk_kept [OF keeps_new_staging_file [OF assms]] k n] .
  moreover have "scratch_inside roots f" if "r = Inr f" for f
    using n that new_staging_file_inside [OF assms] by (auto simp: on_disk_def split: prod.splits)
  ultimately show "kept (snd (new_staged_writer dir commit w))"
    using n by (cases r) (auto simp: new_staged_writer_def intro!: remembered)
qed

lemma handle_kept: "commit_kept commit \<Longrightarrow> keeps_writer kept (staged_handle commit fd)"
  using write_at_kept abort_kept close_kept
  by (simp add: keeps_writer_def staged_handle_def keepsD)

section \<open>The S3 backend\<close>

lemma s3_call_kept [keeps_rules]: "keeps kept (s3_call m)"
  by (rule keepsI) (auto simp: s3_call_def split: prod.splits sum.splits dest: keepsD' [OF on_net_kept])

lemma put_kept: "commit_kept (commit_by_put b at)"
  unfolding commit_kept_def
proof (intro allI impI keepsI)
  fix f :: staging_file and w :: "('n, 'z) remote_scheme"
  assume k: "kept w"
  obtain r w1 where s: "on_disk (os_fstat (staged_fd f)) w = (r, w1)" by (metis surj_pair)
  have k1: "kept w1" using keepsD' [OF on_disk_kept [OF keeps_os_fstat] k s] .
  obtain data e w2 where d: "on_disk (os_read_rest (staged_fd f)) w1 = ((data, e), w2)" by (metis surj_pair)
  have "kept w2" using keepsD' [OF on_disk_kept [OF keeps_os_read_rest] k1 d] .
  then show "kept (snd (commit_by_put b at f w))"
    using s d k1 by (cases r) (auto simp: commit_by_put_def split: prod.splits sum.splits dest: keepsD' [OF s3_call_kept])
qed

lemma list_pages_kept: "list_pages fuel b at token acc w = Some (r, w') \<Longrightarrow> kept w \<Longrightarrow> kept w'"
proof (induction fuel arbitrary: token acc w)
  case (Suc fuel)
  let ?call = "s3_call (next_page (s3_library b) (at_client at) (at_bucket at) (key_prefix (at_key at)) token)"
  obtain x w1 where c: "?call w = (x, w1)" by (metis surj_pair)
  have "kept w1" using keepsD' [OF s3_call_kept Suc.prems(2) c] .
  then show ?case
    using Suc c by (cases x) (auto simp: Let_def split: if_splits option.splits)
qed simp

lemma s3_list_kept: "s3_list fuel b node w = Some (r, w') \<Longrightarrow> kept w \<Longrightarrow> kept w'"
  using list_pages_kept by (auto simp: s3_list_def split: sum.splits if_splits)

lemma object_read_kept: "keeps kept (object_read_at b at whole n off)"
  by (rule keepsI)
     (auto simp: object_read_at_def Let_def split: prod.splits sum.splits dest: keepsD' [OF s3_call_kept])

lemma must_be_free_kept: "keeps kept (must_be_free b at)"
  by (rule keepsI) (auto simp: must_be_free_def s3_head_def split: prod.splits sum.splits dest: keepsD' [OF s3_call_kept])

lemma s3_backend_kept:
  assumes "inside roots (s3_staging b)"
  shows "backend_keeps kept (s3_backend fuel b)"
proof -
  have "keeps kept (backend_list (s3_backend fuel b) n)" for n
    by (rule keepsI) (auto simp: s3_backend_def split: option.splits dest: s3_list_kept)
  moreover have "keeps kept (s3_open b n)" for n
    unfolding s3_open_def s3_head_def by (intro keeps_rules)
  moreover have "keeps kept (s3_create b n)" for n
    unfolding s3_create_def by (intro keeps_rules new_writer_kept assms)
  moreover have "keeps kept (s3_mkdir b n)" for n
    unfolding s3_mkdir_def by (intro keeps_rules)
  moreover have "keeps kept (s3_remove b n)" for n
    unfolding s3_remove_def remove_directory_def s3_head_def s3_delete_def by (intro keeps_rules)
  moreover have "keeps kept (s3_rename b n x y)" for n x y
    unfolding s3_rename_def s3_head_def s3_delete_def by (intro keeps_rules must_be_free_kept)
  moreover have "keeps_reader kept rd" if "s3_open b n w = (Inr rd, w')" for n w rd w'
    using that keepsD [OF object_read_kept]
    by (auto simp: s3_open_def keeps_reader_def bindE_Inr_iff split: if_splits)
  moreover have "keeps_writer kept wr" if "s3_create b n w = (Inr wr, w')" for n w wr w'
    using that handle_kept [OF put_kept]
    by (auto simp: s3_create_def new_staged_writer_def bindE_Inr_iff split: if_splits prod.splits sum.splits)
  ultimately show ?thesis unfolding backend_keeps_def by (simp add: s3_backend_def)
qed

section \<open>Requests of the HTTP backend\<close>

lemma take_body_kept: "pred_option (scratch_inside roots) body \<Longrightarrow> keeps kept (take_body body)"
proof (rule keepsI)
  fix w
  assume b: "pred_option (scratch_inside roots) body" and k: "kept w"
  show "kept (snd (take_body body w))"
  proof (cases body)
    case (Some f)
    obtain data e w1 where d: "on_disk (os_read_rest (staged_fd f)) w = ((data, e), w1)" by (metis surj_pair)
    have "kept w1" using keepsD' [OF on_disk_kept [OF keeps_os_read_rest] k d] .
    then show ?thesis
      using Some b d keepsD [OF on_disk_kept [OF keeps_staging_close]] by (simp add: take_body_def)
  qed (use k in \<open>simp add: take_body_def\<close>)
qed

lemma http_do_kept: "pred_option (scratch_inside roots) body \<Longrightarrow> keeps kept (http_do b verb url ct body)"
proof (rule keepsI)
  fix w
  assume b: "pred_option (scratch_inside roots) body" and k: "kept w"
  obtain data w1 where d: "take_body body w = (data, w1)" by (metis surj_pair)
  have "kept w1" using keepsD' [OF take_body_kept [OF b] k d] .
  then show "kept (snd (http_do b verb url ct body w))"
    using d k by (auto simp: http_do_def Let_def split: prod.splits option.splits dest: keepsD' [OF on_net_kept])
qed

lemma http_mutate_kept: "pred_option (scratch_inside roots) body \<Longrightarrow> keeps kept (http_mutate b verb url ct body)"
  unfolding http_mutate_def error_as_op_def
  by (intro keeps_bindE http_do_kept) (auto intro: keeps_rules split: option.splits)

lemma post_kept: "commit_kept (commit_by_post b url)"
  unfolding commit_kept_def
proof (intro allI impI keepsI)
  fix f :: staging_file and w :: "('n, 'z) remote_scheme"
  assume "scratch_inside roots f" and k: "kept w"
  then have "keeps kept (http_mutate b ''POST'' url http_upload_content_type (Some f))"
    by (intro http_mutate_kept) simp
  from keepsD [OF this k] show "kept (snd (commit_by_post b url f w))"
    by (auto simp: commit_by_post_def split: prod.splits sum.splits)
qed

lemma http_list_kept: "keeps kept (http_list b n)"
  unfolding http_list_def
  by (intro keeps_rules http_do_kept) (auto intro: keeps_rules split: option.splits)

lemma fetch_kept: "keeps kept (fetch b url off n)"
  by (rule keepsI) (auto simp: fetch_def split: prod.splits option.splits dest: keepsD' [OF on_net_kept])

lemma http_changes_kept:
  "keeps kept (http_mkdir b n)" "keeps kept (http_remove b n)" "keeps kept (http_rename b n from to)"
  "inside roots (hf_staging b) \<Longrightarrow> keeps kept (http_create b n)"
  unfolding http_mkdir_def http_remove_def http_rename_def http_create_def
  by (auto intro!: keeps_rules http_mutate_kept new_writer_kept split: option.splits)

lemma http_writer_kept: "http_create b n w = (Inr wr, w') \<Longrightarrow> keeps_writer kept wr"
  using handle_kept [OF post_kept]
  by (auto simp: http_create_def new_staged_writer_def split: if_splits prod.splits sum.splits)

section \<open>Staged copies\<close>

lemma stage_kept:
  assumes "inside roots (hf_staging b)"
  shows "keeps kept (stage b response)"
proof (rule keepsI)
  fix w
  assume k: "kept w"
  obtain r w1 where n: "on_disk (new_staging_file (hf_staging b) download_pattern) w = (r, w1)" by (metis surj_pair)
  have k1: "kept w1" using keepsD' [OF on_disk_kept [OF keeps_new_staging_file [OF assms]] k n] .
  show "kept (snd (stage b response w))"
  proof (cases r)
    case (Inr f)
    have f: "scratch_inside roots f"
      using n Inr new_staging_file_inside [OF assms] by (auto simp: on_disk_def split: prod.splits)
    obtain c ok w2 where d: "on_disk (os_copy (staged_fd f) (ws_body response) (ws_end response \<noteq> Complete)) w1 = ((c, ok), w2)"
      by (metis surj_pair)
    have "kept w2" using keepsD' [OF on_disk_kept [OF keeps_os_copy] k1 d] .
    then show ?thesis
      using n Inr d f keepsD [OF on_disk_kept [OF keeps_staging_close]] by (auto simp: stage_def)
  qed (use n k1 in \<open>simp add: stage_def\<close>)
qed

lemma stage_inside: "inside roots (hf_staging b) \<Longrightarrow> stage b response w = (Inr f, w') \<Longrightarrow> scratch_inside roots f"
  using new_staging_file_inside
  by (auto simp: stage_def on_disk_def split: prod.splits sum.splits if_splits)

lemma staged_read_kept: "keeps kept (staged_read_at f n off)"
proof (rule keepsI)
  fix w
  assume k: "kept w"
  obtain data e w1 where d: "on_disk (os_read_at (staged_fd f) n off) w = ((data, e), w1)" by (metis surj_pair)
  have "kept w1" using keepsD' [OF on_disk_kept [OF keeps_os_read_at] k d] .
  then show "kept (snd (staged_read_at f n off w))"
    using d by (auto simp: staged_read_at_def split: option.splits os_io.splits)
qed

lemma staged_size_kept: "keeps kept (staged_size f)"
  by (rule keepsI) (auto simp: staged_size_def split: prod.splits sum.splits
      dest: keepsD' [OF on_disk_kept [OF keeps_os_fstat]])

end

interpretation plain: scratch_world roots h0 "\<lambda>_. True" for roots h0
  by unfold_locales simp_all

section \<open>Files open over HTTP\<close>

text \<open>The staged copies of open files are the staging directory's too.\<close>

definition copies_inside :: "string list \<Rightarrow> 'n http_world \<Rightarrow> bool" where
  "copies_inside roots w \<longleftrightarrow>
     (\<forall>k f s. open_files w k = Some f \<longrightarrow> of_chosen f = Some (Staged s) \<longrightarrow> scratch_inside roots s)"

interpretation opened: scratch_world roots h0 "copies_inside roots" for roots h0
  by unfold_locales (simp_all add: copies_inside_def)

definition web_kept :: "string list \<Rightarrow> host \<Rightarrow> 'n http_world \<Rightarrow> bool" where
  "web_kept roots h0 = scratch_kept roots h0 (copies_inside roots)"

lemma web_kept_fields [simp]:
  "web_kept roots h0 (w\<lparr>range_sizes := a\<rparr>) = web_kept roots h0 w"
  "web_kept roots h0 (w\<lparr>next_range := b\<rparr>) = web_kept roots h0 w"
  "web_kept roots h0 (w\<lparr>next_open := b\<rparr>) = web_kept roots h0 w"
  "web_kept roots h0 (w\<lparr>next_gate := b\<rparr>) = web_kept roots h0 w"
  "web_kept roots h0 (w\<lparr>closed_gates := g\<rparr>) = web_kept roots h0 w"
  by (simp_all add: web_kept_def scratch_kept_def copies_inside_def)

lemma web_kept_reopened:
  assumes "web_kept roots h0 w" and "\<And>s. of_chosen f = Some (Staged s) \<Longrightarrow> scratch_inside roots s"
  shows "web_kept roots h0 (w\<lparr>open_files := (open_files w)(k \<mapsto> f)\<rparr>)"
  using assms by (auto simp: web_kept_def scratch_kept_def copies_inside_def)

lemma web_chosen: "web_kept roots h0 w \<Longrightarrow> open_files w k = Some f \<Longrightarrow> of_chosen f = Some (Staged s) \<Longrightarrow> scratch_inside roots s"
  unfolding web_kept_def scratch_kept_def copies_inside_def by blast

definition reader_inside :: "string list \<Rightarrow> chosen_reader \<Rightarrow> bool" where
  "reader_inside roots r \<longleftrightarrow> (case r of Ranged c \<Rightarrow> True | Staged f \<Rightarrow> scratch_inside roots f)"

lemmas opened_kept = opened.fetch_kept [folded web_kept_def] opened.staged_read_kept [folded web_kept_def]
  opened.staged_size_kept [folded web_kept_def] opened.stage_kept [folded web_kept_def]
  opened.on_disk_kept [folded web_kept_def]

lemma learn_kept [simp]: "web_kept roots h0 (learn c response w) = web_kept roots h0 w"
  by (simp add: learn_def)

lemma serve_kept: "keeps (web_kept roots h0) (serve c response n)"
  by (rule keepsI) (auto simp: serve_def split: option.splits)

lemma ranged_read_kept: "keeps (web_kept roots h0) (ranged_read_at b url c n off)"
  by (rule keepsI) (auto simp: ranged_read_at_def split: prod.splits sum.splits
      dest: keepsD' [OF opened_kept(1)] intro: keepsD [OF serve_kept])

lemma chosen_close_kept: "reader_inside roots r \<Longrightarrow> keeps (web_kept roots h0) (chosen_close r)"
  using opened_kept(5) [OF keeps_staging_close]
  by (auto simp: chosen_close_def reader_inside_def keeps_def split: chosen_reader.splits)

lemma adopt_kept:
  assumes "reader_inside roots r"
  shows "keeps (web_kept roots h0) (adopt k r)"
proof (rule keepsI)
  fix w :: "'n http_world"
  assume k: "web_kept roots h0 w"
  have "web_kept roots h0 (w\<lparr>open_files := (open_files w)(k \<mapsto> f\<lparr>of_chosen := Some r\<rparr>)\<rparr>)" for f
    using assms by (intro web_kept_reopened k) (auto simp: reader_inside_def)
  then show "web_kept roots h0 (snd (adopt k r w))"
    using keepsD [OF chosen_close_kept [OF assms] k] by (auto simp: adopt_def split: option.splits)
qed

lemma open_next_kept:
  assumes "web_kept roots h0 w" and "open_next k w = (x, w')"
  shows "web_kept roots h0 w' \<and> (\<forall>r. x = Through r \<longrightarrow> reader_inside roots r)"
proof (cases "open_files w k")
  case (Some f)
  have "web_kept roots h0 (w\<lparr>open_files := (open_files w)(k \<mapsto> f\<lparr>of_probing := g\<rparr>)\<rparr>)" for g
    using web_chosen [OF assms(1) Some] by (intro web_kept_reopened assms(1)) simp
  moreover have "reader_inside roots r" if "of_chosen f = Some r" for r
    using web_chosen [OF assms(1) Some] that by (auto simp: reader_inside_def split: chosen_reader.splits)
  ultimately show ?thesis
    using assms Some by (auto simp: open_next_def split: if_splits option.splits)
qed (use assms in \<open>auto simp: open_next_def\<close>)

lemma classify_kept:
  assumes "inside roots (hf_staging b)" and k: "web_kept roots h0 w"
  shows "web_kept roots h0 (snd (classify b k url n off w))"
proof -
  obtain a w1 where c: "classify_answer b url n off w = (a, w1)" by (metis surj_pair)
  obtain r w0 where f: "fetch b url off n w = (r, w0)" by (metis surj_pair)
  have k0: "web_kept roots h0 w0" using keepsD' [OF opened_kept(1) k f] .
  have k1: "web_kept roots h0 w1 \<and> (\<forall>s. a = Whole s \<longrightarrow> scratch_inside roots s)"
  proof (cases r)
    case (Inr response)
    obtain x w2 where s: "stage b response w0 = (x, w2)" by (metis surj_pair)
    have "web_kept roots h0 w2" using keepsD' [OF opened_kept(4) [OF assms(1)] k0 s] .
    moreover have "scratch_inside roots y" if "x = Inr y" for y
      using opened.stage_inside [OF assms(1)] s that by blast
    moreover obtain v w3 where v: "serve (fst (new_range_reader w0)) response n (snd (new_range_reader w0)) = (v, w3)"
      by (metis surj_pair)
    moreover have "web_kept roots h0 (snd (new_range_reader w0))" using k0 by (simp add: new_range_reader_def)
    from keepsD' [OF serve_kept this v] have "web_kept roots h0 w3" .
    ultimately show ?thesis
      using c f s Inr
      by (auto simp: classify_answer_def case_prod_beta split: if_splits sum.splits prod.splits option.splits io_error.splits)
  qed (use c f k0 in \<open>auto simp: classify_answer_def\<close>)
  have "keeps (web_kept roots h0) (adopt k (Ranged d))" for d
    by (rule adopt_kept) (simp add: reader_inside_def)
  moreover have "keeps (web_kept roots h0) (adopt k (Staged s))" if "a = Whole s" for s
    using k1 that by (intro adopt_kept) (simp add: reader_inside_def)
  ultimately show ?thesis
    using c k1
    by (cases a) (auto simp: classify_def classify_adopt_def split: prod.splits sum.splits
        dest: keepsD' intro!: keepsD [OF opened_kept(2)])
qed

lemma probe_kept:
  assumes "inside roots (hf_staging b)" and "web_kept roots h0 w"
  shows "web_kept roots h0 (snd (probe b k url n off w))"
proof -
  obtain answer w1 where c: "classify b k url n off w = (answer, w1)" by (metis surj_pair)
  have k1: "web_kept roots h0 w1" using classify_kept [OF assms] c by (metis snd_conv)
  have "web_kept roots h0 (snd (take_gate k w1))"
    using k1 web_chosen [OF k1]
    by (auto simp: take_gate_def split: option.splits intro!: web_kept_reopened)
  then show ?thesis
    using c by (auto simp: probe_def close_gate_def split: prod.splits option.splits)
qed

lemma open_read_kept:
  fixes b :: "'n http_fs"
  assumes "inside roots (hf_staging b)"
  shows "keeps (web_kept roots h0) (open_read_at b k url n off)"
proof (rule keepsI)
  fix w :: "'n http_world"
  assume k: "web_kept roots h0 w"
  obtain x w1 where o: "open_next k w = (x, w1)" by (metis surj_pair)
  note decided = open_next_kept [OF k o]
  show "web_kept roots h0 (snd (open_read_at b k url n off w))"
  proof (cases x)
    case (Through r)
    have "keeps (web_kept roots h0) (chosen_read_at b url r n off)"
      by (cases r) (simp_all add: chosen_read_at_def ranged_read_kept opened_kept)
    then show ?thesis using o Through decided k by (simp add: open_read_at_def keepsD)
  qed (use o decided k probe_kept [OF assms] in \<open>simp_all add: open_read_at_def\<close>)
qed

lemma http_reader_kept:
  fixes b :: "'n http_fs"
  assumes "inside roots (hf_staging b)" and "http_open b node w = (Inr rd, w')"
  shows "keeps_reader (web_kept roots h0) rd"
proof -
  have chosen: "keeps (web_kept roots h0) (chosen_size r :: 'n http_world \<Rightarrow> _)" for r
    using opened_kept(3) by (cases r) (simp_all add: chosen_size_def ranged_size_def keeps_def)
  have size_kept: "keeps (web_kept roots h0) (open_size b k url)" for k url
  proof (rule keepsI)
    fix w :: "'n http_world"
    assume k: "web_kept roots h0 w"
    obtain data e w1 where r: "open_read_at b k url 1 0 w = ((data, e), w1)" by (metis surj_pair)
    have "web_kept roots h0 w1" using keepsD' [OF open_read_kept [OF assms(1)] k r] .
    then show "web_kept roots h0 (snd (open_size b k url w))"
      using r keepsD [OF chosen] by (auto simp: open_size_def split: option.splits io_error.splits)
  qed
  have close_kept: "keeps (web_kept roots h0) (open_close k :: 'n http_world \<Rightarrow> _)" for k
  proof (rule keepsI)
    fix w :: "'n http_world"
    assume k: "web_kept roots h0 w"
    show "web_kept roots h0 (snd (open_close k w))"
    proof (cases "open_files w k")
      case (Some f)
      have "web_kept roots h0 (w\<lparr>open_files := (open_files w)(k \<mapsto> f\<lparr>of_chosen := None, of_closed := True\<rparr>)\<rparr>)"
        using k by (intro web_kept_reopened) simp_all
      moreover have "reader_inside roots r" if "of_chosen f = Some r" for r
        using web_chosen [OF k Some] that by (auto simp: reader_inside_def split: chosen_reader.splits)
      ultimately show ?thesis
        using Some keepsD [OF chosen_close_kept] by (auto simp: open_close_def close_lock_def split: option.splits)
    next
      case None
      then show ?thesis using k by (simp add: open_close_def close_lock_def)
    qed
  qed
  show ?thesis
    using assms(2) keepsD [OF open_read_kept [OF assms(1)]] keepsD [OF size_kept] keepsD [OF close_kept]
    by (auto simp: http_open_def keeps_reader_def Let_def split: if_splits)
qed

lemma http_open_kept: "keeps (web_kept roots h0) (http_open b node)"
  by (rule keepsI) (auto simp: http_open_def Let_def intro!: web_kept_reopened)

lemmas opened_operations_kept = opened.http_list_kept [folded web_kept_def]
  opened.http_changes_kept [folded web_kept_def] opened.http_writer_kept [folded web_kept_def]

lemma http_backend_kept:
  assumes "inside roots (hf_staging b)"
  shows "backend_keeps (web_kept roots h0) (http_backend b)"
proof -
  have "keeps_writer (web_kept roots h0) wr" if "http_create b n w = (Inr wr, w')" for n w wr w'
    using that by (rule opened_operations_kept)
  moreover have "keeps (web_kept roots h0) (http_create b n)" for n
    using assms by (rule opened_operations_kept)
  ultimately show ?thesis
    unfolding backend_keeps_def http_backend_def
    by (auto simp: http_open_kept opened_operations_kept(1-4) intro: http_reader_kept [OF assms])
qed

end
