(* ===== verification/Composition.thy ===== *)
theory Composition
  imports Startup_Properties Remote_Contained Sftp_Properties Scp_Upload
begin

text \<open>
  The whole server: the method \<open>filesystem\<close> of \<open>server/internal/server/server.go\<close>, which gives a
  user's virtual filesystem the backends of the process, over one disk and one network. The local
  backend serves files of the disk the other two keep their staging files on.

  What a started server's users can do to that disk, through whichever backend their tree names,
  by SFTP and by SCP, is bounded by the configuration: by the contracts of the parts, which the
  locale \<open>shared_part\<close> carries from the worlds they are stated over to the world they share.
\<close>

section \<open>One world\<close>

record 'n server_world =
  remote_part :: "'n http_world"
  part_uploads :: "nat \<rightharpoonup> upload"
  part_next :: nat

definition local_part :: "'n server_world \<Rightarrow> local_world" where
  "local_part w = \<lparr>os = disk (remote_part w), uploads = part_uploads w, next_upload = part_next w\<rparr>"

definition put_local :: "local_world \<Rightarrow> 'n server_world \<Rightarrow> 'n server_world" where
  "put_local x w = w\<lparr>remote_part := (remote_part w)\<lparr>disk := os x\<rparr>, part_uploads := uploads x, part_next := next_upload x\<rparr>"

definition put_remote :: "'n http_world \<Rightarrow> 'n server_world \<Rightarrow> 'n server_world" where
  "put_remote x w = w\<lparr>remote_part := x\<rparr>"

text \<open>An operation of a part, and so a backend of one, over the whole.\<close>

definition on_part :: "('w \<Rightarrow> 'v) \<Rightarrow> ('v \<Rightarrow> 'w \<Rightarrow> 'w) \<Rightarrow> ('v \<Rightarrow> 'r \<times> 'v) \<Rightarrow> 'w \<Rightarrow> 'r \<times> 'w" where
  "on_part get put m w = (case m (get w) of (r, x) \<Rightarrow> (r, put x w))"

definition part_reader :: "('w \<Rightarrow> 'v) \<Rightarrow> ('v \<Rightarrow> 'w \<Rightarrow> 'w) \<Rightarrow> 'v reader \<Rightarrow> 'w reader" where
  "part_reader get put rd =
     \<lparr>read_at = (\<lambda>n off. on_part get put (read_at rd n off)), read_size = on_part get put (read_size rd),
      read_close = on_part get put (read_close rd)\<rparr>"

definition part_writer :: "('w \<Rightarrow> 'v) \<Rightarrow> ('v \<Rightarrow> 'w \<Rightarrow> 'w) \<Rightarrow> 'v writer \<Rightarrow> 'w writer" where
  "part_writer get put wr =
     \<lparr>write_at = (\<lambda>data off. on_part get put (write_at wr data off)), write_close = on_part get put (write_close wr),
      write_abort = on_part get put (write_abort wr)\<rparr>"

definition part_backend :: "('w \<Rightarrow> 'v) \<Rightarrow> ('v \<Rightarrow> 'w \<Rightarrow> 'w) \<Rightarrow> 'v backend \<Rightarrow> 'w backend" where
  "part_backend get put b =
     \<lparr>backend_list = (\<lambda>n. on_part get put (backend_list b n)),
      backend_open = (\<lambda>n. bindE (on_part get put (backend_open b n)) (\<lambda>rd. returnE (part_reader get put rd))),
      backend_create = (\<lambda>n. bindE (on_part get put (backend_create b n)) (\<lambda>wr. returnE (part_writer get put wr))),
      backend_mkdir = (\<lambda>n. on_part get put (backend_mkdir b n)),
      backend_remove = (\<lambda>n. on_part get put (backend_remove b n)),
      backend_rename = (\<lambda>n x y. on_part get put (backend_rename b n x y)),
      backend_child = backend_child b\<rparr>"

definition server_filesystem :: "'n web \<Rightarrow> nat \<Rightarrow> request_context \<Rightarrow> ('n, 'k) server \<Rightarrow> user \<Rightarrow> 'n server_world fs" where
  "server_filesystem web fuel ctx sv u =
     (let stamped_ctx = headers_with ctx (user_stamp u);
          over_http = \<lparr>hf_web = web, hf_staging = components (UploadStagingDir (sv_config sv)), hf_ctx = stamped_ctx\<rparr>
      in user_filesystem (part_backend remote_part put_remote (http_backend over_http))
           (map_option (\<lambda>roots. part_backend local_part put_local (local_backend roots)) (sv_local sv))
           (map_option (\<lambda>b. part_backend remote_part put_remote (s3_backend fuel (b\<lparr>s3_ctx := stamped_ctx\<rparr>))) (sv_s3 sv))
           u)"

section \<open>Contracts of parts\<close>

text \<open>An invariant of the whole that says this of a part, and outlives any change that keeps it there.\<close>

locale shared_part =
  fixes get :: "'w \<Rightarrow> 'v" and put :: "'v \<Rightarrow> 'w \<Rightarrow> 'w" and J :: "'w \<Rightarrow> bool" and I :: "'v \<Rightarrow> bool"
  assumes part_of: "J w \<Longrightarrow> I (get w)" and whole_again: "J w \<Longrightarrow> I x \<Longrightarrow> J (put x w)"
begin

lemma on_part_keeps: "keeps I m \<Longrightarrow> keeps J (on_part get put m)"
  using part_of whole_again by (auto simp: keeps_def on_part_def split: prod.splits) (metis snd_conv)

lemma on_part_kept: "(\<And>x. I x \<Longrightarrow> I (snd (m x))) \<Longrightarrow> J w \<Longrightarrow> J (snd (on_part get put m w))"
  using keepsD [OF on_part_keeps [OF keepsI]] by blast

lemma part_reader_keeps: "keeps_reader I rd \<Longrightarrow> keeps_reader J (part_reader get put rd)"
  by (simp add: keeps_reader_def part_reader_def on_part_kept)

lemma part_writer_keeps: "keeps_writer I wr \<Longrightarrow> keeps_writer J (part_writer get put wr)"
  by (simp add: keeps_writer_def part_writer_def on_part_kept)

lemma part_backend_keeps:
  assumes b: "backend_keeps I b"
  shows "backend_keeps J (part_backend get put b)"
proof -
  have "keeps_reader J rd" if "backend_open (part_backend get put b) n w = (Inr rd, w')" for n w rd w'
  proof -
    from that obtain rd0 where "rd = part_reader get put rd0" "\<exists>x x'. backend_open b n x = (Inr rd0, x')"
      by (auto simp: part_backend_def bindE_Inr_iff on_part_def split: prod.splits)
    then show ?thesis using b part_reader_keeps unfolding backend_keeps_def by blast
  qed
  moreover have "keeps_writer J wr" if "backend_create (part_backend get put b) n w = (Inr wr, w')" for n w wr w'
  proof -
    from that obtain wr0 where "wr = part_writer get put wr0" "\<exists>x x'. backend_create b n x = (Inr wr0, x')"
      by (auto simp: part_backend_def bindE_Inr_iff on_part_def split: prod.splits)
    then show ?thesis using b part_writer_keeps unfolding backend_keeps_def by blast
  qed
  ultimately show ?thesis
    using b unfolding backend_keeps_def
    by (auto simp: part_backend_def intro!: on_part_keeps keeps_rules)
qed

end

section \<open>What may change\<close>

definition within_bounds :: "string list \<Rightarrow> host \<Rightarrow> 'n server_world \<Rightarrow> bool" where
  "within_bounds roots h0 w \<longleftrightarrow> web_kept roots h0 (remote_part w) \<and> confined roots h0 (local_part w)"

interpretation local_share: shared_part local_part put_local "within_bounds roots h0" "confined roots h0" for roots h0
proof
  fix w :: "'n server_world" and x
  assume "within_bounds roots h0 w" and x: "confined roots h0 x"
  moreover have "local_part (put_local x w) = x" by (simp add: local_part_def put_local_def)
  ultimately show "within_bounds roots h0 (put_local x w)"
    by (simp add: within_bounds_def web_kept_def scratch_kept_def copies_inside_def put_local_def confined_def)
qed (simp add: within_bounds_def)

interpretation remote_share: shared_part remote_part put_remote "within_bounds roots h0" "web_kept roots h0" for roots h0
  by unfold_locales
     (auto simp: within_bounds_def put_remote_def local_part_def confined_def web_kept_def scratch_kept_def)

definition bounds :: "config \<Rightarrow> string list" where
  "bounds cfg = UploadStagingDir cfg # allowed_prefixes cfg"

lemma staging_inside: "inside (bounds cfg) (components (UploadStagingDir cfg))"
  by (simp add: inside_def bounds_def)

lemma server_filesystem_kept:
  assumes "server_new lib parse_key s3lib ctx0 cfg h = (Inr sv, h')"
  shows "kept_by_backends (server_filesystem web fuel ctx sv u) (within_bounds (bounds cfg) h0)"
proof -
  let ?c = "headers_with ctx (user_stamp u)"
  note ready = server_new_ready [OF assms]
  have http: "backend_keeps (within_bounds (bounds cfg) h0) (part_backend remote_part put_remote
      (http_backend \<lparr>hf_web = web, hf_staging = components (UploadStagingDir (sv_config sv)), hf_ctx = ?c\<rparr>))"
    using staging_inside ready by (intro remote_share.part_backend_keeps http_backend_kept) simp
  have local: "backend_keeps (within_bounds (bounds cfg) h0) (part_backend local_part put_local (local_backend roots))"
    if "sv_local sv = Some roots" for roots
    using ready that
    by (intro local_share.part_backend_keeps local_backend_keeps_within) (auto simp: bounds_def allowed_prefixes_def)
  have s3: "backend_keeps (within_bounds (bounds cfg) h0) (part_backend remote_part put_remote (s3_backend fuel (b\<lparr>s3_ctx := ?c\<rparr>)))"
    if "sv_s3 sv = Some b" for b
    using staging_inside ready that
    by (intro remote_share.part_backend_keeps opened.s3_backend_kept [folded web_kept_def]) simp
  have "backend_keeps (within_bounds (bounds cfg) h0) b"
    if "fs_backends (server_filesystem web fuel ctx sv u) sch = Some b" for sch b
    using that http local s3
    by (auto simp: server_filesystem_def user_filesystem_def Let_def split: option.splits if_splits)
  then show ?thesis by unfold_locales (auto simp: backend_keeps_def)
qed

section \<open>Connections\<close>

text \<open>
  A server that serves: the world its connections share, and what each of them has of its own, its
  user, the paths it has resolved, its upload slots and its open handles. Any of them takes the next
  step: one of the request server's, or a whole SCP session on a channel of its. The request server
  closes what is open when its channel ends, by steps like any other.
\<close>

record 'n serving_state =
  shared_world :: "'n server_world"
  connected :: "nat \<rightharpoonup> user \<times> 'n server_world connection"

definition facing :: "'n server_world \<Rightarrow> 'n server_world connection \<Rightarrow> 'n server_world connection" where
  "facing w c = c\<lparr>conn_fs := (conn_fs c)\<lparr>world := w\<rparr>\<rparr>"

definition user_factory :: "'n web \<Rightarrow> nat \<Rightarrow> request_context \<Rightarrow> ('n, 'k) server \<Rightarrow> user \<Rightarrow> 'n server_world handler_factory" where
  "user_factory web fuel ctx sv u =
     new_handler_factory (server_filesystem web fuel ctx sv u) (sint (upload_concurrency_limit u))"

definition after_step :: "nat \<Rightarrow> user \<Rightarrow> 'n server_world connection \<Rightarrow> 'n serving_state \<Rightarrow> 'n serving_state" where
  "after_step k u c s = s\<lparr>shared_world := world (conn_fs c), connected := (connected s)(k \<mapsto> (u, c))\<rparr>"

inductive serving_step :: "'n web \<Rightarrow> nat \<Rightarrow> request_context \<Rightarrow> ('n, 'k) server \<Rightarrow> 'n serving_state \<Rightarrow> 'n serving_state \<Rightarrow> bool"
  for web fuel ctx sv where
  connect: "connected s k = None \<Longrightarrow>
     serving_step web fuel ctx sv s (after_step k u (new_connection \<lparr>resolved = Map.empty, world = shared_world s\<rparr>) s)"
| request: "connected s k = Some (u, c) \<Longrightarrow> sftp_step (user_factory web fuel ctx sv u) (facing (shared_world s) c) d \<Longrightarrow>
     serving_step web fuel ctx sv s (after_step k u d s)"
| scp: "connected s k = Some (u, c) \<Longrightarrow> filesystem ss = server_filesystem web fuel ctx sv u \<Longrightarrow>
     limiter ss = hf_uploads (user_factory web fuel ctx sv u) \<Longrightarrow>
     served x = conn_fs (facing (shared_world s) c) \<Longrightarrow> slots x = conn_slots c \<Longrightarrow> scp_run ss x = Some (ok, t) \<Longrightarrow>
     serving_step web fuel ctx sv s (after_step k u (c\<lparr>conn_fs := served t, conn_slots := slots t\<rparr>) s)"
| disconnect: "serving_step web fuel ctx sv s (s\<lparr>connected := (connected s)(k := None)\<rparr>)"

inductive serving_steps :: "'n web \<Rightarrow> nat \<Rightarrow> request_context \<Rightarrow> ('n, 'k) server \<Rightarrow> 'n serving_state \<Rightarrow> 'n serving_state \<Rightarrow> bool"
  for web fuel ctx sv where
  none: "serving_steps web fuel ctx sv s s"
| more: "serving_steps web fuel ctx sv s t \<Longrightarrow> serving_step web fuel ctx sv t v \<Longrightarrow> serving_steps web fuel ctx sv s v"

text \<open>
  An invariant of the shared world that the filesystems of all users keep holds throughout; so do
  the writers behind the handles of every connection.
\<close>

definition all_kept :: "('n server_world \<Rightarrow> bool) \<Rightarrow> 'n serving_state \<Rightarrow> bool" where
  "all_kept J s \<longleftrightarrow> J (shared_world s) \<and>
     (\<forall>k u c. connected s k = Some (u, c) \<longrightarrow> (\<forall>v \<in> ran (conn_uploads c). keeps_writer J (uh_writer v)))"

lemma conn_kept_facing:
  "all_kept J s \<Longrightarrow> connected s k = Some (u, c) \<Longrightarrow> conn_kept J (facing (shared_world s) c)"
  unfolding all_kept_def conn_kept_def facing_def by simp

lemma all_kept_after:
  "all_kept J s \<Longrightarrow> conn_kept J c \<Longrightarrow> all_kept J (after_step k u c s)"
  unfolding all_kept_def conn_kept_def after_step_def by simp

lemma serving_step_keeps:
  assumes "serving_step web fuel ctx sv s t" and kept: "\<And>u. kept_by_backends (server_filesystem web fuel ctx sv u) J"
    and "all_kept J s"
  shows "all_kept J t"
  using assms(1,3)
proof cases
  case (connect k u)
  have "conn_kept J (new_connection \<lparr>resolved = Map.empty, world = shared_world s\<rparr>)"
    using assms(3) by (simp add: all_kept_def conn_kept_def new_connection_def)
  then show ?thesis using connect(1) all_kept_after [OF assms(3)] by simp
next
  case (request k u c d)
  have "conn_kept J d"
    using kept_by_backends.sftp_step_kept [OF kept request(3) _ conn_kept_facing [OF assms(3) request(2)]]
    by (simp add: user_factory_def new_handler_factory_def)
  then show ?thesis using request(1) all_kept_after [OF assms(3)] by simp
next
  case (scp k u c ss x ok y)
  note facing = conn_kept_facing [OF assms(3) scp(2)]
  have "J (world (served x))" using facing scp(5) by (simp add: conn_kept_def)
  then have "J (world (served y))"
    using kept_by_backends.scp_run_kept [OF kept scp(3) _ scp(7)] by simp
  then have "conn_kept J (c\<lparr>conn_fs := served y, conn_slots := slots y\<rparr>)"
    using facing by (simp add: conn_kept_def facing_def)
  then show ?thesis using scp(1) all_kept_after [OF assms(3)] by simp
next
  case (disconnect k)
  then show ?thesis using assms(3) by (auto simp: all_kept_def)
qed

lemma serving_steps_keep:
  assumes "serving_steps web fuel ctx sv s t" and "\<And>u. kept_by_backends (server_filesystem web fuel ctx sv u) J"
    and "all_kept J s"
  shows "all_kept J t"
  using assms(1,3) by (induction rule: serving_steps.induct) (auto intro: serving_step_keeps [OF _ assms(2)])

text \<open>A server that has started and serves nobody yet.\<close>

definition serving_nobody :: "host \<Rightarrow> 'n \<Rightarrow> 'n serving_state" where
  "serving_nobody h n =
     \<lparr>shared_world = \<lparr>remote_part = \<lparr>disk = h, net = n, staged_writers = Map.empty, open_files = Map.empty, next_open = 0,
          range_sizes = (\<lambda>_. size_unknown), next_range = 0, next_gate = 0, closed_gates = {}\<rparr>,
        part_uploads = Map.empty, part_next = 0\<rparr>, connected = Map.empty\<rparr>"

abbreviation server_disk :: "'n serving_state \<Rightarrow> host" where
  "server_disk s \<equiv> disk (remote_part (shared_world s))"

lemma serving_nobody_keeps: "J (shared_world (serving_nobody h n)) \<Longrightarrow> all_kept J (serving_nobody h n)"
  by (simp add: all_kept_def serving_nobody_def)

lemma serving_nobody_within: "not_writing h \<Longrightarrow> within_bounds roots h (shared_world (serving_nobody h n))"
  by (simp add: serving_nobody_def within_bounds_def web_kept_def scratch_kept_def copies_inside_def
      confined_def untouched_def local_part_def not_writing_def)

text \<open>
  C4. Whatever the users of a server do, over SFTP and SCP, on any number of connections at
  once, whatever trees they were given and whatever services answer, every file that was there
  before the server started is as it was, and every name is, unless it lies within the staging
  directory or a prefix the deployment allows. Only the directories the staging directory is
  in may have been made.
\<close>

theorem server_confined:
  assumes new: "server_new lib parse_key s3lib ctx0 cfg h = (Inr sv, h')" and "not_writing h"
    and steps: "serving_steps web fuel ctx sv (serving_nobody h' n) s"
  shows "(\<forall>p. (\<forall>r \<in> set (UploadStagingDir cfg # allowed_prefixes cfg). \<not> prefix (components r) p) \<longrightarrow>
            object_at (server_disk s) p = object_at h p \<or>
            object_at h p = None \<and> prefix p (components (UploadStagingDir cfg)) \<and> is_directory_at (server_disk s) p) \<and>
         (\<forall>i < next_inode h. inodes (server_disk s) i = inodes h i)"
proof -
  have "all_kept (within_bounds (bounds cfg) h') (serving_nobody h' n)"
    by (intro serving_nobody_keeps serving_nobody_within server_new_not_writing [OF new assms(2)])
  from serving_steps_keep [OF steps server_filesystem_kept [OF new] this]
  have u: "untouched (bounds cfg) h' (server_disk s)"
    by (simp add: all_kept_def within_bounds_def web_kept_def scratch_kept_def)
  have m: "only_makes (components (UploadStagingDir cfg)) h h'" using server_new_ready [OF new] by blast
  show ?thesis
  proof (intro conjI allI impI)
    fix p
    assume "\<forall>r \<in> set (UploadStagingDir cfg # allowed_prefixes cfg). \<not> prefix (components r) p"
    then have "object_at (server_disk s) p = object_at h' p"
      using u by (simp add: untouched_def inside_def bounds_def)
    then show "object_at (server_disk s) p = object_at h p \<or>
        object_at h p = None \<and> prefix p (components (UploadStagingDir cfg)) \<and> is_directory_at (server_disk s) p"
      using only_makesD [OF m, of p] by (simp add: is_directory_at_def)
  next
    fix i
    assume "i < next_inode h"
    then show "inodes (server_disk s) i = inodes h i"
      using u m by (simp add: untouched_def only_makes_def)
  qed
qed

text \<open>
  A run to apply it to: the sample server starts, a user connects whose tree is the directory
  \<open>/srv/a\<close>, and uploads a file. The host key is what it was.
\<close>

definition sample_tenant :: user where
  "sample_tenant = sample_user\<lparr>RootFS := sample_root\<rparr>"

definition no_web :: "held web" where
  "no_web = \<lparr>web_do = (\<lambda>r n. (None, n)), media_type = (\<lambda>s. None), decode_entries = (\<lambda>b. None)\<rparr>"

lemma bare_host_not_writing: "not_writing bare_host"
  by (simp add: not_writing_def bare_host_def)

theorem server_confined_witness:
  "\<exists>sv h s. sample_start = (Inr sv, h) \<and>
     serving_steps no_web 0 \<lparr>ctx_stamp = None\<rparr> sv (serving_nobody h []) s \<and> connected s 7 \<noteq> None \<and>
     object_at (server_disk s) [''k''] = Some (RegularAt 0) \<and>
     map_option contents (inodes (server_disk s) 0) = Some ''key''"
proof -
  obtain sv h where s: "sample_start = (Inr sv, h)" using sample_server_starts by blast
  let ?ctx = "\<lparr>ctx_stamp = None\<rparr>"
  let ?f = "user_factory no_web 0 ?ctx sv sample_tenant"
  define s1 where "s1 = after_step 7 sample_tenant
     (new_connection \<lparr>resolved = Map.empty, world = shared_world (serving_nobody h [])\<rparr>) (serving_nobody h ([] :: held))"
  have c1: "serving_step no_web 0 ?ctx sv (serving_nobody h []) s1"
    unfolding s1_def by (rule serving_step.connect) (simp add: serving_nobody_def)
  define c where "c = new_connection \<lparr>resolved = Map.empty, world = shared_world (serving_nobody h ([] :: held))\<rparr>"
  define s2 where "s2 = after_step 7 sample_tenant (snd (filewrite ?f sample_write (facing (shared_world s1) c))) s1"
  have "connected s1 7 = Some (sample_tenant, c)" by (simp add: s1_def c_def after_step_def)
  then have c2: "serving_step no_web 0 ?ctx sv s1 s2"
    unfolding s2_def by (rule serving_step.request) (rule sftp_step.write_file)
  have steps: "serving_steps no_web 0 ?ctx sv (serving_nobody h []) s2"
    by (rule serving_steps.more [OF serving_steps.more [OF serving_steps.none c1] c2])
  have p: "\<forall>r \<in> set (UploadStagingDir sample_config # allowed_prefixes sample_config). \<not> prefix (components r) [''k'']"
    by code_simp
  have k: "object_at bare_host [''k''] = Some (RegularAt 0)" by code_simp
  have i: "0 < next_inode bare_host" "map_option contents (inodes bare_host 0) = Some ''key''"
    by (simp_all add: bare_host_def)
  note confined = server_confined [OF s [unfolded sample_start_def] bare_host_not_writing steps]
  have "object_at (server_disk s2) [''k''] = Some (RegularAt 0)"
    using conjunct1 [OF confined, THEN spec, THEN mp, OF p] k by simp
  moreover have "map_option contents (inodes (server_disk s2) 0) = Some ''key''"
    using conjunct2 [OF confined, THEN spec, THEN mp, OF i(1)] i(2) by simp
  moreover have "connected s2 7 \<noteq> None" by (simp add: s2_def after_step_def)
  ultimately show ?thesis using s steps by blast
qed

end
