(* ===== verification/Credentials.thy ===== *)
theory Credentials
  imports Composition S3fs_Masked
begin

text \<open>
  What a server's users can make it ask of the network. An S3 store is asked with credentials stated
  on the node, or with those the deployment configured for the very bucket that is asked; the
  identity of the host is spent on no bucket the deployment has not said so of, whatever trees the
  users are given and whatever the directories they list answer.
\<close>

section \<open>Credentials\<close>

definition configured_buckets :: "config \<Rightarrow> s3_bucket list" where
  "configured_buckets cfg = (case S3Backend cfg of None \<Rightarrow> [] | Some buckets \<Rightarrow> buckets)"

definition granted :: "'n s3_lib \<Rightarrow> config \<Rightarrow> s3_client \<Rightarrow> string \<Rightarrow> bool" where
  "granted lib cfg client bucket \<longleftrightarrow>
     (\<exists>access :: s3_access. s3_access_validate access = None \<and> client = access_client access) \<or>
     (\<exists>b \<in> set (configured_buckets cfg). Bucket b = bucket \<and> configured_client lib b = Some client)"

text \<open>The host's identity is granted for no bucket but those configured to be reached with it.\<close>

lemma ambient_granted:
  assumes "granted lib cfg client bucket" and "cl_identity client = Ambient who"
  shows "\<exists>b \<in> set (configured_buckets cfg). Bucket b = bucket \<and> UseDefaultCredentials b \<and>
    ambient_identity lib (Region b) = Some who"
proof -
  obtain b where b: "b \<in> set (configured_buckets cfg)" "Bucket b = bucket" "configured_client lib b = Some client"
    using assms by (auto simp: granted_def access_client_def)
  have "UseDefaultCredentials b \<and> ambient_identity lib (Region b) = Some who"
    using b(3) assms(2) by (auto simp: configured_client_def access_client_def split: if_splits option.splits)
  with b show ?thesis by blast
qed

lemma configure_loop_found:
  "configure_loop lib bs acc = Some found \<Longrightarrow> found k = Some client \<Longrightarrow>
     acc k = Some client \<or> (\<exists>b \<in> set bs. Bucket b = k \<and> configured_client lib b = Some client)"
  by (induction lib bs acc rule: configure_loop.induct) (auto split: option.splits if_splits)

lemma opened_s3:
  assumes "open_s3 lib cfg ctx = Inr (Some b)"
  shows "s3_library b = lib \<and> configure_loop lib (configured_buckets cfg) Map.empty = Some (s3_configured b)"
  using assms by (auto simp: open_s3_def s3_new_def configured_buckets_def split: option.splits)

lemma server_new_s3:
  assumes "server_new lib parse_key s3lib ctx cfg h = (Inr sv, h')"
  shows "open_s3 s3lib cfg ctx = Inr (sv_s3 sv)"
proof -
  obtain local s3 h1 h2 where "open_backends s3lib cfg ctx h1 = (Inr (local, s3), h2)" and "sv_s3 sv = s3"
    using assms by (auto simp: server_new_def split: option.splits prod.splits sum.splits)
  then show ?thesis by (auto simp: open_backends_def bindE_Inr_iff)
qed

lemma resolved_granted:
  assumes "open_s3 lib cfg ctx = Inr (Some b)" and "s3_resolve (b\<lparr>s3_ctx := c\<rparr>) node = Inr at"
  shows "granted lib cfg (at_client at) (at_bucket at)"
proof (cases "S3 (attrs_of node)")
  case (Some access)
  then have "s3_access_validate access = None \<and> at_client at = access_client access"
    using assms(2) by (auto simp: s3_resolve_def Let_def split: option.splits if_splits)
  then show ?thesis unfolding granted_def by blast
next
  case None
  then have "s3_configured b (at_bucket at) = Some (at_client at)"
    using assms(2) by (auto simp: s3_resolve_def Let_def split: option.splits)
  then show ?thesis using configure_loop_found [of lib] opened_s3 [OF assms(1)] unfolding granted_def by fastforce
qed

text \<open>Every call on one bucket by one client keeps \<open>I\<close>.\<close>

definition store_calls_keep :: "('n \<Rightarrow> bool) \<Rightarrow> 'n s3_lib \<Rightarrow> s3_client \<Rightarrow> string \<Rightarrow> bool" where
  "store_calls_keep I lib client bucket \<longleftrightarrow>
     (\<forall>k. keeps I (head_object lib client bucket k)) \<and>
     (\<forall>k token. keeps I (next_page lib client bucket k token)) \<and>
     (\<forall>k n. keeps I (list_some lib client bucket k n)) \<and>
     (\<forall>k span. keeps I (get_object lib client bucket k span)) \<and>
     (\<forall>put. put_bucket put = bucket \<longrightarrow> keeps I (put_object lib client put)) \<and>
     (\<forall>k. keeps I (delete_object lib client bucket k)) \<and>
     (\<forall>k key. keeps I (copy_object lib client bucket k (copy_source bucket key)))"

lemma s3_backend_on_network:
  assumes "\<And>node at. s3_resolve b node = Inr at \<Longrightarrow> store_calls_keep I (s3_library b) (at_client at) (at_bucket at)"
  shows "backend_keeps (on_network I) (s3_backend fuel b)"
proof -
  have p: "permitted_calls_keep I b at" if "s3_resolve b node = Inr at" for node at
    using assms [OF that] by (simp add: permitted_calls_keep_def store_calls_keep_def Let_def)
  show ?thesis
    unfolding backend_keeps_def
    using s3_list_keeps [OF p] s3_open_keeps [OF p] s3_create_keeps [OF p] s3_mkdir_keeps [OF p]
      s3_remove_keeps [OF p] s3_rename_keeps [OF p] opened_keeps [OF p] created_keeps [OF p]
    by (auto simp: s3_backend_def)
qed

section \<open>The HTTP backend\<close>

text \<open>It asks the network nothing but requests.\<close>

lemma net_fields [simp]:
  "net (snd (on_disk m w)) = net w" "net (snd (take_body body w)) = net w"
  "net (learn c response (v :: 'n http_world)) = net v"
  by (auto simp: on_disk_def take_body_def learn_def split: prod.splits option.splits)

lemma on_disk_net: "on_disk m w = (r, w') \<Longrightarrow> net w' = net w"
  by (metis net_fields(1) snd_conv)

lemma stage_net: "net (snd (stage b response w)) = net w"
  by (auto simp: stage_def split: prod.splits sum.splits dest!: on_disk_net)

definition requests_keep :: "('n \<Rightarrow> bool) \<Rightarrow> 'n web \<Rightarrow> bool" where
  "requests_keep I web \<longleftrightarrow> (\<forall>r. keeps I (web_do web r))"

lemma keeps_request [keeps_rules]: "requests_keep I web \<Longrightarrow> keeps (on_network I) (on_net (web_do web r))"
  by (auto simp: requests_keep_def keeps_def on_net_def split: prod.splits) (metis snd_conv)

lemma request_net: "requests_keep I web \<Longrightarrow> on_net (web_do web r) w = (x, w') \<Longrightarrow> I (net w) \<Longrightarrow> I (net w')"
  using keepsD' [OF keeps_request] by blast

lemma http_do_net: "requests_keep I (hf_web b) \<Longrightarrow> keeps (on_network I) (http_do b verb url ct body)"
proof (rule keepsI)
  fix w
  assume q: "requests_keep I (hf_web b)" and w: "I (net w)"
  obtain data w1 where d: "take_body body w = (data, w1)" by (metis surj_pair)
  then have "I (net w1)" using w net_fields(2) [of body w] by simp
  then show "I (net (snd (http_do b verb url ct body w)))"
    using d w request_net [OF q] by (auto simp: http_do_def Let_def split: prod.splits option.splits)
qed

lemma http_mutate_net: "requests_keep I (hf_web b) \<Longrightarrow> keeps (on_network I) (http_mutate b verb url ct body)"
  unfolding http_mutate_def error_as_op_def
  by (intro keeps_bindE http_do_net) (auto intro: keeps_rules split: option.splits)

lemma http_list_net: "requests_keep I (hf_web b) \<Longrightarrow> keeps (on_network I) (http_list b n)"
  unfolding http_list_def
  by (intro keeps_rules http_do_net) (auto intro: keeps_rules split: option.splits)

lemma http_changes_net:
  assumes "requests_keep I (hf_web b)"
  shows "keeps (on_network I) (http_mkdir b n)" "keeps (on_network I) (http_remove b n)"
    "keeps (on_network I) (http_rename b n from to)" "keeps (on_network I) (http_create b n)"
  using http_mutate_net [OF assms] keeps_new_staged
  unfolding http_mkdir_def http_remove_def http_rename_def http_create_def
  by (auto intro!: keeps_rules split: option.splits)

lemma post_net: "requests_keep I (hf_web b) \<Longrightarrow> keeps (on_network I) (commit_by_post b url f)"
  by (rule keepsI) (auto simp: commit_by_post_def split: prod.splits sum.splits dest: keepsD' [OF http_mutate_net])

lemma http_writer_net:
  assumes "requests_keep I (hf_web b)" and "http_create b n w = (Inr wr, w')"
  shows "keeps_writer (on_network I) wr"
proof -
  obtain fd where wr: "wr = staged_handle (commit_by_post b (entry_backend n)) fd"
    using assms(2) by (auto simp: http_create_def new_staged_writer_def split: if_splits prod.splits sum.splits)
  show ?thesis unfolding wr by (rule staged_handle_keeps) (rule post_net [OF assms(1)])
qed

section \<open>Reads over HTTP\<close>

lemma fetch_net: "requests_keep I (hf_web b) \<Longrightarrow> keeps (on_network I) (fetch b url off n)"
  by (rule keepsI) (auto simp: fetch_def split: prod.splits option.splits dest: request_net)

lemma serve_net: "net (snd (serve c response n w)) = net w"
  by (simp add: serve_def split: option.splits)

lemma staged_net: "net (snd (staged_read_at f n off w)) = net w" "net (snd (staged_size f w)) = net w"
  by (auto simp: staged_read_at_def staged_size_def split: prod.splits option.splits os_io.splits sum.splits dest!: on_disk_net)

lemma chosen_net: "net (snd (chosen_close r w)) = net w" "net (snd (chosen_size r w)) = net w"
  by (auto simp: chosen_close_def chosen_size_def ranged_size_def staged_net split: chosen_reader.splits)

lemma adopt_net: "net (snd (adopt k r w)) = net w"
  by (simp add: adopt_def chosen_net split: option.splits)

lemma classify_net:
  fixes w :: "'n http_world"
  assumes "requests_keep I (hf_web b)" and "I (net w)"
  shows "I (net (snd (classify b k url n off w)))"
proof -
  obtain r w0 where f: "fetch b url off n w = (r, w0)" by (metis surj_pair)
  have 0: "I (net w0)" using keepsD' [OF fetch_net [OF assms(1)] _ f] assms(2) by blast
  have "net (snd (classify_answer b url n off w)) = net w0"
  proof (cases r)
    case (Inr response)
    obtain x w1 where s: "stage b response w0 = (x, w1)" by (metis surj_pair)
    have 1: "net w1 = net w0" using stage_net [of b response w0] s by simp
    obtain v w2 where v: "serve (fst (new_range_reader w0)) response n (snd (new_range_reader w0)) = (v, w2)"
      by (metis surj_pair)
    have 2: "net w2 = net w0"
      using serve_net [of "fst (new_range_reader w0)" response n "snd (new_range_reader w0)"] v
      by (simp add: new_range_reader_def)
    show ?thesis using f Inr s v 1 2
      by (auto simp: classify_answer_def case_prod_beta split: sum.splits prod.splits option.splits io_error.splits)
  qed (use f in \<open>simp add: classify_answer_def\<close>)
  moreover have "net (snd (classify_adopt k n off a v)) = net v" for a and v :: "'n http_world"
  proof (cases a)
    case (Whole f)
    obtain x v1 where d: "adopt k (Staged f) v = (x, v1)" by (metis surj_pair)
    have "net v1 = net v" using adopt_net [of k "Staged f" v] d by simp
    then show ?thesis using Whole d staged_net(1) [of f n off v1] by (cases x) (simp_all add: classify_adopt_def)
  next
    case (Window c answer)
    obtain x v1 where d: "adopt k (Ranged c) v = (x, v1)" by (metis surj_pair)
    have "net v1 = net v" using adopt_net [of k "Ranged c" v] d by simp
    then show ?thesis using Window d by (cases x) (simp_all add: classify_adopt_def)
  qed (simp add: classify_adopt_def)
  ultimately show ?thesis using 0 by (simp add: classify_def case_prod_beta)
qed

lemma open_next_net: "net (snd (open_next k w)) = net w"
  by (simp add: open_next_def split: option.splits)

lemma open_read_net:
  fixes b :: "'n http_fs"
  assumes "requests_keep I (hf_web b)"
  shows "keeps (on_network I) (open_read_at b k url n off)"
proof (rule keepsI)
  fix w :: "'n http_world"
  assume w: "I (net w)"
  obtain x w1 where o: "open_next k w = (x, w1)" by (metis surj_pair)
  have w1: "I (net w1)" using open_next_net [of k w] o w by simp
  have ranged: "I (net (snd (ranged_read_at b url c n off w1)))" for c
  proof -
    obtain r w2 where f: "fetch b url off n w1 = (r, w2)" by (metis surj_pair)
    have "I (net w2)" using keepsD' [OF fetch_net [OF assms] _ f] w1 by blast
    then show ?thesis using f w1 by (cases r) (simp_all add: ranged_read_at_def serve_net)
  qed
  show "I (net (snd (open_read_at b k url n off w)))"
  proof (cases x)
    case (Through r)
    then show ?thesis using o w ranged w1
      by (cases r) (simp_all add: open_read_at_def chosen_read_at_def staged_net)
  next
    case Probe
    have "net (snd (take_gate k v)) = net v" for v :: "'n http_world" by (simp add: take_gate_def split: option.splits)
    then have "net (snd (probe b k url n off w1)) = net (snd (classify b k url n off w1))"
      by (simp add: probe_def close_gate_def case_prod_beta split: option.splits)
    then show ?thesis using o Probe w classify_net [OF assms w1] by (simp add: open_read_at_def)
  qed (use o w w1 in \<open>simp_all add: open_read_at_def\<close>)
qed

lemma http_reader_net:
  fixes b :: "'n http_fs"
  assumes "requests_keep I (hf_web b)" and "http_open b node w = (Inr rd, w')"
  shows "keeps_reader (on_network I) rd"
proof -
  have size_kept: "keeps (on_network I) (open_size b k url)" for k url
  proof (rule keepsI)
    fix w :: "'n http_world"
    assume w: "I (net w)"
    obtain data e w1 where r: "open_read_at b k url 1 0 w = ((data, e), w1)" by (metis surj_pair)
    have "I (net w1)" using keepsD' [OF open_read_net [OF assms(1)] _ r] w by blast
    then show "I (net (snd (open_size b k url w)))"
      using r by (auto simp: open_size_def chosen_net split: option.splits io_error.splits)
  qed
  have "net (snd (open_close k v)) = net v" for k and v :: "'n http_world"
  proof -
    obtain x v1 where l: "close_lock k v = (x, v1)" by (metis surj_pair)
    have "net v1 = net v" using l by (auto simp: close_lock_def split: option.splits)
    then show ?thesis using l by (cases x) (simp_all add: open_close_def chosen_net)
  qed
  then show ?thesis
    using assms(2) keepsD [OF open_read_net [OF assms(1)]] keepsD [OF size_kept]
    by (auto simp: http_open_def keeps_reader_def Let_def split: if_splits)
qed

lemma http_open_net: "keeps (on_network I) (http_open b node)"
  by (simp add: keeps_def http_open_def Let_def)

lemma http_backend_on_network:
  assumes "requests_keep I (hf_web b)"
  shows "backend_keeps (on_network I) (http_backend b)"
proof -
  have "keeps_writer (on_network I) wr" if "http_create b n w = (Inr wr, w')" for n w wr w'
    using assms that by (rule http_writer_net)
  then show ?thesis
    unfolding backend_keeps_def http_backend_def
    by (auto simp: http_list_net [OF assms] http_changes_net [OF assms] http_open_net intro: http_reader_net [OF assms])
qed

section \<open>The whole server\<close>

definition asking :: "('n \<Rightarrow> bool) \<Rightarrow> 'n server_world \<Rightarrow> bool" where
  "asking I w \<longleftrightarrow> I (net (remote_part w))"

interpretation network_share: shared_part remote_part put_remote "asking I" "on_network I" for I
  by unfold_locales (simp_all add: asking_def put_remote_def)

text \<open>What the local backend does is nothing to the network.\<close>

interpretation silent_share: shared_part local_part put_local "asking I" "\<lambda>_. True" for I
  by unfold_locales (simp_all add: asking_def put_local_def)

lemma server_filesystem_asks:
  assumes new: "server_new lib parse_key s3lib ctx0 cfg h = (Inr sv, h')" and web: "requests_keep I web"
    and s3: "\<And>client bucket. granted s3lib cfg client bucket \<Longrightarrow> store_calls_keep I s3lib client bucket"
  shows "kept_by_backends (server_filesystem web fuel ctx sv u) (asking I)"
proof -
  let ?c = "headers_with ctx (user_stamp u)"
  have http: "backend_keeps (asking I) (part_backend remote_part put_remote
      (http_backend \<lparr>hf_web = web, hf_staging = components (UploadStagingDir (sv_config sv)), hf_ctx = ?c\<rparr>))"
    using web by (intro network_share.part_backend_keeps http_backend_on_network) simp
  have local: "backend_keeps (asking I) (part_backend local_part put_local (local_backend roots))" for roots
    by (intro silent_share.part_backend_keeps) (simp add: backend_keeps_def keeps_def keeps_reader_def keeps_writer_def)
  have stores: "backend_keeps (asking I) (part_backend remote_part put_remote (s3_backend fuel (b\<lparr>s3_ctx := ?c\<rparr>)))"
    if "sv_s3 sv = Some b" for b
  proof (intro network_share.part_backend_keeps s3_backend_on_network)
    fix node at
    assume at: "s3_resolve (b\<lparr>s3_ctx := ?c\<rparr>) node = Inr at"
    have o: "open_s3 s3lib cfg ctx0 = Inr (Some b)" using server_new_s3 [OF new] that by simp
    from s3 [OF resolved_granted [OF o at]] opened_s3 [OF o]
    show "store_calls_keep I (s3_library (b\<lparr>s3_ctx := ?c\<rparr>)) (at_client at) (at_bucket at)" by simp
  qed
  have "backend_keeps (asking I) b"
    if "fs_backends (server_filesystem web fuel ctx sv u) sch = Some b" for sch b
    using that http local stores
    by (auto simp: server_filesystem_def user_filesystem_def Let_def split: option.splits if_splits)
  then show ?thesis by unfold_locales (auto simp: backend_keeps_def)
qed

text \<open>
  C37. Whatever the users of a server do, over SFTP and SCP and on any number of connections,
  whatever trees they were given and whatever the directories they list answer, the network is
  asked nothing but HTTP requests and calls on an S3 bucket with credentials granted for it:
  those a node states, when they pass the checks, or those the deployment configured for that
  very bucket. An invariant such calls keep holds throughout.
\<close>

theorem server_spends_granted_credentials:
  assumes new: "server_new lib parse_key s3lib ctx0 cfg h = (Inr sv, h')"
    and web: "\<And>r. keeps I (web_do web r)"
    and s3: "\<And>client bucket. granted s3lib cfg client bucket \<Longrightarrow> store_calls_keep I s3lib client bucket"
    and steps: "serving_steps web fuel ctx sv (serving_nobody h' n) s" and "I n"
  shows "I (net (remote_part (shared_world s)))"
proof -
  have "requests_keep I web" using web by (simp add: requests_keep_def)
  note kept = server_filesystem_asks [OF new this s3]
  have "all_kept (asking I) (serving_nobody h' n)"
    using assms(5) by (intro serving_nobody_keeps) (simp add: asking_def serving_nobody_def)
  from serving_steps_keep [OF steps kept this] show ?thesis by (simp add: all_kept_def asking_def)
qed

text \<open>
  A store that keeps a ledger of who asks for which bucket, and answers nothing. The deployment lets
  its own identity be spent on one bucket; the user's tree is a directory of it, which is listed.
\<close>

type_synonym ledger = "(s3_client \<times> string) list"

definition refusal :: s3_failure where "refusal = \<lparr>fl_code = None, fl_status = Some 500\<rparr>"

definition noted :: "s3_client \<Rightarrow> string \<Rightarrow> (ledger, s3_failure, 'a) op" where
  "noted client bucket n = (Inl refusal, n @ [(client, bucket)])"

definition ledger_store :: "ledger s3_lib" where
  "ledger_store =
     \<lparr>head_object = (\<lambda>c b k. noted c b), delete_object = (\<lambda>c b k. noted c b), next_page = (\<lambda>c b k t. noted c b),
      list_some = (\<lambda>c b k m. noted c b), put_object = (\<lambda>c p. noted c (put_bucket p)),
      copy_object = (\<lambda>c b k source_key. noted c b), get_object = (\<lambda>c b k span. noted c b),
      ambient_identity = (\<lambda>r. Some ''host'')\<rparr>"

definition ledger_web :: "ledger web" where
  "ledger_web = \<lparr>web_do = (\<lambda>r n. (None, n)), media_type = (\<lambda>s. None), decode_entries = (\<lambda>b. None)\<rparr>"

definition log_bucket :: s3_bucket where
  "log_bucket = \<lparr>Region = ''r'', Endpoint = [], PathStyle = None, AccessKeyID = [], SecretAccessKey = [],
     SessionToken = [], Bucket = ''logs'', UseDefaultCredentials = True\<rparr>"

definition ledger_config :: config where
  "ledger_config = sample_config\<lparr>S3Backend := Some [log_bucket]\<rparr>"

definition ledger_start :: "(config_error + (ledger, string) server) \<times> host" where
  "ledger_start = server_new sample_crypto sample_parse_key ledger_store \<lparr>ctx_stamp = None\<rparr> ledger_config bare_host"

definition ledger_user :: user where
  "ledger_user = sample_user\<lparr>RootFS := sample_root\<lparr>RootBackend := ''s3://logs/d''\<rparr>\<rparr>"

definition list_root :: sftp_request where
  "list_root = \<lparr>rq_method = ''List'', rq_filepath = ''/'', rq_target = [], rq_append = False\<rparr>"

definition ledger_connection :: "host \<Rightarrow> ledger server_world connection" where
  "ledger_connection h = new_connection \<lparr>resolved = Map.empty, world = shared_world (serving_nobody h [])\<rparr>"

definition ledger_listed :: "(ledger, string) server \<Rightarrow> host \<Rightarrow> ledger serving_state" where
  "ledger_listed sv h =
     (let s = after_step 7 ledger_user (ledger_connection h) (serving_nobody h []) in
      after_step 7 ledger_user
        (snd (filelist (user_factory ledger_web 1 \<lparr>ctx_stamp = None\<rparr> sv ledger_user) list_root
                (facing (shared_world s) (ledger_connection h)))) s)"

definition ledger_entries :: "(ledger, string) server \<Rightarrow> host \<Rightarrow> ledger" where
  "ledger_entries sv h = net (remote_part (shared_world (ledger_listed sv h)))"

definition host_client :: s3_client where
  "host_client = \<lparr>cl_region = ''r'', cl_identity = Ambient ''host'', cl_endpoint = None, cl_path_style = False\<rparr>"

definition ledger_s3 :: "ledger s3_fs" where
  "ledger_s3 = \<lparr>s3_library = ledger_store, s3_staging = [''s''], s3_configured = [''logs'' \<mapsto> host_client],
     s3_ctx = \<lparr>ctx_stamp = None\<rparr>\<rparr>"

definition ledger_server :: "(ledger, string) server" where
  "ledger_server = \<lparr>sv_config = ledger_config, sv_signer = ''signer'', sv_local = Some [''/srv/a'', ''/srv/b''],
     sv_s3 = Some ledger_s3\<rparr>"

lemma ledger_starts: "\<not> isl (fst ledger_start)"
  by code_simp

definition ledger_root :: node where "ledger_root = root_entry (RootFS ledger_user)"

lemma ledger_root_url: "entry_backend ledger_root = ''s3://logs/d''" "S3 (attrs_of ledger_root) = None"
    "is_directory ledger_root" "AllowedMethods (attrs_of ledger_root) = []"
  by code_simp+

lemma ledger_paths: "split_path ''/'' = Some []" "s3_location ''s3://logs/d'' = Some (''logs'', ''d'')"
    "map_option u_scheme (url_parse ''s3://logs/d'') = Some ''s3''"
  by code_simp+

lemma ledger_lists:
  "backend_list (s3_backend (Suc 0) (ledger_s3\<lparr>s3_ctx := c\<rparr>)) ledger_root w =
     (Inl ErrFailure, w\<lparr>net := net w @ [(host_client, ''logs'')]\<rparr>)"
proof -
  have "s3_resolve (ledger_s3\<lparr>s3_ctx := c\<rparr>) ledger_root =
      Inr \<lparr>at_client = host_client, at_bucket = ''logs'', at_key = ''d'', at_methods = [], at_access = None\<rparr>"
    by (simp add: s3_resolve_def ledger_root_url ledger_paths ledger_s3_def Let_def)
  then show ?thesis
    by (simp add: s3_backend_def s3_list_def s3_permits_def s3_call_def on_net_def ledger_s3_def ledger_store_def
        noted_def refusal_def s3_outcome_def)
qed

lemma ledger_serves:
  "backend_for (server_filesystem web fuel ctx ledger_server u) ledger_root =
     Inr (part_backend remote_part put_remote (s3_backend fuel (ledger_s3\<lparr>s3_ctx := headers_with ctx (user_stamp u)\<rparr>)))"
proof -
  obtain parsed where "url_parse ''s3://logs/d'' = Some parsed" "u_scheme parsed = ''s3''" using ledger_paths(3) by auto
  then show ?thesis
    by (simp add: backend_for_def ledger_root_url server_filesystem_def user_filesystem_def ledger_server_def
        s3_scheme_def file_scheme_def Let_def)
qed

lemma ledger_asks: "ledger_entries ledger_server h = [(host_client, ''logs'')]"
proof -
  have root: "root_entry (fs_root (server_filesystem web fuel ctx sv ledger_user)) = ledger_root"
    for web fuel ctx and sv :: "(ledger, string) server"
    by (simp add: ledger_root_def server_filesystem_def user_filesystem_def Let_def)
  show ?thesis
    by (simp add: ledger_entries_def ledger_listed_def Let_def filelist_def list_root_def served_fs_def fs_list_def
        ledger_paths resolve_def bindE_def user_factory_def new_handler_factory_def root ledger_root_url list_node_def
        ledger_serves on_world_def part_backend_def on_part_def ledger_lists after_step_def facing_def
        ledger_connection_def new_connection_def serving_nobody_def put_remote_def)
qed

lemma ledger_steps:
  "serving_steps ledger_web 1 \<lparr>ctx_stamp = None\<rparr> sv (serving_nobody h []) (ledger_listed sv h)"
proof -
  let ?s = "after_step 7 ledger_user (ledger_connection h) (serving_nobody h [])"
  have 1: "serving_step ledger_web 1 \<lparr>ctx_stamp = None\<rparr> sv (serving_nobody h []) ?s"
    unfolding ledger_connection_def by (rule serving_step.connect) (simp add: serving_nobody_def)
  have "connected ?s 7 = Some (ledger_user, ledger_connection h)" by (simp add: after_step_def)
  then have "serving_step ledger_web 1 \<lparr>ctx_stamp = None\<rparr> sv ?s (ledger_listed sv h)"
    unfolding ledger_listed_def Let_def by (rule serving_step.request) (rule sftp_step.list_files)
  then show ?thesis by (rule serving_steps.more [OF serving_steps.more [OF serving_steps.none 1]])
qed

definition all_granted :: "ledger \<Rightarrow> bool" where
  "all_granted n \<longleftrightarrow> (\<forall>(client, bucket) \<in> set n. granted ledger_store ledger_config client bucket)"

lemma ledger_opens: "open_s3 ledger_store ledger_config \<lparr>ctx_stamp = None\<rparr> = Inr (Some ledger_s3)"
proof -
  have "components ''s'' = [''s'']" by code_simp
  then show ?thesis
    by (simp add: open_s3_def s3_new_def ledger_config_def sample_config_def ledger_s3_def log_bucket_def host_client_def
        configured_client_def client_endpoint_def use_path_style_def ledger_store_def fun_upd_def)
qed

lemma ledger_start_server: "\<exists>h. ledger_start = (Inr ledger_server, h)"
proof -
  obtain x h where x: "ledger_start = (x, h)" by (metis surj_pair)
  have "\<not> isl x" using ledger_starts unfolding x by simp
  then obtain sv where sv: "x = Inr sv" by (cases x) simp_all
  note s = x [unfolded sv ledger_start_def]
  have c: "components ''k'' = [''k'']" by code_simp
  have k: "object_at bare_host [''k''] = Some (RegularAt 0)" by code_simp
  have "sv_s3 sv = Some ledger_s3" using server_new_s3 [OF s] ledger_opens by simp
  moreover have "sv_config sv = ledger_config" using server_new_keeps [OF s] .
  moreover have "sv_local sv = Some [''/srv/a'', ''/srv/b'']"
    using server_new_ready [OF s] by (simp add: ledger_config_def sample_config_def)
  moreover have "sv_signer sv = ''signer''"
    using server_new_ready [OF s] k
    by (auto simp: ledger_config_def sample_config_def c bare_host_def sample_parse_key_def split: if_splits)
  ultimately have "sv = ledger_server" by (cases sv) (simp add: ledger_server_def)
  then show ?thesis using x sv by blast
qed

theorem server_spends_granted_credentials_witness:
  "\<exists>h. ledger_start = (Inr ledger_server, h) \<and>
     ledger_entries ledger_server h = [(host_client, ''logs'')] \<and> all_granted (ledger_entries ledger_server h) \<and>
     \<not> granted ledger_store ledger_config host_client ''other''"
proof -
  obtain h where s: "ledger_start = (Inr ledger_server, h)" using ledger_start_server by blast
  have web: "keeps all_granted (web_do ledger_web r)" for r by (simp add: ledger_web_def keeps_def)
  have store: "store_calls_keep all_granted ledger_store client bucket"
    if "granted ledger_store ledger_config client bucket" for client bucket
    using that by (auto simp: store_calls_keep_def ledger_store_def noted_def keeps_def all_granted_def)
  have "all_granted (ledger_entries ledger_server h)"
    unfolding ledger_entries_def
    by (rule server_spends_granted_credentials [OF s [unfolded ledger_start_def] web store ledger_steps])
       (simp_all add: all_granted_def)
  moreover have "\<not> granted ledger_store ledger_config host_client ''other''"
    using ambient_granted [of ledger_store ledger_config host_client "''other''" "''host''"]
    by (auto simp: host_client_def configured_buckets_def ledger_config_def log_bucket_def)
  ultimately show ?thesis using s ledger_asks by blast
qed

end
