(* ===== verification/Spec2Isabelle.thy ===== *)
theory Spec2Isabelle
  imports Config_Facts Vfs_Properties Localfs_Properties Scp_Upload Sftp_Properties Auth_Properties Httpfs_Leaks
    S3fs_Properties Server_Properties Startup_Properties Composition
    Credentials
begin

text \<open>
  A verification development for sftp-proxy: a server that presents one virtual filesystem per user
  over SFTP and SCP, assembled from a configured tree and from storage backends, local directories,
  HTTP services and S3 buckets. The sources are those under \<open>src/server/internal/\<close>, and the
  command of \<open>src/server/cmd/sftp-proxy/\<close>; the paths below are relative to \<open>src/server/internal/\<close>.

  The program's parts. A connection is authenticated (\<open>auth/auth.go\<close>) against the users of the
  configuration (\<open>config/config.go\<close>) or by a service. Its user's tree becomes a virtual filesystem
  (\<open>vfs/vfs.go\<close>), which resolves paths by listing directories, remembers what it has resolved, and
  hands each operation to the backend registered for the scheme of the node's URL
  (\<open>localfs/\<close>, \<open>httpfs/\<close>, \<open>s3fs/\<close>). The SFTP handlers (\<open>server/sftpfs.go\<close>) and the SCP sink and
  source (\<open>server/scp*.go\<close>) are its clients; they share a limit on uploads. A backend that has to be
  given a whole file collects it in a staging file first (\<open>vfs/staging.go\<close>). The command
  (\<open>cmd/sftp-proxy/main.go\<close>) loads the configuration, sets up traces (\<open>telemetry/telemetry.go\<close>),
  starts the server and serves until it is told to stop.

  How it is modelled. Data are records and datatypes with the names of the source; an integer of the
  source is a word of its width, and what Go does on overflow is what words do. Fallible code returns
  a sum, \<open>Inl\<close> the error, and an operation with effects is a function from a world to a result and
  the next world (the theory \<open>Prelude\<close>: \<open>bindE\<close>, \<open>returnE\<close>, \<open>failE\<close>). Files, the network and the
  libraries are in the world. Every system call may fail, when a schedule of faults, which nothing
  is assumed of, says so. A reader or a writer is a record of its methods over the world.

  The standard library is modelled where the code uses it: paths (\<open>Go_Paths\<close>), URLs and addresses
  (\<open>Go_Url\<close>), UTF-8 and numbers (\<open>Go_Runes\<close>), headers (\<open>Go_Http\<close>), and the host's files, with
  directories, descriptors, faults, a clock and random numbers (\<open>Go_Os\<close>). What is not under \<open>src/\<close>
  is an argument: the SSH library, bcrypt and key parsing (\<open>crypto\<close>, \<open>auth_lib\<close>), the HTTP client
  with the parsing of media types and the decoding of JSON (\<open>web\<close>, \<open>json_lib\<close>), the SDK (\<open>s3_lib\<close>)
  and the tracing library (\<open>otel\<close>).

  The theories, in the order of the code.

  \<^item> \<open>Config\<close>, \<open>Config_Facts\<close> (\<open>config/config.go\<close>): the configuration, its defaults and every check.
    What passes \<open>Validate\<close> names only what the deployment consented to; a grace period is the number
    of milliseconds stated, exactly when it is below the bound given.
  \<^item> \<open>Vfs\<close>, \<open>Vfs_Facts\<close>, \<open>Vfs_Resolve\<close>, \<open>Vfs_Properties\<close> (\<open>vfs/vfs.go\<close>, \<open>vfs/backend.go\<close>): paths,
    resolution and the operations of \<open>FS\<close>. The reference is the walk from the root over the present
    listings; the cache is coherent with it, and every operation does what the one over the walk
    alone (\<open>plain_stat\<close> to \<open>plain_rename\<close>) would do.
    The locales \<open>stable_listings\<close>, \<open>kept_by_listing\<close> and \<open>kept_by_backends\<close> are the contracts of a
    backend; they are interpreted at the backends that provide them.
  \<^item> \<open>Localfs\<close>, \<open>Localfs_Facts\<close>, \<open>Localfs_Upload\<close>, \<open>Localfs_Contained\<close>, \<open>Localfs_Properties\<close>
    (\<open>localfs/localfs.go\<close>, \<open>localfs/file.go\<close>): the local backend and its uploads through hidden
    files. Uploads are all or nothing, whichever of their writes fail, and nothing outside the allowed
    prefixes is touched.
  \<^item> \<open>Scp_Command\<close>, \<open>Uploads\<close>, \<open>Scp\<close>, \<open>Scp_Facts\<close>, \<open>Scp_Contained\<close>, \<open>Scp_Properties\<close>, \<open>Scp_Upload\<close>
    (\<open>server/scp.go\<close>, \<open>scp_sink.go\<close>, \<open>scp_source.go\<close>): the command line, the protocol in both
    directions, the upload limiter of \<open>server/sftpfs.go\<close>. A channel is the bytes that will arrive and
    how the stream ends. The locale \<open>sink_contract\<close> is what the sink relies on; what the source sends
    of a file is what \<open>file_read\<close> says its reader holds, whatever the channel does.
  \<^item> \<open>Sftp\<close>, \<open>Sftp_Properties\<close> (\<open>server/sftpfs.go\<close>): the handlers of a connection and its handles,
    called in any order.
  \<^item> \<open>Auth\<close>, \<open>Auth_Properties\<close> (\<open>auth/auth.go\<close>): the attempts of a connection. A session is opened
    only for the user of the name given, by a credential the configuration or the service vouches for.
  \<^item> \<open>Staging\<close>, \<open>Staging_Properties\<close> (\<open>vfs/staging.go\<close>): staging files and staged writers.
  \<^item> \<open>Headers\<close> (\<open>headers/headers.go\<close>): what requests carry of the user's headers.
  \<^item> \<open>Httpfs\<close>, \<open>Httpfs_Reads\<close>, \<open>Httpfs_Exact\<close>, \<open>Httpfs_Leaks\<close> (\<open>httpfs/httpfs.go\<close>, \<open>httpfs/read.go\<close>):
    the HTTP backend. Reads of one handle run at once: \<open>Httpfs_Reads\<close> has them as the steps of
    goroutines between which any other may run. What they answer is what the file holds, none waits
    for ever, and no staged copy is left open. How a body ends (\<open>body_end\<close>) matters: cut short it is
    the end of the file to a read, broken in another way it is an error.
  \<^item> \<open>S3fs\<close>, \<open>S3fs_Facts\<close>, \<open>S3fs_Listing\<close>, \<open>S3fs_Masked\<close>, \<open>S3fs_Store\<close>, \<open>S3fs_Upload\<close>,
    \<open>S3fs_Properties\<close> (\<open>s3fs/s3fs.go\<close>, \<open>s3fs/read.go\<close>): the S3 backend. Listings, the calls a mask
    permits, and what the operations do to the objects of a store that keeps its word.
  \<^item> \<open>Server\<close>, \<open>Server_Properties\<close> (\<open>server/server.go\<close>): listening, connections, session channels and
    the probes of clients that have gone quiet.
  \<^item> \<open>Telemetry\<close> (\<open>telemetry/telemetry.go\<close>), \<open>Startup\<close>, \<open>Startup_Properties\<close> (\<open>New\<close> and
    \<open>ListenAndServe\<close> of \<open>server/server.go\<close>, \<open>Load\<close> of \<open>config/config.go\<close>, \<open>cmd/sftp-proxy/main.go\<close>): how
    the process begins and ends. A server that starts has all it needs and has changed nothing but
    that its staging directory is there; status zero is what it says, no listener is left open and
    traces are shut down on every way out.
  \<^item> \<open>Remote_Contained\<close>, \<open>Composition\<close> (the method \<open>filesystem\<close> of \<open>server/server.go\<close>): the three
    backends over one disk and one network, and the connections of a server side by side. The locale
    \<open>scratch_world\<close> is what a world must leave alone for the HTTP and S3 backends to stay within the
    staging directory in it, \<open>shared_part\<close> carries the contract of a part to the whole. Whatever all
    users do, nothing changes but within the staging directory and the allowed prefixes.
  \<^item> \<open>Credentials\<close>: whatever all users do, an S3 bucket is asked only with the credentials a node states or
    the deployment configured for it; the identity of the host is spent on no other.

  Bounds and fuel. The source of an SCP session recurses over listings of any depth; its fuel is one
  more than the number of answers left in the stream, which is enough, since every entry takes one
  (\<open>Scp_Properties.scp_tree_fuel_suffices\<close>). \<open>os.CreateTemp\<close> tries ten thousand names, as the library
  does. The loop over the pages of an S3 listing is given as much fuel as there are pages; a store
  that never ends a listing is asked for ever, by the code too. All other loops terminate.

  What is not modelled: spans and logging; the decoding of JSON, the parsing of flags and signals,
  which are arguments; the SSH handshake and the SFTP request server, which are libraries, and the
  goroutines that wait on them. \<open>Composition\<close> lets connections take turns at the steps of the request
  server and at whole SCP sessions; what happens within a step of one connection is not interleaved
  with another's, except for reads of a file open over HTTP, whose steps \<open>Httpfs_Reads\<close> interleaves.
  Symbolic links inside a root, which \<open>os.Root\<close> resolves within it, and contexts, whose cancellation
  is a request that fails, are not there either. The users' header names are taken to be ASCII where
  they are brought to lower case.

  Where the code and what is said of it part ways: an upload to the local backend one of whose writes
  failed cannot be aborted, and its hidden file stays (\<open>Localfs_Properties.abort_after_failed_write_leaks\<close>);
  a grace period beyond the bound is negative (\<open>Config_Facts.login_grace_can_be_negative\<close>); a name that
  is a key on one page of an S3 listing and a prefix on a later one is listed as a file
  (\<open>S3fs_Listing.key_before_prefix_is_a_file\<close>); a prefix with more than ten thousand entries cannot be
  listed, where \<open>docs/s3-backend.md\<close> promises the first of them (\<open>S3fs_Listing.s3_list_exact\<close>); a range
  over HTTP whose body is cut short is answered as the end of the file, although the response may
  have stated a greater length (\<open>Httpfs_Exact.cut_range_is_the_end\<close>); a name with a newline in it is announced to an SCP
  client as two lines of the protocol (\<open>Scp_Properties.newline_splits_header\<close>), and a stream that
  breaks off within a line is a session that went well (\<open>Scp_Properties.cut_off_line_is_the_end\<close>); a
  child's URL has the escapes of its directory's decoded (\<open>Httpfs_Exact.child_url_decodes_directory\<close>).
\<close>

end
